(* ===== verification/Kv_Prelude.thy ===== *)
theory Kv_Prelude
  imports Main "HOL-Library.State_Monad" "HOL-Library.Finite_Map"
begin

text \<open>
  Shared material of the development: the weakest-precondition calculus for the state monad
  in which the effectful Go code is written, the reading conventions of Go's maps, and the
  theorem collections the component proofs draw on.

  Effectful code is a value of type \<open>('s, 'a) state\<close>; \<open>wp m Q s\<close> says that running \<open>m\<close>
  from \<open>s\<close> ends in a result and a state that satisfy \<open>Q\<close>. The model is deterministic and
  total, so \<open>wp\<close> commutes with every connective and its rules are rewrite rules: a proof
  about a handler is a \<open>simp\<close> with \<open>wp_simps\<close> and the rules of the operations it calls.
\<close>

named_theorems wp_simps \<open>rewrite rules that push \<open>wp\<close> through the monad\<close>
named_theorems go_consts \<open>definitions of the constants of the Go sources\<close>

section \<open>Weakest preconditions\<close>

definition wp :: "('s, 'a) state \<Rightarrow> ('a \<Rightarrow> 's \<Rightarrow> bool) \<Rightarrow> 's \<Rightarrow> bool" where
  "wp m Q s = (case run_state m s of (a, s') \<Rightarrow> Q a s')"

text \<open>Reading one component of the state, and changing the state.\<close>

definition gets :: "('s \<Rightarrow> 'a) \<Rightarrow> ('s, 'a) state" where
  "gets f = State (\<lambda>s. (f s, s))"

definition modify :: "('s \<Rightarrow> 's) \<Rightarrow> ('s, unit) state" where
  "modify f = State (\<lambda>s. ((), f s))"

lemma wp_return [wp_simps]: "wp (State_Monad.return a) Q s = Q a s"
  by (simp add: wp_def)

lemma wp_bind [wp_simps]: "wp (State_Monad.bind m f) Q s = wp m (\<lambda>a. wp (f a) Q) s"
  by (simp add: wp_def split: prod.split)

lemma wp_gets [wp_simps]: "wp (gets f) Q s = Q (f s) s"
  by (simp add: wp_def gets_def)

lemma wp_modify [wp_simps]: "wp (modify f) Q s = Q () (f s)"
  by (simp add: wp_def modify_def)

lemma run_state_gets [simp]: "run_state (gets f) s = (f s, s)"
  by (simp add: gets_def)

lemma run_state_modify [simp]: "run_state (modify f) s = ((), f s)"
  by (simp add: modify_def)

text \<open>Consequence and conjunction: the two structural rules the component proofs use.\<close>

lemma wp_mono: "wp m Q s \<Longrightarrow> (\<And>a s'. Q a s' \<Longrightarrow> R a s') \<Longrightarrow> wp m R s"
  by (auto simp: wp_def split: prod.splits)

lemma wp_conj: "wp m (\<lambda>a s'. Q a s' \<and> R a s') s \<longleftrightarrow> wp m Q s \<and> wp m R s"
  by (auto simp: wp_def split: prod.splits)

lemma wp_run: "run_state m s = (a, s') \<Longrightarrow> wp m Q s \<Longrightarrow> Q a s'"
  by (simp add: wp_def)

lemma wpI: "(\<And>a s'. run_state m s = (a, s') \<Longrightarrow> Q a s') \<Longrightarrow> wp m Q s"
  by (simp add: wp_def split: prod.split)

section \<open>Go maps\<close>

text \<open>
  A Go map is a finite map; reading a missing key of a \<open>map[string]string\<close> yields the zero
  value \<open>""\<close>. A nil map and an empty map read alike and are not told apart here.
\<close>

type_synonym stringmap = "(string, string) fmap"

definition mapget :: "stringmap \<Rightarrow> string \<Rightarrow> string" where
  "mapget m k = (case fmlookup m k of None \<Rightarrow> [] | Some v \<Rightarrow> v)"

definition maplen :: "('k, 'v) fmap \<Rightarrow> nat" where
  "maplen m = fcard (fmdom m)"

text \<open>\<open>maps.EqualFunc\<close>: the same number of keys, and every key of the first map is a key of
  the second with an equal value.\<close>

definition maps_EqualFunc ::
    "('k, 'v) fmap \<Rightarrow> ('k, 'v) fmap \<Rightarrow> ('v \<Rightarrow> 'v \<Rightarrow> bool) \<Rightarrow> bool" where
  "maps_EqualFunc m1 m2 eq =
     (if maplen m1 \<noteq> maplen m2 then False
      else fBall (fmdom m1) (\<lambda>k. case fmlookup m1 k of None \<Rightarrow> True
        | Some v1 \<Rightarrow> (case fmlookup m2 k of None \<Rightarrow> False | Some v2 \<Rightarrow> eq v1 v2)))"

lemma mapget_upd [simp]: "mapget (fmupd k v m) k' = (if k' = k then v else mapget m k')"
  by (simp add: mapget_def)

lemma mapget_empty [simp]: "mapget fmempty k = []"
  by (simp add: mapget_def)

lemma maplen_single [simp]: "maplen (fmupd k v fmempty) = 1"
  by (simp add: maplen_def fcard.rep_eq)

lemma maplen_one_iff: "maplen m = 1 \<and> fmlookup m k = Some v \<longleftrightarrow> m = fmupd k v fmempty"
proof
  assume "maplen m = 1 \<and> fmlookup m k = Some v"
  then have one: "fcard (fmdom m) = 1" and k: "fmlookup m k = Some v"
    by (simp_all add: maplen_def)
  have "k |\<in>| fmdom m" using k by (auto intro: fmdomI)
  moreover obtain x where "fmdom m = {|x|}"
    using one by (auto simp: fcard.rep_eq card_1_singleton_iff fset_inject [symmetric])
  ultimately have "fmdom m = {|k|}" by simp
  then have "fmlookup m k' = fmlookup (fmupd k v fmempty) k'" for k'
    using k by (cases "k' = k") (auto simp: fmdom_notI intro: fmdom_notD)
  then show "m = fmupd k v fmempty" by (rule fmap_ext)
next
  assume "m = fmupd k v fmempty"
  then show "maplen m = 1 \<and> fmlookup m k = Some v" by simp
qed

lemma maps_EqualFunc_iff: "maps_EqualFunc m1 m2 (=) \<longleftrightarrow> m1 = m2"
proof
  assume eq: "maps_EqualFunc m1 m2 (=)"
  then have len: "fcard (fmdom m1) = fcard (fmdom m2)"
    by (simp add: maps_EqualFunc_def maplen_def split: if_splits)
  have agree: "fmlookup m2 k = Some v" if "fmlookup m1 k = Some v" for k v
    using eq that fmdomI [OF that]
    by (force simp: maps_EqualFunc_def split: if_splits option.splits)
  then have "fmdom m1 |\<subseteq>| fmdom m2"
    by (auto elim!: fmdomE intro: fmdomI)
  with len have dom: "fmdom m1 = fmdom m2"
    by (simp add: fcard_seteq)
  show "m1 = m2"
  proof (rule fmap_ext)
    show "fmlookup m1 k = fmlookup m2 k" for k
      using agree dom by (cases "fmlookup m1 k") (metis fmdom_notD fmdom_notI, simp)
  qed
next
  assume "m1 = m2"
  then show "maps_EqualFunc m1 m2 (=)"
    by (auto simp: maps_EqualFunc_def split: option.split)
qed

end
