(* ===== verification/Go_Errors.thy ===== *)
theory Go_Errors
  imports Kv_Prelude
begin

text \<open>
  Go errors as trees. A node is an error value: its dynamic type and identity is the \<open>kind\<close>,
  its children are what its \<open>Unwrap\<close> method returns. \<open>errors.Is\<close> and \<open>errors.As\<close> are the
  depth-first searches of Go's \<open>errors\<close> package over that tree.

  A sentinel (\<open>errors.New\<close> at package level) is identified by its variable, since
  \<open>errors.Is\<close> compares pointers. \<open>fmt.Errorf\<close> with one or several \<open>%w\<close> verbs is \<open>KErrorf\<close>
  over the wrapped errors, with the text that precedes them. Errors that libraries hand to the
  operator are \<open>KResponse\<close> (azcore), \<open>KAuthFailed\<close> (azidentity), \<open>KURLError\<close> (net/url), \<open>KAlreadyOwned\<close>
  (controller-runtime) and \<open>KExternal\<close> for all the others.
\<close>

datatype sentinel =
    ErrSecretNotFound | ErrAccessDenied | ErrAuthFailure | ErrSecretDisabled | ErrTransient
  | ErrTargetConflict | ErrTargetImmutable | ErrMalformedMessage

text \<open>\<open>*azcore.ResponseError\<close>: the HTTP status and, when \<open>RawResponse\<close> is not nil, what
  \<open>runtime.Payload\<close> makes of it: the body, or the failure to read it.\<close>

record ResponseErr =
  re_StatusCode :: int
  re_Payload :: "string option option"

datatype kind =
    KSentinel sentinel
  | KNew string
  | KErrorf string
  | KResponse ResponseErr
  | KAuthFailed "int option"   \<comment> \<open>\<open>RawResponse.StatusCode\<close>, \<open>None\<close> for a nil response\<close>
  | KURLError string string    \<comment> \<open>\<open>*url.Error\<close>: its \<open>Op\<close> and \<open>URL\<close>; it unwraps to its \<open>Err\<close>\<close>
  | KAlreadyOwned
  | KExternal bool string      \<comment> \<open>whether its type has a \<open>NonRetriable()\<close> method; its text\<close>
  | KPanic string              \<comment> \<open>not an error value: the run-time panic of the goroutine\<close>

datatype goerr = Err (err_kind: kind) (err_unwrap: "goerr list")

abbreviation Sentinel :: "sentinel \<Rightarrow> goerr" where
  "Sentinel s \<equiv> Err (KSentinel s) []"

abbreviation errors_New :: "string \<Rightarrow> goerr" where
  "errors_New msg \<equiv> Err (KNew msg) []"

text \<open>\<open>fmt.Errorf("<text>%w: %w ...", errs...)\<close>.\<close>

abbreviation Errorf :: "string \<Rightarrow> goerr list \<Rightarrow> goerr" where
  "Errorf text errs \<equiv> Err (KErrorf text) errs"

section \<open>errors.Is and errors.As\<close>

fun errors_Is :: "goerr \<Rightarrow> sentinel \<Rightarrow> bool" where
  "errors_Is (Err k es) t = (k = KSentinel t \<or> list_ex (\<lambda>e. errors_Is e t) es)"

text \<open>The first node in depth-first order whose kind satisfies the type test.\<close>

fun errors_As :: "(kind \<Rightarrow> bool) \<Rightarrow> goerr \<Rightarrow> kind option"
  and errors_As_list :: "(kind \<Rightarrow> bool) \<Rightarrow> goerr list \<Rightarrow> kind option" where
  "errors_As p (Err k es) = (if p k then Some k else errors_As_list p es)"
| "errors_As_list p [] = None"
| "errors_As_list p (e # es) =
     (case errors_As p e of Some k \<Rightarrow> Some k | None \<Rightarrow> errors_As_list p es)"

text \<open>The same search, with the node that was found.\<close>

fun errors_AsErr :: "(kind \<Rightarrow> bool) \<Rightarrow> goerr \<Rightarrow> goerr option"
  and errors_AsErr_list :: "(kind \<Rightarrow> bool) \<Rightarrow> goerr list \<Rightarrow> goerr option" where
  "errors_AsErr p (Err k es) = (if p k then Some (Err k es) else errors_AsErr_list p es)"
| "errors_AsErr_list p [] = None"
| "errors_AsErr_list p (e # es) =
     (case errors_AsErr p e of Some x \<Rightarrow> Some x | None \<Rightarrow> errors_AsErr_list p es)"

fun isAlreadyOwned :: "kind \<Rightarrow> bool" where
  "isAlreadyOwned KAlreadyOwned = True"
| "isAlreadyOwned _ = False"

section \<open>Lemmas\<close>

lemma errors_Is_Errorf [simp]: "errors_Is (Errorf t [e]) s = errors_Is e s"
  by simp

lemma errors_As_Errorf [simp]: "\<not> p (KErrorf t) \<Longrightarrow> errors_As p (Errorf t [e]) = errors_As p e"
  by (auto split: option.split)

lemma errors_As_Some:
  "errors_As p e = Some k \<Longrightarrow> p k" "errors_As_list p es = Some k \<Longrightarrow> p k"
  by (induction p e and p es rule: errors_As_errors_As_list.induct)
    (auto split: if_splits option.splits)

end
