(* ===== verification/Go_Strings.thy ===== *)
theory Go_Strings
  imports Kv_Prelude
begin

text \<open>
  The parts of Go's \<open>unicode/utf8\<close>, \<open>strconv\<close> and \<open>strings\<close> that the operator's messages and
  comparisons go through.
  A Go string is a list of bytes, here \<open>string\<close>; a rune is a \<open>nat\<close>.
  The generated tables of Go's \<open>unicode\<close> package are data, not code: they are the record
  \<open>unicode\<close>, an argument of every definition that consults them, and no lemma restricts them.
\<close>

record unicode =
  tab_IsPrint :: "nat \<Rightarrow> bool"      \<comment> \<open>\<open>strconv.IsPrint\<close> for runes above Latin-1\<close>
  tab_ToLower :: "nat \<Rightarrow> nat"        \<comment> \<open>\<open>unicode.ToLower\<close> for runes above ASCII\<close>
  tab_SimpleFold :: "nat \<Rightarrow> nat"     \<comment> \<open>\<open>unicode.SimpleFold\<close>\<close>

section \<open>UTF-8\<close>

abbreviation RuneError :: nat where "RuneError \<equiv> 65533"

definition byte :: "char \<Rightarrow> nat" where
  "byte c = of_char c"

definition contByte :: "nat \<Rightarrow> bool" where
  "contByte b \<longleftrightarrow> 128 \<le> b \<and> b \<le> 191"

text \<open>Size of the sequence a leading byte announces, and the range of its second byte
  (\<open>utf8.first\<close> and \<open>utf8.acceptRanges\<close>); \<open>None\<close> for a byte that cannot lead.\<close>

definition leadInfo :: "nat \<Rightarrow> (nat \<times> nat \<times> nat) option" where
  "leadInfo b =
     (if 194 \<le> b \<and> b \<le> 223 then Some (2, 128, 191)
      else if b = 224 then Some (3, 160, 191)
      else if b = 237 then Some (3, 128, 159)
      else if 225 \<le> b \<and> b \<le> 239 then Some (3, 128, 191)
      else if b = 240 then Some (4, 144, 191)
      else if 241 \<le> b \<and> b \<le> 243 then Some (4, 128, 191)
      else if b = 244 then Some (4, 128, 143)
      else None)"

text \<open>\<open>utf8.DecodeRuneInString\<close>: the first rune and its width; \<open>(RuneError, 1)\<close> for an
  invalid encoding, \<open>(RuneError, 0)\<close> for the empty string.\<close>

definition decodeRune :: "string \<Rightarrow> nat \<times> nat" where
  "decodeRune s =
     (case map byte (take 4 s) of
        [] \<Rightarrow> (RuneError, 0)
      | b0 # bs \<Rightarrow>
          if b0 < 128 then (b0, 1)
          else (case leadInfo b0 of
              None \<Rightarrow> (RuneError, 1)
            | Some (n, lo, hi) \<Rightarrow>
                (case bs of
                   [] \<Rightarrow> (RuneError, 1)
                 | b1 # bs1 \<Rightarrow>
                     if length bs1 + 2 < n \<or> b1 < lo \<or> hi < b1 then (RuneError, 1)
                     else if n = 2 then ((b0 mod 32) * 64 + b1 mod 64, 2)
                     else (case bs1 of
                         [] \<Rightarrow> (RuneError, 1)
                       | b2 # bs2 \<Rightarrow>
                           if \<not> contByte b2 then (RuneError, 1)
                           else if n = 3
                             then ((b0 mod 16) * 4096 + (b1 mod 64) * 64 + b2 mod 64, 3)
                           else (case bs2 of
                               [] \<Rightarrow> (RuneError, 1)
                             | b3 # _ \<Rightarrow>
                                 if \<not> contByte b3 then (RuneError, 1)
                                 else ((b0 mod 8) * 262144 + (b1 mod 64) * 4096
                                       + (b2 mod 64) * 64 + b3 mod 64, 4))))))"

section \<open>Quoting\<close>

definition hexdigit :: "nat \<Rightarrow> char" where
  "hexdigit n = (if n < 10 then char_of (48 + n) else char_of (87 + n))"

text \<open>The low \<open>k\<close> hexadecimal digits of a number, most significant first.\<close>

primrec hexdigits :: "nat \<Rightarrow> nat \<Rightarrow> string" where
  "hexdigits 0 n = []"
| "hexdigits (Suc k) n = hexdigits k (n div 16) @ [hexdigit (n mod 16)]"

definition isPrint :: "unicode \<Rightarrow> nat \<Rightarrow> bool" where
  "isPrint u r =
     (if r \<le> 255 then (32 \<le> r \<and> r < 127) \<or> (161 \<le> r \<and> r \<noteq> 173)
      else tab_IsPrint u r)"

text \<open>\<open>strconv.appendEscapedRune\<close> with the double quote as the quote character: \<open>bs\<close> are the
  bytes of the rune \<open>r\<close>, copied when the rune is printable.\<close>

definition escapedRune :: "unicode \<Rightarrow> nat \<Rightarrow> string \<Rightarrow> string" where
  "escapedRune u r bs =
     (if r = 34 \<or> r = 92 then CHR 0x5C # bs
      else if isPrint u r then bs
      else if r = 7 then CHR 0x5C # ''a''
      else if r = 8 then CHR 0x5C # ''b''
      else if r = 12 then CHR 0x5C # ''f''
      else if r = 10 then CHR 0x5C # ''n''
      else if r = 13 then CHR 0x5C # ''r''
      else if r = 9 then CHR 0x5C # ''t''
      else if r = 11 then CHR 0x5C # ''v''
      else if r < 32 \<or> r = 127 then CHR 0x5C # CHR ''x'' # hexdigits 2 r
      else if r < 65536 then CHR 0x5C # CHR ''u'' # hexdigits 4 r
      else CHR 0x5C # CHR ''U'' # hexdigits 8 r)"

function quoteBody :: "unicode \<Rightarrow> string \<Rightarrow> string" where
  "quoteBody u [] = []"
| "quoteBody u (c # cs) =
     (case decodeRune (c # cs) of (r, width) \<Rightarrow>
        (if width = 1 \<and> r = RuneError then CHR 0x5C # CHR ''x'' # hexdigits 2 (byte c)
         else escapedRune u r (take width (c # cs))) @ quoteBody u (drop (width - 1) cs))"
  by pat_completeness auto
termination
  by (relation "measure (\<lambda>(u, s). length s)") auto

text \<open>\<open>strconv.Quote\<close>, the rendering of the verb \<open>%q\<close>.\<close>

definition quote :: "unicode \<Rightarrow> string \<Rightarrow> string" where
  "quote u s = CHR 0x22 # quoteBody u s @ [CHR 0x22]"

section \<open>Encoding runes\<close>

text \<open>\<open>utf8.AppendRune\<close>: surrogates and runes out of range are encoded as \<open>RuneError\<close>.\<close>

definition encodeRune :: "nat \<Rightarrow> string" where
  "encodeRune r =
     (let r' = (if 55296 \<le> r \<and> r \<le> 57343 \<or> 1114111 < r then RuneError else r) in
      map char_of
        (if r' < 128 then [r']
         else if r' < 2048 then [192 + r' div 64, 128 + r' mod 64]
         else if r' < 65536 then [224 + r' div 4096, 128 + r' div 64 mod 64, 128 + r' mod 64]
         else [240 + r' div 262144, 128 + r' div 4096 mod 64, 128 + r' div 64 mod 64, 128 + r' mod 64]))"

text \<open>The runes a \<open>range\<close> loop over a string visits.\<close>

function runes :: "string \<Rightarrow> nat list" where
  "runes [] = []"
| "runes (c # cs) = fst (decodeRune (c # cs)) # runes (drop (snd (decodeRune (c # cs)) - 1) cs)"
  by pat_completeness auto
termination
  by (relation "measure length") auto

section \<open>Case folding\<close>

definition lowerByte :: "nat \<Rightarrow> nat" where
  "lowerByte b = (if 65 \<le> b \<and> b \<le> 90 then b + 32 else b)"

definition upperByte :: "nat \<Rightarrow> nat" where
  "upperByte b = (if 97 \<le> b \<and> b \<le> 122 then b - 32 else b)"

text \<open>\<open>strings.ToLower\<close>: byte-wise when the string is ASCII, rune by rune otherwise.\<close>

definition ToLower :: "unicode \<Rightarrow> string \<Rightarrow> string" where
  "ToLower u s =
     (if list_all (\<lambda>c. byte c < 128) s then map (\<lambda>c. char_of (lowerByte (byte c))) s
      else concat (map (\<lambda>r. encodeRune (if r < 128 then lowerByte r else tab_ToLower u r)) (runes s)))"

text \<open>\<open>strings.Contains\<close>.\<close>

fun Contains :: "string \<Rightarrow> string \<Rightarrow> bool" where
  "Contains [] needle = (needle = [])"
| "Contains (c # cs) needle = (take (length needle) (c # cs) = needle \<or> Contains cs needle)"

text \<open>The pair test of \<open>strings.EqualFold\<close>, with \<open>lo < hi\<close>: ASCII pairs by arithmetic, others by walking
  the orbit of \<open>unicode.SimpleFold\<close> from \<open>lo\<close>. No orbit of Unicode has more than four members, so four
  steps are enough.\<close>

primrec foldOrbit :: "unicode \<Rightarrow> nat \<Rightarrow> nat \<Rightarrow> nat \<Rightarrow> nat \<Rightarrow> nat" where
  "foldOrbit u 0 lo hi r = r"
| "foldOrbit u (Suc n) lo hi r =
     (if r \<noteq> lo \<and> r < hi then foldOrbit u n lo hi (tab_SimpleFold u r) else r)"

definition foldPair :: "unicode \<Rightarrow> nat \<Rightarrow> nat \<Rightarrow> bool" where
  "foldPair u sr tr =
     (if tr = sr then True
      else (let lo = min sr tr; hi = max sr tr in
        if hi < 128 then 65 \<le> lo \<and> lo \<le> 90 \<and> hi = lo + 32
        else foldOrbit u 4 lo hi (tab_SimpleFold u lo) = hi))"

function equalFoldRunes :: "unicode \<Rightarrow> string \<Rightarrow> string \<Rightarrow> bool" where
  "equalFoldRunes u [] t = (t = [])"
| "equalFoldRunes u (c # cs) [] = False"
| "equalFoldRunes u (c # cs) (d # ds) =
     (if foldPair u (fst (decodeRune (c # cs))) (fst (decodeRune (d # ds)))
      then equalFoldRunes u (drop (snd (decodeRune (c # cs)) - 1) cs)
             (drop (snd (decodeRune (d # ds)) - 1) ds)
      else False)"
  by pat_completeness auto
termination
  by (relation "measure (\<lambda>(u, s, t). length s)") auto

text \<open>\<open>strings.EqualFold\<close>: bytes while both sides are ASCII, runes from the first other byte on.\<close>

fun EqualFold :: "unicode \<Rightarrow> string \<Rightarrow> string \<Rightarrow> bool" where
  "EqualFold u (c # cs) (d # ds) =
     (if 128 \<le> byte c \<or> 128 \<le> byte d then equalFoldRunes u (c # cs) (d # ds)
      else if byte c = byte d
        \<or> (let lo = min (byte c) (byte d); hi = max (byte c) (byte d) in
             65 \<le> lo \<and> lo \<le> 90 \<and> hi = lo + 32)
      then EqualFold u cs ds
      else False)"
| "EqualFold u s t = (length s = length t)"

text \<open>Printable ASCII without a quote or a backslash, the alphabet of every name the CRD
  schema admits.\<close>

definition plainChar :: "char \<Rightarrow> bool" where
  "plainChar c \<longleftrightarrow> 32 \<le> byte c \<and> byte c < 127 \<and> byte c \<noteq> 34 \<and> byte c \<noteq> 92"

section \<open>Lemmas\<close>

lemma lowerByte_pair:
  "a < 128 \<Longrightarrow> b < 128 \<Longrightarrow>
   lowerByte a = lowerByte b \<longleftrightarrow>
     a = b \<or> (let lo = min a b; hi = max a b in 65 \<le> lo \<and> lo \<le> 90 \<and> hi = lo + 32)"
  by (auto simp: lowerByte_def Let_def min_def max_def split: if_splits)

text \<open>On ASCII strings, equality under folding is equality of the lower-cased strings.\<close>

lemma EqualFold_ascii:
  "list_all (\<lambda>c. byte c < 128) s \<Longrightarrow> list_all (\<lambda>c. byte c < 128) t \<Longrightarrow>
   EqualFold u s t \<longleftrightarrow> map (\<lambda>c. lowerByte (byte c)) s = map (\<lambda>c. lowerByte (byte c)) t"
proof (induction u s t rule: EqualFold.induct)
  case (1 u c cs d ds)
  then show ?case using lowerByte_pair [of "byte c" "byte d"] by (auto simp: Let_def)
qed auto

lemma decodeRune_ascii: "byte c < 128 \<Longrightarrow> decodeRune (c # cs) = (byte c, 1)"
  by (simp add: decodeRune_def)

lemma quoteBody_plain: "list_all plainChar s \<Longrightarrow> quoteBody u s = s"
  by (induction s) (auto simp: decodeRune_ascii plainChar_def escapedRune_def isPrint_def)

lemma quote_plain: "list_all plainChar s \<Longrightarrow> quote u s = CHR 0x22 # s @ [CHR 0x22]"
  by (simp add: quote_def quoteBody_plain)

end
