(* ===== verification/Api_V1alpha1.thy ===== *)
theory Api_V1alpha1
  imports Go_Strings
begin

text \<open>
  The API types: \<open>SecretSync\<close> and its parts (\<open>api/v1alpha1/secretsync_types.go\<close>) with the
  admission rules of its kubebuilder markers, and the fields of the Kubernetes types
  (\<open>ObjectMeta\<close>, \<open>OwnerReference\<close>, \<open>Condition\<close>, \<open>Secret\<close>) that the operator reads or
  writes. Field names carry a prefix for their type. A \<open>metav1.Time\<close> is a number of
  nanoseconds since Go's zero time, so \<open>IsZero\<close> is \<open>t = 0\<close>; a duration is a number of
  nanoseconds.
\<close>

type_synonym time = int
type_synonym duration = int

abbreviation Second :: duration where "Second \<equiv> 1000000000"
abbreviation Minute :: duration where "Minute \<equiv> 60 * Second"
abbreviation Hour :: duration where "Hour \<equiv> 60 * Minute"

section \<open>Kubernetes object types\<close>

record OwnerReference =
  or_APIVersion :: string
  or_Kind :: string
  or_Name :: string
  or_UID :: string
  or_Controller :: "bool option"
  or_BlockOwnerDeletion :: "bool option"

record ObjectMeta =
  om_Name :: string
  om_Namespace :: string
  om_UID :: string
  om_ResourceVersion :: string
  om_Generation :: int
  om_CreationTimestamp :: time
  om_DeletionTimestamp :: time
  om_Labels :: stringmap
  om_Annotations :: stringmap
  om_OwnerReferences :: "OwnerReference list"
  om_Finalizers :: "string list"

record Secret =
  sec_Meta :: ObjectMeta
  sec_Type :: string
  sec_Immutable :: "bool option"
  sec_Data :: stringmap

datatype ConditionStatus = ConditionTrue | ConditionFalse | ConditionUnknown

record Condition =
  cond_Type :: string
  cond_Status :: ConditionStatus
  cond_ObservedGeneration :: int
  cond_LastTransitionTime :: time
  cond_Reason :: string
  cond_Message :: string

record NamespacedName =
  nn_Namespace :: string
  nn_Name :: string

section \<open>SecretSync\<close>

record VaultSpec =
  vault_Name :: string
  vault_Secret :: string

record TargetSpec =
  target_SecretName :: string
  target_DataKey :: string

record SecretSyncSpec =
  spec_Vault :: VaultSpec
  spec_Target :: TargetSpec

type_synonym SecretSyncState = string

abbreviation SecretSyncStatePending :: SecretSyncState where
  "SecretSyncStatePending \<equiv> ''Pending''"
abbreviation SecretSyncStateInSync :: SecretSyncState where
  "SecretSyncStateInSync \<equiv> ''InSync''"
abbreviation SecretSyncStateFailing :: SecretSyncState where
  "SecretSyncStateFailing \<equiv> ''Failing''"

record SecretSyncStatus =
  st_State :: SecretSyncState
  st_LastSyncTime :: time
  st_SyncedVersion :: string
  st_Reason :: string
  st_Message :: string
  st_ObservedGeneration :: int
  st_Conditions :: "Condition list"

abbreviation ConditionReady :: string where
  "ConditionReady \<equiv> ''Ready''"

record SecretSync =
  ss_Meta :: ObjectMeta
  ss_Spec :: SecretSyncSpec
  ss_Status :: SecretSyncStatus

abbreviation ss_Name :: "SecretSync \<Rightarrow> string" where
  "ss_Name ss \<equiv> om_Name (ss_Meta ss)"
abbreviation ss_Namespace :: "SecretSync \<Rightarrow> string" where
  "ss_Namespace ss \<equiv> om_Namespace (ss_Meta ss)"
abbreviation ss_UID :: "SecretSync \<Rightarrow> string" where
  "ss_UID ss \<equiv> om_UID (ss_Meta ss)"

text \<open>The zero values \<open>ObjectMeta{}\<close> and \<open>SecretSyncStatus{}\<close>.\<close>

definition zeroObjectMeta :: ObjectMeta where
  "zeroObjectMeta =
     \<lparr>om_Name = [], om_Namespace = [], om_UID = [], om_ResourceVersion = [], om_Generation = 0,
      om_CreationTimestamp = 0, om_DeletionTimestamp = 0, om_Labels = fmempty,
      om_Annotations = fmempty, om_OwnerReferences = [], om_Finalizers = []\<rparr>"

definition zeroStatus :: SecretSyncStatus where
  "zeroStatus =
     \<lparr>st_State = [], st_LastSyncTime = 0, st_SyncedVersion = [], st_Reason = [], st_Message = [],
      st_ObservedGeneration = 0, st_Conditions = []\<rparr>"

text \<open>\<open>GroupVersion.String()\<close> of the API group of the SecretSync kind.\<close>

abbreviation GroupVersion :: string where
  "GroupVersion \<equiv> ''kvsynk8s.io/v1alpha1''"

section \<open>Admission rules\<close>

text \<open>The character classes of the validation patterns, and the patterns themselves.\<close>

definition isLower :: "char \<Rightarrow> bool" where
  "isLower c \<longleftrightarrow> 97 \<le> byte c \<and> byte c \<le> 122"

definition isUpper :: "char \<Rightarrow> bool" where
  "isUpper c \<longleftrightarrow> 65 \<le> byte c \<and> byte c \<le> 90"

definition isDigit :: "char \<Rightarrow> bool" where
  "isDigit c \<longleftrightarrow> 48 \<le> byte c \<and> byte c \<le> 57"

definition isAlnum :: "char \<Rightarrow> bool" where
  "isAlnum c \<longleftrightarrow> isLower c \<or> isUpper c \<or> isDigit c"

text \<open>\<open>spec.vault.name\<close>: 3 to 24 characters, \<open>^[a-zA-Z][a-zA-Z0-9-]+$\<close>.\<close>

fun validVaultName :: "string \<Rightarrow> bool" where
  "validVaultName [] = False"
| "validVaultName (c # cs) =
     (3 \<le> length (c # cs) \<and> length (c # cs) \<le> 24 \<and> (isLower c \<or> isUpper c) \<and> cs \<noteq> []
      \<and> list_all (\<lambda>x. isAlnum x \<or> x = CHR ''-'') cs)"

text \<open>\<open>spec.vault.secret\<close>: 1 to 127 characters, \<open>^[a-zA-Z0-9-]+$\<close>.\<close>

definition validVaultSecret :: "string \<Rightarrow> bool" where
  "validVaultSecret s \<longleftrightarrow>
     1 \<le> length s \<and> length s \<le> 127 \<and> list_all (\<lambda>x. isAlnum x \<or> x = CHR ''-'') s"

text \<open>\<open>spec.target.secretName\<close>, when set: at most 253 characters, DNS labels of
  \<open>[a-z0-9]([-a-z0-9]*[a-z0-9])?\<close> separated by dots.\<close>

fun splitDots :: "string \<Rightarrow> string list" where
  "splitDots [] = [[]]"
| "splitDots (c # cs) =
     (if c = CHR ''.'' then [] # splitDots cs
      else (case splitDots cs of [] \<Rightarrow> [[c]] | l # ls \<Rightarrow> (c # l) # ls))"

definition validLabel :: "string \<Rightarrow> bool" where
  "validLabel l \<longleftrightarrow>
     l \<noteq> [] \<and> list_all (\<lambda>x. isLower x \<or> isDigit x \<or> x = CHR ''-'') l
     \<and> hd l \<noteq> CHR ''-'' \<and> last l \<noteq> CHR ''-''"

definition validSecretName :: "string \<Rightarrow> bool" where
  "validSecretName s \<longleftrightarrow> length s \<le> 253 \<and> list_all validLabel (splitDots s)"

text \<open>\<open>spec.target.dataKey\<close>, when set: at most 253 characters, \<open>^[-._a-zA-Z0-9]+$\<close>, and not
  \<open>"."\<close> nor anything that starts with \<open>".."\<close>.\<close>

definition validDataKey :: "string \<Rightarrow> bool" where
  "validDataKey s \<longleftrightarrow>
     length s \<le> 253 \<and> s \<noteq> []
     \<and> list_all (\<lambda>x. isAlnum x \<or> x = CHR ''-'' \<or> x = CHR ''.'' \<or> x = CHR ''_'') s
     \<and> s \<noteq> ''.'' \<and> take 2 s \<noteq> ''..''"

definition admitted :: "SecretSyncSpec \<Rightarrow> bool" where
  "admitted sp \<longleftrightarrow>
     validVaultName (vault_Name (spec_Vault sp)) \<and> validVaultSecret (vault_Secret (spec_Vault sp))
     \<and> (target_SecretName (spec_Target sp) = [] \<or> validSecretName (target_SecretName (spec_Target sp)))
     \<and> (target_DataKey (spec_Target sp) = [] \<or> validDataKey (target_DataKey (spec_Target sp)))"

section \<open>Lemmas\<close>

lemmas char_class_defs = isAlnum_def isLower_def isUpper_def isDigit_def plainChar_def

lemma alnum_dash_plain: "isAlnum x \<or> x = CHR ''-'' \<Longrightarrow> plainChar x"
  by (auto simp: char_class_defs byte_def)

text \<open>Admitted names are printed by \<open>%q\<close> as themselves between double quotes.\<close>

lemma quote_vault_secret:
  "validVaultSecret s \<Longrightarrow> quote u s = CHR 0x22 # s @ [CHR 0x22]"
  by (rule quote_plain) (auto simp: validVaultSecret_def list_all_iff intro: alnum_dash_plain)

lemma quote_vault_name:
  "validVaultName s \<Longrightarrow> quote u s = CHR 0x22 # s @ [CHR 0x22]"
  by (rule quote_plain, cases s)
    (auto simp: list_all_iff isAlnum_def intro!: alnum_dash_plain)

lemma vault_secret_is_data_key: "validVaultSecret s \<Longrightarrow> validDataKey s"
  by (cases s; cases "tl s")
    (auto simp: validVaultSecret_def validDataKey_def list_all_iff char_class_defs byte_def)

end
