(* ===== verification/Operator_State.thy ===== *)
theory Operator_State
  imports Go_Errors Api_V1alpha1
begin

text \<open>
  The state the operator runs in, and the interface to the code it calls but does not contain.

  Everything that is not under \<open>src/\<close> is a field of the record \<open>'w env\<close>: the Kubernetes
  client (reads, writes and the status subresource), the pure helpers of apimachinery and
  controller-runtime, the clock and Go's \<open>unicode\<close> tables. The world behind the client is the type variable \<open>'w\<close>,
  about which nothing is known: a call may return anything and change the world in any way.
  What a theorem needs of that code is a hypothesis over \<open>env\<close>, stated where it is used.

  \<open>'w sys\<close> is the process: the world, every call made to it in order with its answer, the
  Kubernetes Events emitted, the \<open>kvsynk8s_sync_total\<close> counter and the log lines written.
  A call is made by \<open>perform\<close>, which appends it to the trace, so a property of the trace
  holds for every behaviour of the cluster and of Key Vault.
\<close>

section \<open>Contexts\<close>

datatype goctx =
    RootCtx
  | WithTimeout goctx duration
  | WithCancel goctx
  | WithoutCancel goctx

text \<open>The time a call on the context may take, when the context limits it: a derived context
  inherits its parent's limit unless the parent's cancellation was dropped.\<close>

fun ctx_budget :: "goctx \<Rightarrow> duration option" where
  "ctx_budget RootCtx = None"
| "ctx_budget (WithTimeout c d) =
     (case ctx_budget c of None \<Rightarrow> Some d | Some b \<Rightarrow> Some (min b d))"
| "ctx_budget (WithCancel c) = ctx_budget c"
| "ctx_budget (WithoutCancel c) = None"

section \<open>Calls, events, log lines\<close>

text \<open>\<open>ManagerClient\<close> is the manager's cached client, \<open>APIReader\<close> its uncached reader.\<close>

datatype client = ManagerClient | APIReader

text \<open>A call with its arguments and, last, the answer it got.\<close>

datatype call =
    CGetSecretSync goctx NamespacedName "goerr + SecretSync"
  | CListSecretSyncs goctx string "goerr + SecretSync list"
  | CGetSecret client goctx NamespacedName "goerr + Secret"
  | CListSecrets goctx string string string "goerr + Secret list"
  | CCreateSecret goctx Secret "goerr option"
  | CUpdateSecret goctx Secret "goerr option"
  | CDeleteSecret goctx Secret "goerr option"
  | CUpdateSecretSync goctx SecretSync "goerr + SecretSync"
  | CUpdateStatus goctx SecretSync "goerr + SecretSync"
  | CGetLatest goctx string string "goerr + (string \<times> string)"

fun callCtx :: "call \<Rightarrow> goctx" where
  "callCtx (CGetSecretSync ctx _ _) = ctx"
| "callCtx (CListSecretSyncs ctx _ _) = ctx"
| "callCtx (CGetSecret _ ctx _ _) = ctx"
| "callCtx (CListSecrets ctx _ _ _ _) = ctx"
| "callCtx (CCreateSecret ctx _ _) = ctx"
| "callCtx (CUpdateSecret ctx _ _) = ctx"
| "callCtx (CDeleteSecret ctx _ _) = ctx"
| "callCtx (CUpdateSecretSync ctx _ _) = ctx"
| "callCtx (CUpdateStatus ctx _ _) = ctx"
| "callCtx (CGetLatest ctx _ _ _) = ctx"

record KEvent =
  ev_Object :: NamespacedName
  ev_Type :: string
  ev_Reason :: string
  ev_Note :: string

datatype loglevel = LInfo | LV1 | LError "goerr option"

datatype logval = LStr string | LInt int

record logline =
  log_Level :: loglevel
  log_Msg :: string
  log_KV :: "(string \<times> logval) list"

record 'w sys =
  world :: 'w
  calls :: "call list"
  emitted :: "KEvent list"
  syncTotal :: "string \<times> string \<Rightarrow> nat"
  logs :: "logline list"

section \<open>The environment\<close>

record 'w env =
  env_unicode :: unicode
  \<comment> \<open>apimachinery: \<open>apierrors.Is*\<close>, \<open>metav1.GetControllerOf\<close>, \<open>meta.SetStatusCondition\<close>\<close>
  env_IsNotFound :: "goerr \<Rightarrow> bool"
  env_IsAlreadyExists :: "goerr \<Rightarrow> bool"
  env_IsConflict :: "goerr \<Rightarrow> bool"
  env_IsInvalid :: "goerr \<Rightarrow> bool"
  env_GetControllerOf :: "Secret \<Rightarrow> OwnerReference option"
  env_SetStatusCondition :: "time \<Rightarrow> Condition list \<Rightarrow> Condition \<Rightarrow> Condition list"
  \<comment> \<open>controller-runtime's \<open>controllerutil\<close>\<close>
  env_SetControllerReference :: "SecretSync \<Rightarrow> Secret \<Rightarrow> goerr + Secret"
  env_ContainsFinalizer :: "SecretSync \<Rightarrow> string \<Rightarrow> bool"
  env_AddFinalizer :: "SecretSync \<Rightarrow> string \<Rightarrow> SecretSync"
  env_RemoveFinalizer :: "SecretSync \<Rightarrow> string \<Rightarrow> SecretSync"
  \<comment> \<open>the Kubernetes client\<close>
  env_GetSecretSync :: "goctx \<Rightarrow> NamespacedName \<Rightarrow> 'w \<Rightarrow> (goerr + SecretSync) \<times> 'w"
  env_ListSecretSyncs :: "goctx \<Rightarrow> string \<Rightarrow> 'w \<Rightarrow> (goerr + SecretSync list) \<times> 'w"
  env_GetSecret :: "client \<Rightarrow> goctx \<Rightarrow> NamespacedName \<Rightarrow> 'w \<Rightarrow> (goerr + Secret) \<times> 'w"
  env_ListSecrets ::
    "goctx \<Rightarrow> string \<Rightarrow> string \<Rightarrow> string \<Rightarrow> 'w \<Rightarrow> (goerr + Secret list) \<times> 'w"
  env_CreateSecret :: "goctx \<Rightarrow> Secret \<Rightarrow> 'w \<Rightarrow> goerr option \<times> 'w"
  env_UpdateSecret :: "goctx \<Rightarrow> Secret \<Rightarrow> 'w \<Rightarrow> goerr option \<times> 'w"
  env_DeleteSecret :: "goctx \<Rightarrow> Secret \<Rightarrow> 'w \<Rightarrow> goerr option \<times> 'w"
  env_UpdateSecretSync :: "goctx \<Rightarrow> SecretSync \<Rightarrow> 'w \<Rightarrow> (goerr + SecretSync) \<times> 'w"
  env_UpdateStatus :: "goctx \<Rightarrow> SecretSync \<Rightarrow> 'w \<Rightarrow> (goerr + SecretSync) \<times> 'w"
  env_Now :: "'w \<Rightarrow> time \<times> 'w"

text \<open>A Prometheus descriptor: name, help and variable labels of a metric.\<close>

record metricDesc =
  md_Name :: string
  md_Help :: string
  md_Labels :: "string list"

section \<open>Effects\<close>

definition perform :: "('r \<Rightarrow> call) \<Rightarrow> ('w \<Rightarrow> 'r \<times> 'w) \<Rightarrow> ('w sys, 'r) state" where
  "perform c f =
     State (\<lambda>s. case f (world s) of (r, w') \<Rightarrow> (r, s\<lparr>world := w', calls := calls s @ [c r]\<rparr>))"

definition now :: "'w env \<Rightarrow> ('w sys, time) state" where
  "now E = State (\<lambda>s. case env_Now E (world s) of (t, w') \<Rightarrow> (t, s\<lparr>world := w'\<rparr>))"

definition logAt :: "loglevel \<Rightarrow> string \<Rightarrow> (string \<times> logval) list \<Rightarrow> ('w sys, unit) state" where
  "logAt lvl msg kv =
     modify (\<lambda>s. s\<lparr>logs := logs s @ [\<lparr>log_Level = lvl, log_Msg = msg, log_KV = kv\<rparr>]\<rparr>)"

definition emitEvent :: "KEvent \<Rightarrow> ('w sys, unit) state" where
  "emitEvent e = modify (\<lambda>s. s\<lparr>emitted := emitted s @ [e]\<rparr>)"

definition incSyncTotal :: "string \<Rightarrow> string \<Rightarrow> ('w sys, unit) state" where
  "incSyncTotal res reason =
     modify (\<lambda>s. s\<lparr>syncTotal := (syncTotal s)((res, reason) := Suc (syncTotal s (res, reason)))\<rparr>)"

text \<open>
  \<open>emits P m\<close>: whatever the environment answers, every call \<open>m\<close> makes satisfies \<open>P\<close>. The
  rules follow the structure of a handler, so a safety property of its calls reduces to the
  guards that stand before each call.
\<close>

definition emits :: "(call \<Rightarrow> bool) \<Rightarrow> ('w sys, 'a) state \<Rightarrow> bool" where
  "emits P m \<longleftrightarrow>
     (\<forall>s. \<exists>new. calls (snd (run_state m s)) = calls s @ new \<and> list_all P new)"

text \<open>
  \<open>proto P prev m R\<close>: started right after the call \<open>prev\<close> (\<open>None\<close>: at the start), \<open>m\<close> appends
  calls each of which may follow its predecessor by \<open>P\<close>, and its result and the last call made
  satisfy \<open>R\<close>. The protocol of a component is a \<open>P\<close>; the rules below carry the last call, with
  its answer, from each step to the next.
\<close>

fun obeys :: "(call option \<Rightarrow> call \<Rightarrow> bool) \<Rightarrow> call option \<Rightarrow> call list \<Rightarrow> bool" where
  "obeys P prev [] = True"
| "obeys P prev (c # cs) = (P prev c \<and> obeys P (Some c) cs)"

definition lastOf :: "call option \<Rightarrow> call list \<Rightarrow> call option" where
  "lastOf prev cs = (if cs = [] then prev else Some (last cs))"

definition proto ::
    "(call option \<Rightarrow> call \<Rightarrow> bool) \<Rightarrow> call option \<Rightarrow> ('w sys, 'a) state
     \<Rightarrow> ('a \<Rightarrow> call option \<Rightarrow> bool) \<Rightarrow> bool" where
  "proto P prev m R \<longleftrightarrow>
     (\<forall>s. case run_state m s of (a, s') \<Rightarrow>
        \<exists>new. calls s' = calls s @ new \<and> obeys P prev new \<and> R a (lastOf prev new))"

text \<open>
  \<open>sim step st m R\<close>: the transition system \<open>step\<close>, started in \<open>st\<close>, can follow every run of \<open>m\<close>
  call by call, and its end state and the result of \<open>m\<close> satisfy \<open>R\<close>. It states that a handler
  refines an abstract protocol whose state remembers more than the last call.
\<close>

fun path :: "('p \<Rightarrow> call \<Rightarrow> 'p \<Rightarrow> bool) \<Rightarrow> 'p \<Rightarrow> call list \<Rightarrow> 'p \<Rightarrow> bool" where
  "path step st [] st' = (st' = st)"
| "path step st (c # cs) st' = (\<exists>st1. step st c st1 \<and> path step st1 cs st')"

definition sim ::
    "('p \<Rightarrow> call \<Rightarrow> 'p \<Rightarrow> bool) \<Rightarrow> 'p \<Rightarrow> ('w sys, 'a) state \<Rightarrow> ('a \<Rightarrow> 'p \<Rightarrow> bool) \<Rightarrow> bool" where
  "sim step st m R \<longleftrightarrow>
     (\<forall>s. case run_state m s of (a, s') \<Rightarrow>
        \<exists>new st'. calls s' = calls s @ new \<and> path step st new st' \<and> R a st')"

text \<open>\<open>costs w n m\<close>: the calls \<open>m\<close> makes, each weighed by \<open>w\<close>, weigh at most \<open>n\<close> together.\<close>

definition costs :: "(call \<Rightarrow> nat) \<Rightarrow> nat \<Rightarrow> ('w sys, 'a) state \<Rightarrow> bool" where
  "costs weight n m \<longleftrightarrow>
     (\<forall>s. \<exists>new. calls (snd (run_state m s)) = calls s @ new \<and> sum_list (map weight new) \<le> n)"

section \<open>Reasoning about effects\<close>

lemma wp_perform [wp_simps]:
  "wp (perform c f) Q s =
     (case f (world s) of (r, w') \<Rightarrow> Q r (s\<lparr>world := w', calls := calls s @ [c r]\<rparr>))"
  by (simp add: wp_def perform_def split: prod.split)

lemma wp_now [wp_simps]:
  "wp (now E) Q s = (case env_Now E (world s) of (t, w') \<Rightarrow> Q t (s\<lparr>world := w'\<rparr>))"
  by (simp add: wp_def now_def split: prod.split)

lemma wp_logAt [wp_simps]:
  "wp (logAt lvl msg kv) Q s =
     Q () (s\<lparr>logs := logs s @ [\<lparr>log_Level = lvl, log_Msg = msg, log_KV = kv\<rparr>]\<rparr>)"
  by (simp add: logAt_def wp_modify)

lemma wp_emitEvent [wp_simps]:
  "wp (emitEvent e) Q s = Q () (s\<lparr>emitted := emitted s @ [e]\<rparr>)"
  by (simp add: emitEvent_def wp_modify)

lemma wp_incSyncTotal [wp_simps]:
  "wp (incSyncTotal res reason) Q s =
     Q () (s\<lparr>syncTotal := (syncTotal s)((res, reason) := Suc (syncTotal s (res, reason)))\<rparr>)"
  by (simp add: incSyncTotal_def wp_modify)

named_theorems emits_intros \<open>introduction rules for \<open>emits\<close>\<close>

lemma emits_return [emits_intros]: "emits P (State_Monad.return a)"
  by (simp add: emits_def)

lemma emits_bind [emits_intros]:
  assumes "emits P m" and "\<And>a. emits P (f a)"
  shows "emits P (State_Monad.bind m f)"
  unfolding emits_def
proof
  fix s
  obtain a s1 where m: "run_state m s = (a, s1)" by fastforce
  obtain b s2 where f: "run_state (f a) s1 = (b, s2)" by fastforce
  obtain new1 where "calls s1 = calls s @ new1" "list_all P new1"
    using assms(1) m unfolding emits_def by (metis snd_conv)
  moreover obtain new2 where "calls s2 = calls s1 @ new2" "list_all P new2"
    using assms(2) f unfolding emits_def by (metis snd_conv)
  ultimately show "\<exists>new. calls (snd (run_state (State_Monad.bind m f) s)) = calls s @ new
      \<and> list_all P new"
    using m f by (intro exI [of _ "new1 @ new2"]) simp
qed

lemma emits_perform [emits_intros]:
  "(\<And>r w w'. f w = (r, w') \<Longrightarrow> P (c r)) \<Longrightarrow> emits P (perform c f)"
  by (auto simp: emits_def perform_def split: prod.split)

lemma emits_now [emits_intros]: "emits P (now E)"
  by (simp add: emits_def now_def split: prod.split)

lemma emits_quiet [emits_intros]:
  "emits P (logAt lvl msg kv)" "emits P (emitEvent e)" "emits P (incSyncTotal res reason)"
  by (simp_all add: emits_def logAt_def emitEvent_def incSyncTotal_def)

lemma emits_if [emits_intros]:
  "(b \<Longrightarrow> emits P m) \<Longrightarrow> (\<not> b \<Longrightarrow> emits P m') \<Longrightarrow> emits P (if b then m else m')"
  by simp

lemma emits_option [emits_intros]:
  "(x = None \<Longrightarrow> emits P m) \<Longrightarrow> (\<And>y. x = Some y \<Longrightarrow> emits P (f y)) \<Longrightarrow>
   emits P (case x of None \<Rightarrow> m | Some y \<Rightarrow> f y)"
  by (cases x) auto

lemma emits_sum [emits_intros]:
  "(\<And>y. x = Inl y \<Longrightarrow> emits P (f y)) \<Longrightarrow> (\<And>y. x = Inr y \<Longrightarrow> emits P (g y)) \<Longrightarrow>
   emits P (case x of Inl y \<Rightarrow> f y | Inr y \<Rightarrow> g y)"
  by (cases x) auto

lemma emits_prod [emits_intros]:
  "(\<And>a b. x = (a, b) \<Longrightarrow> emits P (f a b)) \<Longrightarrow> emits P (case x of (a, b) \<Rightarrow> f a b)"
  by (cases x) auto

lemma emits_mono: "emits P m \<Longrightarrow> (\<And>c. P c \<Longrightarrow> Q c) \<Longrightarrow> emits Q m"
  unfolding emits_def by (metis list.pred_mono_strong)

lemma emits_calls:
  assumes "emits P m" and "run_state m s = (a, s')" and "c \<in> set (calls s')"
  shows "c \<in> set (calls s) \<or> P c"
proof -
  obtain new where "calls s' = calls s @ new" "list_all P new"
    using assms(1,2) unfolding emits_def by (metis snd_conv)
  with assms(3) show ?thesis by (auto simp: list_all_iff)
qed

section \<open>Protocols\<close>

named_theorems proto_intros \<open>introduction rules for \<open>proto\<close>\<close>

lemma obeys_append: "obeys P prev (xs @ ys) \<longleftrightarrow> obeys P prev xs \<and> obeys P (lastOf prev xs) ys"
  by (induction xs arbitrary: prev) (auto simp: lastOf_def)

lemma lastOf_append [simp]: "lastOf prev (xs @ ys) = lastOf (lastOf prev xs) ys"
  by (simp add: lastOf_def)

lemma lastOf_simps [simp]: "lastOf prev [] = prev" "lastOf prev [c] = Some c"
  by (simp_all add: lastOf_def)

lemma proto_run:
  assumes "proto P prev m R" and "run_state m s = (a, s')"
  obtains new where "calls s' = calls s @ new" "obeys P prev new" "R a (lastOf prev new)"
  using assms unfolding proto_def by (fastforce dest!: spec [of _ s])

lemma proto_return [proto_intros]: "R a prev \<Longrightarrow> proto P prev (State_Monad.return a) R"
  by (auto simp: proto_def intro: exI [of _ "[]"])

lemma proto_bind [proto_intros]:
  assumes m: "proto P prev m (\<lambda>a lc. proto P lc (f a) R)"
  shows "proto P prev (State_Monad.bind m f) R"
  unfolding proto_def
proof
  fix s
  obtain a s1 where run1: "run_state m s = (a, s1)" by fastforce
  from m run1 obtain new1 where 1: "calls s1 = calls s @ new1" "obeys P prev new1"
      and f: "proto P (lastOf prev new1) (f a) R"
    by (rule proto_run)
  obtain b s2 where run2: "run_state (f a) s1 = (b, s2)" by fastforce
  from f run2 obtain new2 where 2: "calls s2 = calls s1 @ new2"
      "obeys P (lastOf prev new1) new2" "R b (lastOf (lastOf prev new1) new2)"
    by (rule proto_run)
  show "case run_state (State_Monad.bind m f) s of (a, s') \<Rightarrow>
      \<exists>new. calls s' = calls s @ new \<and> obeys P prev new \<and> R a (lastOf prev new)"
    using run1 run2 1 2 by (auto simp: obeys_append intro!: exI [of _ "new1 @ new2"])
qed

lemma proto_perform [proto_intros]:
  "(\<And>r w w'. f w = (r, w') \<Longrightarrow> P prev (c r)) \<Longrightarrow>
   (\<And>r w w'. f w = (r, w') \<Longrightarrow> R r (Some (c r))) \<Longrightarrow> proto P prev (perform c f) R"
  by (auto simp: proto_def perform_def split: prod.split)

lemma proto_quiet [proto_intros]:
  "R () prev \<Longrightarrow> proto P prev (logAt lvl msg kv) R"
  "R () prev \<Longrightarrow> proto P prev (emitEvent e) R"
  "R () prev \<Longrightarrow> proto P prev (incSyncTotal res reason) R"
  by (auto simp: proto_def logAt_def emitEvent_def incSyncTotal_def intro: exI [of _ "[]"])

lemma proto_now [proto_intros]: "(\<And>t. R t prev) \<Longrightarrow> proto P prev (now E) R"
  by (auto simp: proto_def now_def split: prod.split intro: exI [of _ "[]"])

lemma proto_if [proto_intros]:
  "(b \<Longrightarrow> proto P prev m R) \<Longrightarrow> (\<not> b \<Longrightarrow> proto P prev m' R) \<Longrightarrow>
   proto P prev (if b then m else m') R"
  by simp

lemma proto_option [proto_intros]:
  "(x = None \<Longrightarrow> proto P prev m R) \<Longrightarrow> (\<And>y. x = Some y \<Longrightarrow> proto P prev (f y) R) \<Longrightarrow>
   proto P prev (case x of None \<Rightarrow> m | Some y \<Rightarrow> f y) R"
  by (cases x) auto

lemma proto_sum [proto_intros]:
  "(\<And>y. x = Inl y \<Longrightarrow> proto P prev (f y) R) \<Longrightarrow> (\<And>y. x = Inr y \<Longrightarrow> proto P prev (g y) R) \<Longrightarrow>
   proto P prev (case x of Inl y \<Rightarrow> f y | Inr y \<Rightarrow> g y) R"
  by (cases x) auto

lemma proto_prod [proto_intros]:
  "(\<And>a b. x = (a, b) \<Longrightarrow> proto P prev (f a b) R) \<Longrightarrow> proto P prev (case x of (a, b) \<Rightarrow> f a b) R"
  by (cases x) auto

lemma proto_mono:
  "proto P prev m R \<Longrightarrow> (\<And>a lc. R a lc \<Longrightarrow> R' a lc) \<Longrightarrow> proto P prev m R'"
  unfolding proto_def by (fastforce split: prod.splits)

lemma obeys_split: "obeys P prev (pre @ c # post) \<Longrightarrow> P (lastOf prev pre) c"
  by (simp add: obeys_append)

section \<open>Simulations\<close>

named_theorems sim_intros \<open>introduction rules for \<open>sim\<close>\<close>

lemma path_append: "path step st (xs @ ys) st' \<longleftrightarrow> (\<exists>st1. path step st xs st1 \<and> path step st1 ys st')"
  by (induction xs arbitrary: st) auto

lemma sim_run:
  assumes "sim step st m R" and "run_state m s = (a, s')"
  obtains new st' where "calls s' = calls s @ new" "path step st new st'" "R a st'"
  using assms unfolding sim_def by (fastforce dest!: spec [of _ s])

lemma sim_return [sim_intros]: "R a st \<Longrightarrow> sim step st (State_Monad.return a) R"
  by (auto simp: sim_def intro: exI [of _ "[]"])

lemma sim_bind [sim_intros]:
  assumes m: "sim step st m (\<lambda>a st'. sim step st' (f a) R)"
  shows "sim step st (State_Monad.bind m f) R"
  unfolding sim_def
proof
  fix s
  obtain a s1 where run1: "run_state m s = (a, s1)" by fastforce
  from m run1 obtain new1 st1 where 1: "calls s1 = calls s @ new1" "path step st new1 st1"
      and f: "sim step st1 (f a) R"
    by (rule sim_run)
  obtain b s2 where run2: "run_state (f a) s1 = (b, s2)" by fastforce
  from f run2 obtain new2 st2 where 2: "calls s2 = calls s1 @ new2" "path step st1 new2 st2" "R b st2"
    by (rule sim_run)
  have "path step st (new1 @ new2) st2" using 1(2) 2(2) by (auto simp: path_append)
  with 1 2 run1 run2 show "case run_state (State_Monad.bind m f) s of (a, s') \<Rightarrow>
      \<exists>new st'. calls s' = calls s @ new \<and> path step st new st' \<and> R a st'"
    by (auto intro!: exI [of _ "new1 @ new2"] exI [of _ st2])
qed

lemma sim_perform [sim_intros]:
  "(\<And>a w w'. f w = (a, w') \<Longrightarrow> \<exists>st'. step st (c a) st' \<and> R a st') \<Longrightarrow> sim step st (perform c f) R"
  by (fastforce simp: sim_def perform_def split: prod.split intro: exI [of _ "[c _]"])

lemma sim_quiet [sim_intros]:
  "R () st \<Longrightarrow> sim step st (logAt lvl msg kv) R"
  "R () st \<Longrightarrow> sim step st (emitEvent e) R"
  "R () st \<Longrightarrow> sim step st (incSyncTotal res reason) R"
  by (auto simp: sim_def logAt_def emitEvent_def incSyncTotal_def intro: exI [of _ "[]"])

lemma sim_now [sim_intros]: "(\<And>t. R t st) \<Longrightarrow> sim step st (now E) R"
  by (auto simp: sim_def now_def split: prod.split intro: exI [of _ "[]"])

lemma sim_if [sim_intros]:
  "(b \<Longrightarrow> sim step st m R) \<Longrightarrow> (\<not> b \<Longrightarrow> sim step st m' R) \<Longrightarrow>
   sim step st (if b then m else m') R"
  by simp

lemma sim_option [sim_intros]:
  "(x = None \<Longrightarrow> sim step st m R) \<Longrightarrow> (\<And>y. x = Some y \<Longrightarrow> sim step st (f y) R) \<Longrightarrow>
   sim step st (case x of None \<Rightarrow> m | Some y \<Rightarrow> f y) R"
  by (cases x) auto

lemma sim_sum [sim_intros]:
  "(\<And>y. x = Inl y \<Longrightarrow> sim step st (f y) R) \<Longrightarrow> (\<And>y. x = Inr y \<Longrightarrow> sim step st (g y) R) \<Longrightarrow>
   sim step st (case x of Inl y \<Rightarrow> f y | Inr y \<Rightarrow> g y) R"
  by (cases x) auto

lemma sim_prod [sim_intros]:
  "(\<And>a b. x = (a, b) \<Longrightarrow> sim step st (f a b) R) \<Longrightarrow> sim step st (case x of (a, b) \<Rightarrow> f a b) R"
  by (cases x) auto

lemma sim_mono:
  "sim step st m R \<Longrightarrow> (\<And>a st'. R a st' \<Longrightarrow> R' a st') \<Longrightarrow> sim step st m R'"
  unfolding sim_def by (fastforce split: prod.splits)

text \<open>A protocol over the last call is a transition system whose state is the last call.\<close>

lemma path_of_obeys:
  assumes "\<And>lc c. P lc c \<Longrightarrow> Q c \<Longrightarrow> step (f lc) c (f (Some c))"
    and "obeys P prev cs" and "list_all Q cs"
  shows "path step (f prev) cs (f (lastOf prev cs))"
  using assms(2,3)
proof (induction cs arbitrary: prev)
  case (Cons c cs)
  then have "step (f prev) c (f (Some c))" using assms(1) by simp
  moreover have "path step (f (Some c)) cs (f (lastOf (Some c) cs))" using Cons by simp
  ultimately show ?case by (auto simp: lastOf_def)
qed simp

lemma sim_of_proto:
  assumes "proto P prev m R" and "emits Q m"
    and "\<And>lc c. P lc c \<Longrightarrow> Q c \<Longrightarrow> step (f lc) c (f (Some c))"
  shows "sim step (f prev) m (\<lambda>a st'. \<exists>lc. st' = f lc \<and> R a lc)"
  unfolding sim_def
proof
  fix s
  obtain a s' where run: "run_state m s = (a, s')" by fastforce
  from assms(1) run obtain new where new: "calls s' = calls s @ new" "obeys P prev new"
      "R a (lastOf prev new)"
    by (rule proto_run)
  from assms(2) run new(1) have "list_all Q new" unfolding emits_def by (metis same_append_eq snd_conv)
  from path_of_obeys [of P Q step f, OF assms(3) new(2) this] new run
  show "case run_state m s of (a, s') \<Rightarrow> \<exists>new st'. calls s' = calls s @ new
      \<and> path step (f prev) new st' \<and> (\<exists>lc. st' = f lc \<and> R a lc)"
    by auto
qed

section \<open>Costs\<close>

named_theorems costs_intros \<open>introduction rules for \<open>costs\<close>\<close>

lemma costs_return [costs_intros]: "costs weight n (State_Monad.return a)"
  by (simp add: costs_def)

lemma costs_bind:
  assumes "costs weight k m" and "\<And>a. costs weight n (f a)"
  shows "costs weight (k + n) (State_Monad.bind m f)"
  unfolding costs_def
proof
  fix s
  obtain a s1 where m: "run_state m s = (a, s1)" by fastforce
  obtain b s2 where f: "run_state (f a) s1 = (b, s2)" by fastforce
  obtain new1 where "calls s1 = calls s @ new1" "sum_list (map weight new1) \<le> k"
    using assms(1) m unfolding costs_def by (metis snd_conv)
  moreover obtain new2 where "calls s2 = calls s1 @ new2" "sum_list (map weight new2) \<le> n"
    using assms(2) f unfolding costs_def by (metis snd_conv)
  ultimately show "\<exists>new. calls (snd (run_state (State_Monad.bind m f) s)) = calls s @ new
      \<and> sum_list (map weight new) \<le> k + n"
    using m f by (intro exI [of _ "new1 @ new2"]) simp
qed

lemma costs_perform: "(\<And>r. weight (c r) \<le> n) \<Longrightarrow> costs weight n (perform c f)"
  by (auto simp: costs_def perform_def split: prod.split)

lemma costs_quiet [costs_intros]: "costs weight n (logAt lvl msg kv)"
  by (simp add: costs_def logAt_def)

lemma costs_bind_left:
  "costs weight n m \<Longrightarrow> (\<And>a. costs weight 0 (f a)) \<Longrightarrow> costs weight n (State_Monad.bind m f)"
  using costs_bind [of weight n m 0 f] by simp

lemma costs_bind_log:
  "(\<And>a. costs weight n (f a)) \<Longrightarrow> costs weight n (State_Monad.bind (logAt lvl msg kv) f)"
  using costs_bind [OF costs_quiet [of weight 0], of n f] by simp

lemma costs_mono: "costs weight k m \<Longrightarrow> k \<le> n \<Longrightarrow> costs weight n m"
  unfolding costs_def by (meson le_trans)

lemma costs_if [costs_intros]:
  "(b \<Longrightarrow> costs weight n m) \<Longrightarrow> (\<not> b \<Longrightarrow> costs weight n m') \<Longrightarrow>
   costs weight n (if b then m else m')"
  by simp

lemma costs_option [costs_intros]:
  "(x = None \<Longrightarrow> costs weight n m) \<Longrightarrow> (\<And>y. x = Some y \<Longrightarrow> costs weight n (f y)) \<Longrightarrow>
   costs weight n (case x of None \<Rightarrow> m | Some y \<Rightarrow> f y)"
  by (cases x) auto

lemma costs_sum [costs_intros]:
  "(\<And>y. x = Inl y \<Longrightarrow> costs weight n (f y)) \<Longrightarrow> (\<And>y. x = Inr y \<Longrightarrow> costs weight n (g y)) \<Longrightarrow>
   costs weight n (case x of Inl y \<Rightarrow> f y | Inr y \<Rightarrow> g y)"
  by (cases x) auto

end
