(* ===== verification/Reference_Cluster.thy ===== *)
theory Reference_Cluster
  imports Operator_State
begin

text \<open>
  A small in-memory cluster and vault: one concrete instance of the environment. The theorems of
  the development quantify over every environment; this instance shows that the hypotheses some
  of them place on it can hold together, and is what their witnesses run on.
\<close>

record cluster =
  cl_Secrets :: "Secret list"
  cl_Syncs :: "SecretSync list"
  cl_Clock :: int
  cl_Version :: nat

definition apiError :: "string \<Rightarrow> goerr" where
  "apiError reason = Err (KExternal False reason) []"

definition hasReason :: "string \<Rightarrow> goerr \<Rightarrow> bool" where
  "hasReason reason e = (errors_As (\<lambda>k. k = KExternal False reason) e \<noteq> None)"

definition secretAt :: "NamespacedName \<Rightarrow> Secret \<Rightarrow> bool" where
  "secretAt key s \<longleftrightarrow>
     om_Namespace (sec_Meta s) = nn_Namespace key \<and> om_Name (sec_Meta s) = nn_Name key"

definition syncAt :: "NamespacedName \<Rightarrow> SecretSync \<Rightarrow> bool" where
  "syncAt key s \<longleftrightarrow> ss_Namespace s = nn_Namespace key \<and> ss_Name s = nn_Name key"

definition secretKey :: "Secret \<Rightarrow> NamespacedName" where
  "secretKey s = \<lparr>nn_Namespace = om_Namespace (sec_Meta s), nn_Name = om_Name (sec_Meta s)\<rparr>"

definition syncKey :: "SecretSync \<Rightarrow> NamespacedName" where
  "syncKey s = \<lparr>nn_Namespace = ss_Namespace s, nn_Name = ss_Name s\<rparr>"

definition hasLabel :: "string \<Rightarrow> string \<Rightarrow> Secret \<Rightarrow> bool" where
  "hasLabel k v s \<longleftrightarrow> mapget (om_Labels (sec_Meta s)) k = v"

text \<open>The manager's client reads through a cache that holds the labelled Secrets only.\<close>

definition refGetSecret ::
    "client \<Rightarrow> goctx \<Rightarrow> NamespacedName \<Rightarrow> cluster \<Rightarrow> (goerr + Secret) \<times> cluster" where
  "refGetSecret c ctx key w =
     (case find (secretAt key) (cl_Secrets w) of
        None \<Rightarrow> (Inl (apiError ''NotFound''), w)
      | Some s \<Rightarrow>
          if c = ManagerClient \<and> \<not> hasLabel ''app.kubernetes.io/managed-by'' ''kvsynk8s'' s
          then (Inl (apiError ''NotFound''), w) else (Inr s, w))"

definition refListSecrets ::
    "goctx \<Rightarrow> string \<Rightarrow> string \<Rightarrow> string \<Rightarrow> cluster \<Rightarrow> (goerr + Secret list) \<times> cluster" where
  "refListSecrets ctx ns k v w =
     (Inr (filter (\<lambda>s. om_Namespace (sec_Meta s) = ns \<and> hasLabel k v s) (cl_Secrets w)), w)"

definition bumped :: "Secret \<Rightarrow> cluster \<Rightarrow> Secret" where
  "bumped s w =
     s\<lparr>sec_Meta := (sec_Meta s)\<lparr>om_ResourceVersion := replicate (cl_Version w) CHR ''i''\<rparr>\<rparr>"

text \<open>The validation of a Secret: it has a name and a namespace, its keys are not empty and a value has at
  most 1 MiB. An update may change neither the type nor, of an immutable Secret, the data.\<close>

definition refAdmits :: "Secret \<Rightarrow> bool" where
  "refAdmits s \<longleftrightarrow> om_Name (sec_Meta s) \<noteq> [] \<and> om_Namespace (sec_Meta s) \<noteq> []
     \<and> fmpred (\<lambda>k v. k \<noteq> [] \<and> length v \<le> 1048576) (sec_Data s)"

definition refCreateSecret :: "goctx \<Rightarrow> Secret \<Rightarrow> cluster \<Rightarrow> goerr option \<times> cluster" where
  "refCreateSecret ctx s w =
     (case find (secretAt (secretKey s)) (cl_Secrets w) of
        Some _ \<Rightarrow> (Some (apiError ''AlreadyExists''), w)
      | None \<Rightarrow>
          if \<not> refAdmits s then (Some (apiError ''Invalid''), w)
          else (None, w\<lparr>cl_Secrets := cl_Secrets w @ [bumped s w],
                        cl_Version := Suc (cl_Version w)\<rparr>))"

definition refUpdateSecret :: "goctx \<Rightarrow> Secret \<Rightarrow> cluster \<Rightarrow> goerr option \<times> cluster" where
  "refUpdateSecret ctx s w =
     (case find (secretAt (secretKey s)) (cl_Secrets w) of
        None \<Rightarrow> (Some (apiError ''NotFound''), w)
      | Some old \<Rightarrow>
          if om_ResourceVersion (sec_Meta s) \<noteq> om_ResourceVersion (sec_Meta old)
          then (Some (apiError ''Conflict''), w)
          else if \<not> refAdmits s \<or> sec_Type s \<noteq> sec_Type old
              \<or> sec_Immutable old = Some True \<and> sec_Data s \<noteq> sec_Data old
          then (Some (apiError ''Invalid''), w)
          else (None, w\<lparr>cl_Secrets := map (\<lambda>x. if secretAt (secretKey s) x then bumped s w else x)
                                         (cl_Secrets w),
                        cl_Version := Suc (cl_Version w)\<rparr>))"

text \<open>A Secret with finalizers is only marked as being deleted.\<close>

definition refDeleteSecret :: "goctx \<Rightarrow> Secret \<Rightarrow> cluster \<Rightarrow> goerr option \<times> cluster" where
  "refDeleteSecret ctx s w =
     (case find (secretAt (secretKey s)) (cl_Secrets w) of
        None \<Rightarrow> (Some (apiError ''NotFound''), w)
      | Some old \<Rightarrow>
          if om_Finalizers (sec_Meta old) = []
          then (None, w\<lparr>cl_Secrets := filter (\<lambda>x. \<not> secretAt (secretKey s) x) (cl_Secrets w)\<rparr>)
          else (None, w\<lparr>cl_Secrets := map (\<lambda>x. if secretAt (secretKey s) x
                            then bumped (old\<lparr>sec_Meta := (sec_Meta old)\<lparr>om_DeletionTimestamp := cl_Clock w\<rparr>\<rparr>) w else x)
                            (cl_Secrets w),
                        cl_Version := Suc (cl_Version w)\<rparr>))"

definition refGetSecretSync ::
    "goctx \<Rightarrow> NamespacedName \<Rightarrow> cluster \<Rightarrow> (goerr + SecretSync) \<times> cluster" where
  "refGetSecretSync ctx key w =
     (case find (syncAt key) (cl_Syncs w) of
        None \<Rightarrow> (Inl (apiError ''NotFound''), w)
      | Some s \<Rightarrow> (Inr s, w))"

text \<open>An empty namespace lists all of them.\<close>

definition refListSecretSyncs ::
    "goctx \<Rightarrow> string \<Rightarrow> cluster \<Rightarrow> (goerr + SecretSync list) \<times> cluster" where
  "refListSecretSyncs ctx ns w = (Inr (filter (\<lambda>s. ns = [] \<or> ss_Namespace s = ns) (cl_Syncs w)), w)"

text \<open>An update of the object keeps the stored status, an update of the status subresource
  keeps everything else. A copy with another spec or UID is stale and refused.\<close>

definition refPut ::
    "(SecretSync \<Rightarrow> SecretSync) \<Rightarrow> SecretSync \<Rightarrow> cluster \<Rightarrow> (goerr + SecretSync) \<times> cluster" where
  "refPut f s w =
     (case find (syncAt (syncKey s)) (cl_Syncs w) of
        None \<Rightarrow> (Inl (apiError ''NotFound''), w)
      | Some old \<Rightarrow>
          if ss_Spec s \<noteq> ss_Spec old \<or> ss_UID s \<noteq> ss_UID old then (Inl (apiError ''Conflict''), w)
          else (Inr (f old), w\<lparr>cl_Syncs := map (\<lambda>x. if syncAt (syncKey s) x then f old else x)
                                       (cl_Syncs w)\<rparr>))"

definition refUpdateSecretSync ::
    "goctx \<Rightarrow> SecretSync \<Rightarrow> cluster \<Rightarrow> (goerr + SecretSync) \<times> cluster" where
  "refUpdateSecretSync ctx s = refPut (\<lambda>old. s\<lparr>ss_Status := ss_Status old\<rparr>) s"

text \<open>A time is stored in whole seconds.\<close>

definition stored_time :: "time \<Rightarrow> time" where
  "stored_time t = t div Second * Second"

definition stored_status :: "SecretSyncStatus \<Rightarrow> SecretSyncStatus" where
  "stored_status status = status\<lparr>st_LastSyncTime := stored_time (st_LastSyncTime status),
     st_Conditions := map (\<lambda>c. c\<lparr>cond_LastTransitionTime := stored_time (cond_LastTransitionTime c)\<rparr>) (st_Conditions status)\<rparr>"

definition refUpdateStatus ::
    "goctx \<Rightarrow> SecretSync \<Rightarrow> cluster \<Rightarrow> (goerr + SecretSync) \<times> cluster" where
  "refUpdateStatus ctx s = refPut (\<lambda>old. old\<lparr>ss_Status := stored_status (ss_Status s)\<rparr>) s"

definition refNow :: "cluster \<Rightarrow> time \<times> cluster" where
  "refNow w = (cl_Clock w, w\<lparr>cl_Clock := cl_Clock w + 1\<rparr>)"

section \<open>The pure helpers\<close>

definition isController :: "OwnerReference \<Rightarrow> bool" where
  "isController ref \<longleftrightarrow> or_Controller ref = Some True"

definition refGetControllerOf :: "Secret \<Rightarrow> OwnerReference option" where
  "refGetControllerOf s = find isController (om_OwnerReferences (sec_Meta s))"

definition refOwnerReference :: "SecretSync \<Rightarrow> OwnerReference" where
  "refOwnerReference owner =
     \<lparr>or_APIVersion = GroupVersion, or_Kind = ''SecretSync'', or_Name = ss_Name owner,
      or_UID = ss_UID owner, or_Controller = Some True, or_BlockOwnerDeletion = Some True\<rparr>"

definition refSetControllerReference :: "SecretSync \<Rightarrow> Secret \<Rightarrow> goerr + Secret" where
  "refSetControllerReference owner s =
     (if ss_Namespace owner \<noteq> [] \<and> om_Namespace (sec_Meta s) \<noteq> ss_Namespace owner
      then Inl (Err (KExternal False ''cross-namespace owner'') [])
      else case refGetControllerOf s of
        Some ref \<Rightarrow>
          if or_Kind ref \<noteq> ''SecretSync'' \<or> or_Name ref \<noteq> ss_Name owner
          then Inl (Err KAlreadyOwned [])
          else Inr (s\<lparr>sec_Meta := (sec_Meta s)\<lparr>om_OwnerReferences :=
            map (\<lambda>r. if isController r then refOwnerReference owner else r)
              (om_OwnerReferences (sec_Meta s))\<rparr>\<rparr>)
      | None \<Rightarrow> Inr (s\<lparr>sec_Meta := (sec_Meta s)\<lparr>om_OwnerReferences :=
            om_OwnerReferences (sec_Meta s) @ [refOwnerReference owner]\<rparr>\<rparr>))"

definition refSetStatusCondition ::
    "time \<Rightarrow> Condition list \<Rightarrow> Condition \<Rightarrow> Condition list" where
  "refSetStatusCondition t cs c =
     (case find (\<lambda>x. cond_Type x = cond_Type c) cs of
        None \<Rightarrow> cs @ [c\<lparr>cond_LastTransitionTime := t\<rparr>]
      | Some old \<Rightarrow>
          map (\<lambda>x. if cond_Type x = cond_Type c
                   then c\<lparr>cond_LastTransitionTime :=
                     (if cond_Status old = cond_Status c then cond_LastTransitionTime old else t)\<rparr>
                   else x) cs)"

definition refContainsFinalizer :: "SecretSync \<Rightarrow> string \<Rightarrow> bool" where
  "refContainsFinalizer ss f \<longleftrightarrow> f \<in> set (om_Finalizers (ss_Meta ss))"

definition refAddFinalizer :: "SecretSync \<Rightarrow> string \<Rightarrow> SecretSync" where
  "refAddFinalizer ss f =
     (if refContainsFinalizer ss f then ss
      else ss\<lparr>ss_Meta := (ss_Meta ss)\<lparr>om_Finalizers := om_Finalizers (ss_Meta ss) @ [f]\<rparr>\<rparr>)"

definition refRemoveFinalizer :: "SecretSync \<Rightarrow> string \<Rightarrow> SecretSync" where
  "refRemoveFinalizer ss f =
     ss\<lparr>ss_Meta := (ss_Meta ss)\<lparr>om_Finalizers := filter (\<lambda>x. x \<noteq> f) (om_Finalizers (ss_Meta ss))\<rparr>\<rparr>"

definition refEnv :: "cluster env" where
  "refEnv =
     \<lparr>env_unicode = \<lparr>tab_IsPrint = \<lambda>_. True, tab_ToLower = \<lambda>r. r, tab_SimpleFold = \<lambda>r. r\<rparr>,
      env_IsNotFound = hasReason ''NotFound'',
      env_IsAlreadyExists = hasReason ''AlreadyExists'',
      env_IsConflict = hasReason ''Conflict'',
      env_IsInvalid = hasReason ''Invalid'',
      env_GetControllerOf = refGetControllerOf,
      env_SetStatusCondition = refSetStatusCondition,
      env_SetControllerReference = refSetControllerReference,
      env_ContainsFinalizer = refContainsFinalizer,
      env_AddFinalizer = refAddFinalizer,
      env_RemoveFinalizer = refRemoveFinalizer,
      env_GetSecretSync = refGetSecretSync,
      env_ListSecretSyncs = refListSecretSyncs,
      env_GetSecret = refGetSecret,
      env_ListSecrets = refListSecrets,
      env_CreateSecret = refCreateSecret,
      env_UpdateSecret = refUpdateSecret,
      env_DeleteSecret = refDeleteSecret,
      env_UpdateSecretSync = refUpdateSecretSync,
      env_UpdateStatus = refUpdateStatus,
      env_Now = refNow\<rparr>"

section \<open>A concrete declaration and a concrete start\<close>

definition demoSync :: SecretSync where
  "demoSync =
     \<lparr>ss_Meta = zeroObjectMeta\<lparr>om_Name := ''db'', om_Namespace := ''app'', om_UID := ''u1'',
        om_Generation := 1, om_CreationTimestamp := 10\<rparr>,
      ss_Spec = \<lparr>spec_Vault = \<lparr>vault_Name = ''kv-prod'', vault_Secret = ''db-password''\<rparr>,
        spec_Target = \<lparr>target_SecretName = [], target_DataKey = []\<rparr>\<rparr>,
      ss_Status = zeroStatus\<rparr>"

text \<open>A Secret at the target name that carries no label and no owner.\<close>

definition foreignSecret :: Secret where
  "foreignSecret =
     \<lparr>sec_Meta = zeroObjectMeta\<lparr>om_Name := ''db'', om_Namespace := ''app''\<rparr>,
      sec_Type = ''Opaque'', sec_Immutable = None, sec_Data = fmupd ''k'' ''old'' fmempty\<rparr>"

text \<open>A Secret the declaration owns, whose label was stripped.\<close>

definition strippedSecret :: Secret where
  "strippedSecret =
     foreignSecret\<lparr>sec_Meta :=
       (sec_Meta foreignSecret)\<lparr>om_OwnerReferences := [refOwnerReference demoSync]\<rparr>\<rparr>"

text \<open>A labelled Secret that an earlier declaration of the same name controlled.\<close>

definition namesakeSecret :: Secret where
  "namesakeSecret =
     foreignSecret\<lparr>sec_Meta :=
       (sec_Meta foreignSecret)\<lparr>om_Labels := fmupd ''app.kubernetes.io/managed-by'' ''kvsynk8s'' fmempty,
         om_OwnerReferences := [(refOwnerReference demoSync)\<lparr>or_UID := ''u0''\<rparr>]\<rparr>\<rparr>"

definition demoSys :: "Secret list \<Rightarrow> SecretSync list \<Rightarrow> cluster sys" where
  "demoSys secrets syncs =
     \<lparr>world = \<lparr>cl_Secrets = secrets, cl_Syncs = syncs, cl_Clock = 100 * Second, cl_Version = 7\<rparr>,
      calls = [], emitted = [], syncTotal = (\<lambda>_. 0), logs = []\<rparr>"

section \<open>Evaluation\<close>

lemmas ref_defs =
  apiError_def hasReason_def secretAt_def syncAt_def secretKey_def syncKey_def hasLabel_def
  refGetSecret_def refListSecrets_def bumped_def refAdmits_def refCreateSecret_def refUpdateSecret_def
  refDeleteSecret_def refGetSecretSync_def refListSecretSyncs_def refPut_def
  refUpdateSecretSync_def stored_time_def stored_status_def refUpdateStatus_def refNow_def isController_def refGetControllerOf_def
  refOwnerReference_def refSetControllerReference_def refSetStatusCondition_def
  refContainsFinalizer_def refAddFinalizer_def refRemoveFinalizer_def

lemmas demo_defs =
  demoSync_def foreignSecret_def strippedSecret_def demoSys_def zeroObjectMeta_def zeroStatus_def

lemma fmpred_single [simp]: "fmpred P (fmupd k v fmempty) = P k v"
  by (auto simp: fmpred_iff)

lemma refEnv_simps [simp]:
  "env_GetControllerOf refEnv = refGetControllerOf"
  "env_SetControllerReference refEnv = refSetControllerReference"
  "env_SetStatusCondition refEnv = refSetStatusCondition"
  "env_ContainsFinalizer refEnv = refContainsFinalizer"
  "env_AddFinalizer refEnv = refAddFinalizer"
  "env_RemoveFinalizer refEnv = refRemoveFinalizer"
  "env_GetSecret refEnv = refGetSecret" "env_CreateSecret refEnv = refCreateSecret"
  "env_UpdateSecret refEnv = refUpdateSecret" "env_DeleteSecret refEnv = refDeleteSecret"
  "env_ListSecrets refEnv = refListSecrets" "env_ListSecretSyncs refEnv = refListSecretSyncs"
  "env_GetSecretSync refEnv = refGetSecretSync"
  "env_UpdateSecretSync refEnv = refUpdateSecretSync" "env_UpdateStatus refEnv = refUpdateStatus"
  "env_IsNotFound refEnv = hasReason ''NotFound''"
  "env_IsAlreadyExists refEnv = hasReason ''AlreadyExists''"
  "env_IsConflict refEnv = hasReason ''Conflict''" "env_IsInvalid refEnv = hasReason ''Invalid''"
  "env_Now refEnv = refNow"
  by (simp_all add: refEnv_def)

lemma find_map_controller:
  "find isController xs \<noteq> None \<Longrightarrow>
   find isController (map (\<lambda>r. if isController r then refOwnerReference owner else r) xs)
     = Some (refOwnerReference owner)"
  by (induction xs) (auto simp: isController_def refOwnerReference_def)

lemma find_append_controller:
  "find isController xs = None \<Longrightarrow>
   find isController (xs @ [refOwnerReference owner]) = Some (refOwnerReference owner)"
  by (induction xs) (auto simp: isController_def refOwnerReference_def split: if_splits)

lemma refSetControllerReference_Inr:
  "refSetControllerReference owner s = Inr s' \<Longrightarrow>
   refGetControllerOf s' = Some (refOwnerReference owner)
   \<and> (\<exists>refs. s' = s\<lparr>sec_Meta := (sec_Meta s)\<lparr>om_OwnerReferences := refs\<rparr>\<rparr>)"
  by (auto simp: refSetControllerReference_def refGetControllerOf_def find_map_controller
      find_append_controller split: option.splits if_splits)

end
