(* ===== verification/Secret_Writer.thy ===== *)
theory Secret_Writer
  imports Reference_Cluster
begin

text \<open>
  \<open>internal/sync/writer.go\<close>: the single code path that places a secret value into a Kubernetes
  object. \<open>CreateOrUpdate\<close> reads the target through the cached client, then creates it or
  updates it, and recovers from the three ways the cached copy can be stale (AlreadyExists,
  Conflict, Invalid) by one uncached re-read. The ownership predicate \<open>ControllerOwnedBy\<close> of
  \<open>engine.go\<close> stands here too, since the writer uses it.

  The lemmas say what every call of the writer looks like, for any answer of the cluster, how
  many writes one invocation makes, and what each of its results means.
\<close>

section \<open>Constants\<close>

abbreviation LabelManagedBy :: string where
  "LabelManagedBy \<equiv> ''app.kubernetes.io/managed-by''"
abbreviation LabelManagedByValue :: string where
  "LabelManagedByValue \<equiv> ''kvsynk8s''"
abbreviation AnnotationVault :: string where
  "AnnotationVault \<equiv> ''kvsynk8s.io/vault''"
abbreviation AnnotationSecret :: string where
  "AnnotationSecret \<equiv> ''kvsynk8s.io/secret''"
abbreviation AnnotationVersion :: string where
  "AnnotationVersion \<equiv> ''kvsynk8s.io/version''"
abbreviation ReasonTargetConflict :: string where
  "ReasonTargetConflict \<equiv> ''TargetConflict''"
abbreviation ReasonTargetImmutable :: string where
  "ReasonTargetImmutable \<equiv> ''TargetImmutable''"
abbreviation ReasonSecretWriteFailed :: string where
  "ReasonSecretWriteFailed \<equiv> ''SecretWriteFailed''"
abbreviation SecretTypeOpaque :: string where
  "SecretTypeOpaque \<equiv> ''Opaque''"

record SecretWriter =
  sw_Client :: "client option"
  sw_Reader :: "client option"

section \<open>Pure parts\<close>

abbreviation sec_Label :: "Secret \<Rightarrow> string \<Rightarrow> string" where
  "sec_Label secret k \<equiv> mapget (om_Labels (sec_Meta secret)) k"
abbreviation sec_Annotation :: "Secret \<Rightarrow> string \<Rightarrow> string" where
  "sec_Annotation secret k \<equiv> mapget (om_Annotations (sec_Meta secret)) k"
abbreviation sec_Name :: "Secret \<Rightarrow> string" where
  "sec_Name secret \<equiv> om_Name (sec_Meta secret)"
abbreviation sec_Namespace :: "Secret \<Rightarrow> string" where
  "sec_Namespace secret \<equiv> om_Namespace (sec_Meta secret)"

definition ControllerOwnedBy :: "'w env \<Rightarrow> Secret \<Rightarrow> SecretSync \<Rightarrow> bool" where
  "ControllerOwnedBy E secret owner =
     (case env_GetControllerOf E secret of
        None \<Rightarrow> False
      | Some ref \<Rightarrow> or_UID ref = ss_UID owner)"

definition writable :: "'w env \<Rightarrow> Secret \<Rightarrow> SecretSync \<Rightarrow> bool" where
  "writable E secret owner =
     (sec_Label secret LabelManagedBy = LabelManagedByValue \<or> ControllerOwnedBy E secret owner)"

definition populateManagedSecret ::
    "Secret \<Rightarrow> SecretSync \<Rightarrow> string \<Rightarrow> string \<Rightarrow> string \<Rightarrow> Secret" where
  "populateManagedSecret secret owner dataKey value version =
     secret\<lparr>
       sec_Type := SecretTypeOpaque,
       sec_Meta := (sec_Meta secret)\<lparr>
         om_Labels := fmupd LabelManagedBy LabelManagedByValue (om_Labels (sec_Meta secret)),
         om_Annotations :=
           fmupd AnnotationVersion version
             (fmupd AnnotationSecret (vault_Secret (spec_Vault (ss_Spec owner)))
               (fmupd AnnotationVault (vault_Name (spec_Vault (ss_Spec owner)))
                 (om_Annotations (sec_Meta secret))))\<rparr>,
       sec_Data := fmupd dataKey value fmempty\<rparr>"

definition managedSecretDataMatches :: "Secret \<Rightarrow> string \<Rightarrow> string \<Rightarrow> bool" where
  "managedSecretDataMatches secret dataKey value =
     (if maplen (sec_Data secret) \<noteq> 1 then False
      else (case fmlookup (sec_Data secret) dataKey of
          None \<Rightarrow> False
        | Some got \<Rightarrow> got = value))"

definition immutableBlocksWrite :: "Secret \<Rightarrow> string \<Rightarrow> string \<Rightarrow> bool" where
  "immutableBlocksWrite secret dataKey value =
     (sec_Immutable secret = Some True \<and> \<not> managedSecretDataMatches secret dataKey value)"

text \<open>\<open>namespace/name\<close> as every error text and message prints it.\<close>

definition nsname :: "string \<Rightarrow> string \<Rightarrow> string" where
  "nsname ns name = ns @ ''/'' @ name"

section \<open>The client calls\<close>

definition getSecret ::
    "'w env \<Rightarrow> client \<Rightarrow> goctx \<Rightarrow> NamespacedName \<Rightarrow> ('w sys, goerr + Secret) state" where
  "getSecret E c ctx key = perform (CGetSecret c ctx key) (env_GetSecret E c ctx key)"

definition createSecret :: "'w env \<Rightarrow> goctx \<Rightarrow> Secret \<Rightarrow> ('w sys, goerr option) state" where
  "createSecret E ctx secret =
     perform (CCreateSecret ctx secret) (env_CreateSecret E ctx secret)"

definition updateSecret :: "'w env \<Rightarrow> goctx \<Rightarrow> Secret \<Rightarrow> ('w sys, goerr option) state" where
  "updateSecret E ctx secret =
     perform (CUpdateSecret ctx secret) (env_UpdateSecret E ctx secret)"

section \<open>The writer\<close>

definition reader :: "SecretWriter \<Rightarrow> client option" where
  "reader w = (case sw_Reader w of Some r \<Rightarrow> Some r | None \<Rightarrow> sw_Client w)"

text \<open>A \<open>Get\<close> on the writer's reader. \<open>CreateOrUpdate\<close> returns before any use of a nil client,
  so a nil reader here is the panic of a nil interface call.\<close>

definition readerGet ::
    "'w env \<Rightarrow> SecretWriter \<Rightarrow> goctx \<Rightarrow> NamespacedName \<Rightarrow> ('w sys, goerr + Secret) state" where
  "readerGet E w ctx key =
     (case reader w of
        None \<Rightarrow> State_Monad.return (Inl (Err (KPanic ''nil client'') []))
      | Some c \<Rightarrow> getSecret E c ctx key)"

definition logWritten ::
    "string \<Rightarrow> string \<Rightarrow> string \<Rightarrow> SecretSync \<Rightarrow> string \<Rightarrow> ('w sys, unit) state" where
  "logWritten msg ns name owner version =
     logAt LV1 msg
       [(''namespace'', LStr ns), (''name'', LStr name),
        (''vault'', LStr (vault_Name (spec_Vault (ss_Spec owner)))),
        (''secret'', LStr (vault_Secret (spec_Vault (ss_Spec owner)))),
        (''version'', LStr version)]"

definition applyUpdate ::
    "'w env \<Rightarrow> goctx \<Rightarrow> SecretSync \<Rightarrow> Secret \<Rightarrow> string \<Rightarrow> string \<Rightarrow> string
     \<Rightarrow> ('w sys, goerr option) state" where
  "applyUpdate E ctx owner existing dataKey value version =
     (let ns = sec_Namespace existing; name = sec_Name existing in
      if immutableBlocksWrite existing dataKey value
      then State_Monad.return
        (Some (Errorf (''kvsynk8s: secret '' @ nsname ns name) [Sentinel ErrTargetImmutable]))
      else
        (case env_SetControllerReference E owner
                (populateManagedSecret existing owner dataKey value version) of
           Inl err \<Rightarrow>
             State_Monad.return (Some
               (if errors_As isAlreadyOwned err \<noteq> None
                then Errorf (''kvsynk8s: secret '' @ nsname ns name) [Sentinel ErrTargetConflict]
                else Errorf (''kvsynk8s: set owner reference on secret '' @ nsname ns name) [err]))
         | Inr secret \<Rightarrow> do {
             r \<leftarrow> updateSecret E ctx secret;
             (case r of
                Some err \<Rightarrow> State_Monad.return
                  (Some (Errorf (''kvsynk8s: update secret '' @ nsname ns name) [err]))
              | None \<Rightarrow> do {
                  logWritten ''updated managed secret'' ns name owner version;
                  State_Monad.return None })}))"

definition freshCopy ::
    "'w env \<Rightarrow> SecretWriter \<Rightarrow> goctx \<Rightarrow> string \<Rightarrow> string \<Rightarrow> ('w sys, goerr + Secret) state" where
  "freshCopy E w ctx ns name = readerGet E w ctx \<lparr>nn_Namespace = ns, nn_Name = name\<rparr>"

definition recoverConflict ::
    "'w env \<Rightarrow> SecretWriter \<Rightarrow> goctx \<Rightarrow> SecretSync \<Rightarrow> string \<Rightarrow> string \<Rightarrow> string \<Rightarrow> string \<Rightarrow> string
     \<Rightarrow> ('w sys, goerr option) state" where
  "recoverConflict E w ctx owner ns name dataKey value version = do {
     r \<leftarrow> freshCopy E w ctx ns name;
     (case r of
        Inl err \<Rightarrow> State_Monad.return (Some
          (Errorf (''kvsynk8s: re-read secret '' @ nsname ns name @ '' after Conflict'') [err]))
      | Inr current \<Rightarrow>
          if \<not> writable E current owner
          then State_Monad.return (Some
            (Errorf (''kvsynk8s: secret '' @ nsname ns name) [Sentinel ErrTargetConflict]))
          else applyUpdate E ctx owner current dataKey value version)}"

definition classifyInvalid ::
    "'w env \<Rightarrow> SecretWriter \<Rightarrow> goctx \<Rightarrow> string \<Rightarrow> string \<Rightarrow> string \<Rightarrow> string \<Rightarrow> goerr
     \<Rightarrow> ('w sys, goerr option) state" where
  "classifyInvalid E w ctx ns name dataKey value invalidErr = do {
     r \<leftarrow> freshCopy E w ctx ns name;
     (case r of
        Inl err \<Rightarrow> State_Monad.return (Some invalidErr)
      | Inr current \<Rightarrow>
          if immutableBlocksWrite current dataKey value
          then State_Monad.return (Some
            (Errorf (''kvsynk8s: secret '' @ nsname ns name) [Sentinel ErrTargetImmutable]))
          else State_Monad.return (Some invalidErr))}"

definition update ::
    "'w env \<Rightarrow> SecretWriter \<Rightarrow> goctx \<Rightarrow> SecretSync \<Rightarrow> Secret \<Rightarrow> string \<Rightarrow> string \<Rightarrow> string
     \<Rightarrow> ('w sys, goerr option) state" where
  "update E w ctx owner existing dataKey value version = do {
     r \<leftarrow> applyUpdate E ctx owner existing dataKey value version;
     (case r of
        None \<Rightarrow> State_Monad.return None
      | Some err \<Rightarrow>
          if env_IsConflict E err
          then recoverConflict E w ctx owner (sec_Namespace existing) (sec_Name existing)
                 dataKey value version
          else if env_IsInvalid E err
          then classifyInvalid E w ctx (sec_Namespace existing) (sec_Name existing)
                 dataKey value err
          else State_Monad.return (Some err))}"

definition recoverAlreadyExists ::
    "'w env \<Rightarrow> SecretWriter \<Rightarrow> goctx \<Rightarrow> SecretSync \<Rightarrow> string \<Rightarrow> string \<Rightarrow> string \<Rightarrow> string \<Rightarrow> string
     \<Rightarrow> ('w sys, goerr option) state" where
  "recoverAlreadyExists E w ctx owner ns name dataKey value version = do {
     r \<leftarrow> readerGet E w ctx \<lparr>nn_Namespace = ns, nn_Name = name\<rparr>;
     (case r of
        Inl getErr \<Rightarrow> State_Monad.return (Some
          (Errorf (''kvsynk8s: re-read secret '' @ nsname ns name @ '' after AlreadyExists'')
             [getErr]))
      | Inr current \<Rightarrow>
          if writable E current owner
          then update E w ctx owner current dataKey value version
          else State_Monad.return (Some
            (Errorf (''kvsynk8s: create secret '' @ nsname ns name)
               [Sentinel ErrTargetConflict])))}"

text \<open>The Secret a \<open>create\<close> starts from: its name and namespace, everything else zero.\<close>

definition newSecret :: "string \<Rightarrow> string \<Rightarrow> Secret" where
  "newSecret ns name =
     \<lparr>sec_Meta = zeroObjectMeta\<lparr>om_Name := name, om_Namespace := ns\<rparr>,
      sec_Type = [], sec_Immutable = None, sec_Data = fmempty\<rparr>"

definition create ::
    "'w env \<Rightarrow> SecretWriter \<Rightarrow> goctx \<Rightarrow> SecretSync \<Rightarrow> string \<Rightarrow> string \<Rightarrow> string \<Rightarrow> string \<Rightarrow> string
     \<Rightarrow> ('w sys, goerr option) state" where
  "create E w ctx owner ns name dataKey value version =
     (case env_SetControllerReference E owner
             (populateManagedSecret (newSecret ns name) owner dataKey value version) of
        Inl err \<Rightarrow> State_Monad.return (Some
          (Errorf (''kvsynk8s: set owner reference on secret '' @ nsname ns name) [err]))
      | Inr secret \<Rightarrow> do {
          r \<leftarrow> createSecret E ctx secret;
          (case r of
             Some err \<Rightarrow>
               if env_IsAlreadyExists E err
               then recoverAlreadyExists E w ctx owner ns name dataKey value version
               else State_Monad.return (Some
                 (Errorf (''kvsynk8s: create secret '' @ nsname ns name) [err]))
           | None \<Rightarrow> do {
               logWritten ''created managed secret'' ns name owner version;
               State_Monad.return None })})"

definition CreateOrUpdate ::
    "'w env \<Rightarrow> SecretWriter \<Rightarrow> goctx \<Rightarrow> SecretSync \<Rightarrow> string \<Rightarrow> string \<Rightarrow> string \<Rightarrow> string \<Rightarrow> string
     \<Rightarrow> ('w sys, goerr option) state" where
  "CreateOrUpdate E w ctx owner ns name dataKey value version =
     (case sw_Client w of
        None \<Rightarrow> State_Monad.return
          (Some (errors_New ''kvsynk8s: secret writer has no client configured''))
      | Some c \<Rightarrow> do {
          got \<leftarrow> getSecret E c ctx \<lparr>nn_Namespace = ns, nn_Name = name\<rparr>;
          (case got of
             Inl err \<Rightarrow>
               if env_IsNotFound E err
               then create E w ctx owner ns name dataKey value version
               else State_Monad.return (Some
                 (Errorf (''kvsynk8s: get secret '' @ nsname ns name) [err]))
           | Inr existing \<Rightarrow>
               if \<not> writable E existing owner
               then State_Monad.return (Some
                 (Errorf (''kvsynk8s: secret '' @ nsname ns name) [Sentinel ErrTargetConflict]))
               else update E w ctx owner existing dataKey value version)})"

section \<open>Specification vocabulary\<close>

text \<open>The shape of a managed Secret, and the provenance of what the writer sends: a created
  Secret is a fresh one, an updated Secret is one that was read and was writable.\<close>

definition managedShape :: "SecretSync \<Rightarrow> string \<Rightarrow> string \<Rightarrow> string \<Rightarrow> Secret \<Rightarrow> bool" where
  "managedShape owner dataKey value version secret \<longleftrightarrow>
     sec_Type secret = SecretTypeOpaque
     \<and> sec_Label secret LabelManagedBy = LabelManagedByValue
     \<and> sec_Annotation secret AnnotationVault = vault_Name (spec_Vault (ss_Spec owner))
     \<and> sec_Annotation secret AnnotationSecret = vault_Secret (spec_Vault (ss_Spec owner))
     \<and> sec_Annotation secret AnnotationVersion = version
     \<and> sec_Data secret = fmupd dataKey value fmempty"

definition stamped ::
    "'w env \<Rightarrow> SecretSync \<Rightarrow> string \<Rightarrow> string \<Rightarrow> string \<Rightarrow> Secret \<Rightarrow> Secret \<Rightarrow> bool" where
  "stamped E owner dataKey value version base secret \<longleftrightarrow>
     env_SetControllerReference E owner
       (populateManagedSecret base owner dataKey value version) = Inr secret"

text \<open>Writes of Secrets, and those the API server accepted.\<close>

fun isSecretWrite :: "call \<Rightarrow> bool" where
  "isSecretWrite (CCreateSecret _ _ _) = True"
| "isSecretWrite (CUpdateSecret _ _ _) = True"
| "isSecretWrite (CDeleteSecret _ _ _) = True"
| "isSecretWrite _ = False"

fun isSecretCreate :: "call \<Rightarrow> bool" where
  "isSecretCreate (CCreateSecret _ _ _) = True"
| "isSecretCreate _ = False"

fun isSecretUpdate :: "call \<Rightarrow> bool" where
  "isSecretUpdate (CUpdateSecret _ _ _) = True"
| "isSecretUpdate _ = False"

fun acceptedWrite :: "call \<Rightarrow> Secret option" where
  "acceptedWrite (CCreateSecret _ secret None) = Some secret"
| "acceptedWrite (CUpdateSecret _ secret None) = Some secret"
| "acceptedWrite _ = None"

text \<open>
  The writer's protocol: which call may follow which. A Secret is created only right after the
  cached read reported NotFound; a Secret is updated only right after a read returned it, it was
  writable, and the write does not change the data of an immutable one.
\<close>

definition writerStep ::
    "'w env \<Rightarrow> SecretSync \<Rightarrow> string \<Rightarrow> string \<Rightarrow> string \<Rightarrow> string \<Rightarrow> string
     \<Rightarrow> call option \<Rightarrow> call \<Rightarrow> bool" where
  "writerStep E owner ns name dataKey value version prev c \<longleftrightarrow>
     (case c of
        CGetSecret _ _ _ _ \<Rightarrow> prev \<noteq> None \<longrightarrow> acceptedWrite (the prev) = None
      | CCreateSecret _ secret _ \<Rightarrow>
          (case prev of
             Some (CGetSecret _ _ _ (Inl err)) \<Rightarrow>
               env_IsNotFound E err
               \<and> stamped E owner dataKey value version (newSecret ns name) secret
           | _ \<Rightarrow> False)
      | CUpdateSecret _ secret _ \<Rightarrow>
          (case prev of
             Some (CGetSecret _ _ _ (Inr base)) \<Rightarrow>
               writable E base owner \<and> \<not> immutableBlocksWrite base dataKey value
               \<and> stamped E owner dataKey value version base secret
           | _ \<Rightarrow> False)
      | _ \<Rightarrow> False)"

text \<open>
  What the operator relies on of the client libraries. \<open>ownerRefLaws\<close>: the documented behaviour of
  \<open>controllerutil.SetControllerReference\<close>, which makes the owner the controller and changes only
  the owner references, and refuses an object another object controls; \<open>GetControllerOf\<close> reads the
  owner references only. \<open>clientErrorLaws\<close>: the client's errors are not this package's sentinels,
  and \<open>apierrors.IsConflict\<close>/\<open>IsInvalid\<close> do not match an error without an API status.
\<close>

definition ownerRefLaws :: "'w env \<Rightarrow> bool" where
  "ownerRefLaws E \<longleftrightarrow>
     (\<forall>owner s s'. env_SetControllerReference E owner s = Inr s' \<longrightarrow>
        (\<exists>ref. env_GetControllerOf E s' = Some ref \<and> or_UID ref = ss_UID owner)
        \<and> (\<exists>refs. s' = s\<lparr>sec_Meta := (sec_Meta s)\<lparr>om_OwnerReferences := refs\<rparr>\<rparr>))
     \<and> (\<forall>owner s ref. env_GetControllerOf E s = Some ref \<and> or_Name ref \<noteq> ss_Name owner \<longrightarrow>
        isl (env_SetControllerReference E owner s))
     \<and> (\<forall>s s'. om_OwnerReferences (sec_Meta s) = om_OwnerReferences (sec_Meta s') \<longrightarrow>
        env_GetControllerOf E s = env_GetControllerOf E s')"

text \<open>It compares the controller that is there with the owner by kind and name, not by UID: a \<open>SecretSync\<close> of
  that name is the owner, even if it is an earlier one that was deleted since.\<close>

definition refusesOthers :: "'w env \<Rightarrow> bool" where
  "refusesOthers E \<longleftrightarrow>
     (\<forall>owner s ref. env_GetControllerOf E s = Some ref
        \<and> (or_Kind ref \<noteq> ''SecretSync'' \<or> or_Name ref \<noteq> ss_Name owner) \<longrightarrow>
        isl (env_SetControllerReference E owner s))"

definition isTargetError :: "goerr \<Rightarrow> bool" where
  "isTargetError e \<longleftrightarrow> errors_Is e ErrTargetConflict \<or> errors_Is e ErrTargetImmutable"

definition clientErrorLaws :: "'w env \<Rightarrow> bool" where
  "clientErrorLaws E \<longleftrightarrow>
     (\<forall>c ctx key w e w'. env_GetSecret E c ctx key w = (Inl e, w') \<longrightarrow> \<not> isTargetError e)
     \<and> (\<forall>ctx s w e w'. env_CreateSecret E ctx s w = (Some e, w') \<longrightarrow> \<not> isTargetError e)
     \<and> (\<forall>ctx s w e w'. env_UpdateSecret E ctx s w = (Some e, w') \<longrightarrow> \<not> isTargetError e)
     \<and> (\<forall>owner s e. env_SetControllerReference E owner s = Inl e \<longrightarrow> \<not> isTargetError e)
     \<and> (\<forall>text t. \<not> env_IsConflict E (Errorf text [Sentinel t])
                \<and> \<not> env_IsInvalid E (Errorf text [Sentinel t]))"

text \<open>What a result says of the last call: a nil error follows an accepted write, an error
  follows anything else; under the laws above, the two sentinels follow the read of a Secret
  that shows the reason.\<close>

definition readOf :: "Secret \<Rightarrow> call option \<Rightarrow> bool" where
  "readOf secret lc \<longleftrightarrow> (\<exists>c ctx key. lc = Some (CGetSecret c ctx key (Inr secret)))"

definition conflicting ::
    "'w env \<Rightarrow> SecretSync \<Rightarrow> string \<Rightarrow> string \<Rightarrow> string \<Rightarrow> Secret \<Rightarrow> bool" where
  "conflicting E owner dataKey value version secret \<longleftrightarrow>
     \<not> writable E secret owner
     \<or> (\<exists>e. env_SetControllerReference E owner
             (populateManagedSecret secret owner dataKey value version) = Inl e
           \<and> errors_As isAlreadyOwned e \<noteq> None)"

definition writerResult ::
    "'w env \<Rightarrow> SecretSync \<Rightarrow> string \<Rightarrow> string \<Rightarrow> string \<Rightarrow> goerr option \<Rightarrow> call option \<Rightarrow> bool" where
  "writerResult E owner dataKey value version r lc \<longleftrightarrow>
     (r = None \<longleftrightarrow> (\<exists>c secret. lc = Some c \<and> acceptedWrite c = Some secret))
     \<and> (\<forall>e. r = Some e \<and> clientErrorLaws E \<longrightarrow>
          (errors_Is e ErrTargetImmutable \<longrightarrow>
             (\<exists>cur. readOf cur lc \<and> immutableBlocksWrite cur dataKey value))
          \<and> (errors_Is e ErrTargetConflict \<longrightarrow>
             (\<exists>cur. readOf cur lc \<and> conflicting E owner dataKey value version cur)))"

definition idle :: "call option \<Rightarrow> bool" where
  "idle lc \<longleftrightarrow> (\<forall>c. lc = Some c \<longrightarrow> acceptedWrite c = None)"

text \<open>Weights of the writer's calls: a read, a create, an update.\<close>

fun writerWeight :: "nat \<Rightarrow> nat \<Rightarrow> nat \<Rightarrow> call \<Rightarrow> nat" where
  "writerWeight g k u (CGetSecret _ _ _ _) = g"
| "writerWeight g k u (CCreateSecret _ _ _) = k"
| "writerWeight g k u (CUpdateSecret _ _ _) = u"
| "writerWeight g k u _ = 0"

section \<open>Lemmas\<close>

lemmas secret_call_defs = getSecret_def createSecret_def updateSecret_def

lemmas writer_defs =
  CreateOrUpdate_def create_def recoverAlreadyExists_def update_def classifyInvalid_def
  recoverConflict_def freshCopy_def applyUpdate_def logWritten_def readerGet_def Let_def

lemma managedSecretDataMatches_iff:
  "managedSecretDataMatches secret dataKey value \<longleftrightarrow> sec_Data secret = fmupd dataKey value fmempty"
  using maplen_one_iff [of "sec_Data secret" dataKey "value"]
  by (auto simp: managedSecretDataMatches_def split: option.splits)

lemma managedShape_populate:
  "managedShape owner dataKey value version
     (populateManagedSecret secret owner dataKey value version)"
  by (simp add: managedShape_def populateManagedSecret_def)

lemmas proto_vocab = writerStep_def writerResult_def readOf_def idle_def stamped_def conflicting_def

lemma clientErrorLawsD:
  assumes "clientErrorLaws E"
  shows "env_GetSecret E c ctx key w = (Inl e, w') \<Longrightarrow> \<not> isTargetError e"
    and "env_CreateSecret E ctx s w = (Some e, w') \<Longrightarrow> \<not> isTargetError e"
    and "env_UpdateSecret E ctx s w = (Some e, w') \<Longrightarrow> \<not> isTargetError e"
    and "env_SetControllerReference E owner s = Inl e \<Longrightarrow> \<not> isTargetError e"
    and "\<not> env_IsConflict E (Errorf text [Sentinel t])"
    and "\<not> env_IsInvalid E (Errorf text [Sentinel t])"
  using assms unfolding clientErrorLaws_def by metis+

lemma isTargetError_simps [simp]:
  "isTargetError (Errorf text [e]) = isTargetError e"
  "isTargetError (Err (KPanic text) []) = False"
  "isTargetError (errors_New text) = False"
  by (simp_all add: isTargetError_def)

lemma writerResult_error:
  "idle lc \<Longrightarrow> (clientErrorLaws E \<Longrightarrow> \<not> isTargetError e) \<Longrightarrow>
   writerResult E owner dataKey value version (Some e) lc"
  by (auto simp: writerResult_def idle_def isTargetError_def)

lemma writerResult_accepted:
  "acceptedWrite c = Some secret \<Longrightarrow> writerResult E owner dataKey value version None (Some c)"
  by (auto simp: writerResult_def)

lemma writerResult_immutable:
  "readOf cur lc \<Longrightarrow> immutableBlocksWrite cur dataKey value \<Longrightarrow>
   writerResult E owner dataKey value version (Some (Errorf t [Sentinel ErrTargetImmutable])) lc"
  by (auto simp: writerResult_def readOf_def)

lemma writerResult_conflict:
  "readOf cur lc \<Longrightarrow> conflicting E owner dataKey value version cur \<Longrightarrow>
   writerResult E owner dataKey value version (Some (Errorf t [Sentinel ErrTargetConflict])) lc"
  by (auto simp: writerResult_def readOf_def)

lemma writerResult_idle: "writerResult E owner dataKey value version (Some e) lc \<Longrightarrow> idle lc"
  by (auto simp: writerResult_def idle_def)

lemma readOf_idle: "readOf secret lc \<Longrightarrow> idle lc"
  by (auto simp: readOf_def idle_def)

lemma proto_getSecret:
  "idle prev \<Longrightarrow>
   (\<And>r w w'. env_GetSecret E c ctx key w = (r, w') \<Longrightarrow> R r (Some (CGetSecret c ctx key r))) \<Longrightarrow>
   proto (writerStep E owner ns name dataKey value version) prev (getSecret E c ctx key) R"
  unfolding getSecret_def by (rule proto_perform) (auto simp: proto_vocab)

lemma proto_readerGet:
  assumes "idle prev"
    and "\<And>secret lc. readOf secret lc \<Longrightarrow> R (Inr secret) lc"
    and "\<And>e lc. idle lc \<Longrightarrow> (clientErrorLaws E \<Longrightarrow> \<not> isTargetError e) \<Longrightarrow> R (Inl e) lc"
  shows "proto (writerStep E owner ns name dataKey value version) prev (readerGet E w ctx key) R"
  unfolding readerGet_def
proof (intro proto_intros proto_getSecret)
  show "R (Inl (Err (KPanic ''nil client'') [])) prev"
    using assms(1) by (intro assms(3)) simp_all
  show "R r (Some (CGetSecret c ctx key r))" if "env_GetSecret E c ctx key wd = (r, wd')" for r c wd wd'
    using that
    by (cases r) (auto intro!: assms(2,3) simp: readOf_def idle_def dest: clientErrorLawsD)
qed (use assms in auto)

lemma proto_applyUpdate:
  assumes "readOf existing prev" and "writable E existing owner"
  shows "proto (writerStep E owner ns name dataKey value version) prev
     (applyUpdate E ctx owner existing dataKey value version)
     (\<lambda>r lc. writerResult E owner dataKey value version r lc
        \<and> (\<forall>e. r = Some e \<longrightarrow> clientErrorLaws E \<longrightarrow>
             env_IsConflict E e \<or> env_IsInvalid E e \<longrightarrow> \<not> isTargetError e))"
proof -
  let ?populated = "populateManagedSecret existing owner dataKey value version"
  have immutable: "writerResult E owner dataKey value version
      (Some (Errorf t [Sentinel ErrTargetImmutable])) prev"
    if "immutableBlocksWrite existing dataKey value" for t
    using assms(1) that by (rule writerResult_immutable)
  have owned: "writerResult E owner dataKey value version
      (Some (Errorf t [Sentinel ErrTargetConflict])) prev"
    if "isl (env_SetControllerReference E owner ?populated)"
      and "errors_As isAlreadyOwned (projl (env_SetControllerReference E owner ?populated)) \<noteq> None"
    for t
    using assms(1) by (rule writerResult_conflict) (use that in \<open>auto simp: conflicting_def isl_def\<close>)
  have "idle prev" using assms(1) by (rule readOf_idle)
  with assms show ?thesis
    unfolding applyUpdate_def Let_def logWritten_def updateSecret_def
    by (intro proto_intros)
      (auto simp: immutable owned writerStep_def stamped_def readOf_def idle_def
        dest: clientErrorLawsD intro: writerResult_accepted intro!: writerResult_error)
qed

lemma proto_applyUpdate_result:
  assumes "readOf existing prev" and "writable E existing owner"
  shows "proto (writerStep E owner ns name dataKey value version) prev
     (applyUpdate E ctx owner existing dataKey value version)
     (writerResult E owner dataKey value version)"
  by (rule proto_mono [OF proto_applyUpdate [OF assms]]) simp

lemma proto_recoverConflict:
  "idle prev \<Longrightarrow>
   proto (writerStep E owner ns name dataKey value version) prev
     (recoverConflict E w ctx owner ns' name' dataKey value version)
     (writerResult E owner dataKey value version)"
  unfolding recoverConflict_def freshCopy_def
  by (intro proto_bind proto_readerGet)
    (auto intro!: proto_intros proto_applyUpdate_result writerResult_error writerResult_conflict
      simp: conflicting_def)

lemma proto_classifyInvalid:
  "idle prev \<Longrightarrow> (clientErrorLaws E \<Longrightarrow> \<not> isTargetError err) \<Longrightarrow>
   proto (writerStep E owner ns name dataKey value version) prev
     (classifyInvalid E w ctx ns' name' dataKey value err)
     (writerResult E owner dataKey value version)"
  unfolding classifyInvalid_def freshCopy_def
  by (intro proto_bind proto_readerGet)
    (auto intro!: proto_intros writerResult_error writerResult_immutable intro: readOf_idle)

lemma proto_update:
  assumes "readOf existing prev" and "writable E existing owner"
  shows "proto (writerStep E owner ns name dataKey value version) prev
     (update E w ctx owner existing dataKey value version)
     (writerResult E owner dataKey value version)"
  unfolding update_def
  by (intro proto_bind proto_mono [OF proto_applyUpdate [OF assms]] proto_intros)
    (auto intro: writerResult_idle proto_recoverConflict proto_classifyInvalid)

lemma proto_recoverAlreadyExists:
  "idle prev \<Longrightarrow>
   proto (writerStep E owner ns name dataKey value version) prev
     (recoverAlreadyExists E w ctx owner ns name dataKey value version)
     (writerResult E owner dataKey value version)"
  unfolding recoverAlreadyExists_def
  by (intro proto_bind proto_readerGet)
    (auto intro!: proto_intros proto_update writerResult_error writerResult_conflict
      simp: conflicting_def)

lemma proto_create:
  assumes "prev = Some (CGetSecret c ctx' key (Inl e))" and "env_IsNotFound E e"
  shows "proto (writerStep E owner ns name dataKey value version) prev
     (create E w ctx owner ns name dataKey value version)
     (writerResult E owner dataKey value version)"
  unfolding create_def createSecret_def logWritten_def
  by (intro proto_intros proto_recoverAlreadyExists)
    (auto simp: assms writerStep_def stamped_def idle_def dest: clientErrorLawsD
      intro: writerResult_accepted intro!: writerResult_error)

lemma proto_CreateOrUpdate:
  "proto (writerStep E owner ns name dataKey value version) None
     (CreateOrUpdate E w ctx owner ns name dataKey value version)
     (writerResult E owner dataKey value version)"
  unfolding CreateOrUpdate_def
  by (intro proto_intros proto_getSecret proto_create proto_update)
    (auto simp: readOf_def idle_def conflicting_def dest: clientErrorLawsD
      intro!: writerResult_error writerResult_conflict)

lemma writer_run:
  assumes "run_state (CreateOrUpdate E w ctx owner ns name dataKey value version) s = (r, s')"
    and "calls s' = calls s @ new"
  shows "obeys (writerStep E owner ns name dataKey value version) None new"
    and "writerResult E owner dataKey value version r (lastOf None new)"
  using proto_run [OF proto_CreateOrUpdate assms(1)] assms(2) by auto

lemma ownerRefLawsD:
  assumes "ownerRefLaws E"
  shows "env_SetControllerReference E owner x = Inr x' \<Longrightarrow>
      \<exists>ref. env_GetControllerOf E x' = Some ref \<and> or_UID ref = ss_UID owner"
    and "env_SetControllerReference E owner x = Inr x' \<Longrightarrow>
      \<exists>refs. x' = x\<lparr>sec_Meta := (sec_Meta x)\<lparr>om_OwnerReferences := refs\<rparr>\<rparr>"
    and "env_GetControllerOf E x = Some ref \<Longrightarrow> or_Name ref \<noteq> ss_Name owner \<Longrightarrow>
      isl (env_SetControllerReference E owner x)"
    and "om_OwnerReferences (sec_Meta x) = om_OwnerReferences (sec_Meta x') \<Longrightarrow>
      env_GetControllerOf E x = env_GetControllerOf E x'"
proof -
  note laws = assms [unfolded ownerRefLaws_def]
  show "env_SetControllerReference E owner x = Inr x' \<Longrightarrow>
      \<exists>ref. env_GetControllerOf E x' = Some ref \<and> or_UID ref = ss_UID owner"
    using laws [THEN conjunct1, rule_format, THEN conjunct1] .
  show "env_SetControllerReference E owner x = Inr x' \<Longrightarrow>
      \<exists>refs. x' = x\<lparr>sec_Meta := (sec_Meta x)\<lparr>om_OwnerReferences := refs\<rparr>\<rparr>"
    using laws [THEN conjunct1, rule_format, THEN conjunct2] .
  show "env_GetControllerOf E x = Some ref \<Longrightarrow> or_Name ref \<noteq> ss_Name owner \<Longrightarrow>
      isl (env_SetControllerReference E owner x)"
    using laws [THEN conjunct2, THEN conjunct1, rule_format, OF conjI] .
  show "om_OwnerReferences (sec_Meta x) = om_OwnerReferences (sec_Meta x') \<Longrightarrow>
      env_GetControllerOf E x = env_GetControllerOf E x'"
    using laws [THEN conjunct2, THEN conjunct2, rule_format] .
qed

lemma ownerRefLaws_stamped:
  assumes "ownerRefLaws E" and "stamped E owner dataKey value version base secret"
  obtains refs where
    "secret = (populateManagedSecret base owner dataKey value version)\<lparr>sec_Meta :=
       (sec_Meta (populateManagedSecret base owner dataKey value version))\<lparr>
         om_OwnerReferences := refs\<rparr>\<rparr>"
  using ownerRefLawsD(2) [OF assms(1) assms(2) [unfolded stamped_def]] by (elim exE)

lemma ownerRefLaws_owned:
  assumes "ownerRefLaws E" and "stamped E owner dataKey value version base secret"
  shows "ControllerOwnedBy E secret owner"
  using ownerRefLawsD(1) [OF assms(1) assms(2) [unfolded stamped_def]]
  by (auto simp: ControllerOwnedBy_def)

lemma stamped_same_controller:
  assumes "ownerRefLaws E" and "stamped E owner dataKey value version base secret"
  obtains p where "env_GetControllerOf E p = env_GetControllerOf E base" "\<not> isl (env_SetControllerReference E owner p)"
proof
  let ?p = "populateManagedSecret base owner dataKey value version"
  show "env_GetControllerOf E ?p = env_GetControllerOf E base"
    by (rule ownerRefLawsD(4) [OF assms(1)]) (simp add: populateManagedSecret_def)
  show "\<not> isl (env_SetControllerReference E owner ?p)" using assms(2) by (auto simp: stamped_def)
qed

lemma ownerRefLaws_not_other:
  assumes "ownerRefLaws E" and "stamped E owner dataKey value version base secret"
    and "env_GetControllerOf E base = Some ref"
  shows "or_Name ref = ss_Name owner"
  using stamped_same_controller [OF assms(1,2)] ownerRefLawsD(3) [OF assms(1)] assms(3) by metis

lemma refusesOthers_same:
  assumes "ownerRefLaws E" and "refusesOthers E" and "stamped E owner dataKey value version base secret"
    and "env_GetControllerOf E base = Some ref"
  shows "or_Kind ref = ''SecretSync'' \<and> or_Name ref = ss_Name owner"
  using stamped_same_controller [OF assms(1,3)] assms(2,4) unfolding refusesOthers_def by metis

lemma stamped_shape:
  assumes "ownerRefLaws E" and "stamped E owner dataKey value version base secret"
  shows "managedShape owner dataKey value version secret \<and> ControllerOwnedBy E secret owner"
proof -
  obtain refs where "secret = (populateManagedSecret base owner dataKey value version)\<lparr>sec_Meta :=
       (sec_Meta (populateManagedSecret base owner dataKey value version))\<lparr>
         om_OwnerReferences := refs\<rparr>\<rparr>"
    using assms by (rule ownerRefLaws_stamped)
  then have "managedShape owner dataKey value version secret"
    by (simp add: managedShape_def populateManagedSecret_def)
  with assms show ?thesis by (simp add: ownerRefLaws_owned)
qed

lemma step_after_accepted:
  "writerStep E owner ns name dataKey value version (Some c) c' \<Longrightarrow> acceptedWrite c = None"
  by (cases c'; cases c) (auto simp: writerStep_def split: sum.splits)

lemma obeys_accepted_last:
  "obeys (writerStep E owner ns name dataKey value version) prev (pre @ c # c' # post) \<Longrightarrow>
   acceptedWrite c = None"
  by (induction pre arbitrary: prev) (auto dest: step_after_accepted)

lemma obeys_accepted_butlast:
  assumes "obeys (writerStep E owner ns name dataKey value version) prev (pre @ [c])"
    and "x \<in> set pre"
  shows "acceptedWrite x = None"
proof -
  obtain as bs where "pre = as @ x # bs" using assms(2) by (meson split_list)
  moreover obtain y ys where "bs @ [c] = y # ys" by (cases bs) auto
  ultimately have "pre @ [c] = as @ x # y # ys" by simp
  with assms(1) show ?thesis using obeys_accepted_last by metis
qed

lemma accepted_stamped:
  "writerStep E owner ns name dataKey value version prev c \<Longrightarrow> acceptedWrite c = Some secret \<Longrightarrow>
   \<exists>base. stamped E owner dataKey value version base secret"
  by (cases c rule: acceptedWrite.cases)
    (auto simp: writerStep_def split: option.splits call.splits sum.splits)

section \<open>The reference cluster satisfies the laws\<close>

lemma refEnv_ownerRefLaws: "ownerRefLaws refEnv"
  unfolding ownerRefLaws_def
proof (intro conjI allI impI)
  fix owner s s'
  assume "env_SetControllerReference refEnv owner s = Inr s'"
  then have "refSetControllerReference owner s = Inr s'" by (simp add: refEnv_def)
  from refSetControllerReference_Inr [OF this]
  show "\<exists>ref. env_GetControllerOf refEnv s' = Some ref \<and> or_UID ref = ss_UID owner"
    and "\<exists>refs. s' = s\<lparr>sec_Meta := (sec_Meta s)\<lparr>om_OwnerReferences := refs\<rparr>\<rparr>"
    by (auto simp: refOwnerReference_def)
qed (auto simp: refSetControllerReference_def refGetControllerOf_def)

lemma hasReason_Sentinel: "\<not> hasReason reason (Errorf text [Sentinel t])"
  by (simp add: hasReason_def)

lemma apiError_not_target: "\<not> isTargetError (apiError reason)"
  by (simp add: isTargetError_def apiError_def)

lemma refEnv_clientErrorLaws: "clientErrorLaws refEnv"
  unfolding clientErrorLaws_def
proof (intro conjI allI impI)
  show "\<not> isTargetError e" if "env_GetSecret refEnv c ctx key w = (Inl e, w')" for c ctx key w e w'
    using that by (auto simp: refGetSecret_def apiError_not_target
        split: option.splits if_splits)
  show "\<not> isTargetError e" if "env_CreateSecret refEnv ctx s w = (Some e, w')" for ctx s w e w'
    using that by (auto simp: refCreateSecret_def apiError_not_target
        split: option.splits if_splits)
  show "\<not> isTargetError e" if "env_UpdateSecret refEnv ctx s w = (Some e, w')" for ctx s w e w'
    using that by (auto simp: refUpdateSecret_def apiError_not_target
        split: option.splits if_splits)
  show "\<not> isTargetError e" if "env_SetControllerReference refEnv owner s = Inl e" for owner s e
    using that by (auto simp: refSetControllerReference_def isTargetError_def
        split: option.splits if_splits)
qed (simp_all add: refEnv_def hasReason_Sentinel)

text \<open>A run on the reference cluster: the label of the owner's Secret was stripped, so the
  filtered cache hides it; the Create is refused, the uncached re-read finds it, and the Update
  repairs it.\<close>

abbreviation demoWriter :: SecretWriter where
  "demoWriter \<equiv> \<lparr>sw_Client = Some ManagerClient, sw_Reader = Some APIReader\<rparr>"

abbreviation demoWrite :: "Secret list \<Rightarrow> goerr option \<times> cluster sys" where
  "demoWrite secrets \<equiv>
     run_state (CreateOrUpdate refEnv demoWriter RootCtx demoSync ''app'' ''db'' ''k'' ''new'' ''v2'')
       (demoSys secrets [])"

lemmas demo_run_defs = writer_defs secret_call_defs perform_def logAt_def ref_defs demo_defs
  writable_def ControllerOwnedBy_def newSecret_def populateManagedSecret_def
  immutableBlocksWrite_def managedSecretDataMatches_def reader_def

lemma refEnv_refusesOthers: "refusesOthers refEnv"
  by (auto simp: refusesOthers_def refSetControllerReference_def)

lemma demoWrite_stripped:
  "\<exists>g c secret. fst (demoWrite [strippedSecret]) = None
     \<and> calls (snd (demoWrite [strippedSecret])) =
         [g, c, CGetSecret APIReader RootCtx \<lparr>nn_Namespace = ''app'', nn_Name = ''db''\<rparr>
            (Inr strippedSecret), CUpdateSecret RootCtx secret None]"
  by (simp add: demo_run_defs)

section \<open>Bounds\<close>

lemma costs_calls:
  "costs (writerWeight g k u) g (getSecret E c ctx key)"
  "costs (writerWeight g k u) k (createSecret E ctx secret)"
  "costs (writerWeight g k u) u (updateSecret E ctx secret)"
  by (simp_all add: secret_call_defs costs_perform)

lemma costs_readerGet: "costs (writerWeight g k u) g (readerGet E w ctx key)"
  unfolding readerGet_def by (intro costs_intros costs_calls)

lemma costs_applyUpdate:
  "costs (writerWeight g k u) u (applyUpdate E ctx owner existing dataKey value version)"
  unfolding applyUpdate_def Let_def logWritten_def
  by (rule costs_bind_log costs_bind_left costs_calls costs_intros)+

lemma costs_recoverConflict:
  "costs (writerWeight g k u) (g + u) (recoverConflict E w ctx owner ns name dataKey value version)"
  unfolding recoverConflict_def freshCopy_def
  by (intro costs_bind costs_readerGet costs_intros costs_applyUpdate)

lemma costs_classifyInvalid:
  "costs (writerWeight g k u) (g + 0) (classifyInvalid E w ctx ns name dataKey value err)"
  unfolding classifyInvalid_def freshCopy_def
  by (intro costs_bind costs_readerGet costs_intros)

lemma costs_update:
  "costs (writerWeight g k u) (u + (g + u)) (update E w ctx owner existing dataKey value version)"
  unfolding update_def
  by (intro costs_bind costs_applyUpdate costs_intros costs_recoverConflict
      costs_mono [OF costs_classifyInvalid]) simp

lemma costs_create:
  "costs (writerWeight g k u) (k + (g + (u + (g + u))))
     (create E w ctx owner ns name dataKey value version)"
  unfolding create_def recoverAlreadyExists_def logWritten_def
  by (rule costs_bind_log costs_bind costs_calls costs_readerGet costs_update costs_intros)+

lemma costs_CreateOrUpdate:
  "costs (writerWeight g k u) (3 * g + k + 2 * u)
     (CreateOrUpdate E w ctx owner ns name dataKey value version)"
proof -
  have "costs (writerWeight g k u) (g + (k + (g + (u + (g + u)))))
      (CreateOrUpdate E w ctx owner ns name dataKey value version)"
    unfolding CreateOrUpdate_def
    by (intro costs_intros costs_bind costs_calls costs_create costs_mono [OF costs_update]) simp
  then show ?thesis by (rule costs_mono) simp
qed

lemma weight_count:
  "sum_list (map (writerWeight 0 0 1) cs) = length (filter isSecretUpdate cs)"
  "sum_list (map (writerWeight 0 1 0) cs) = length (filter isSecretCreate cs)"
proof -
  have "writerWeight 0 0 1 c = of_bool (isSecretUpdate c)"
    "writerWeight 0 1 0 c = of_bool (isSecretCreate c)" for c
    by (cases c; simp)+
  then show "sum_list (map (writerWeight 0 0 1) cs) = length (filter isSecretUpdate cs)"
    "sum_list (map (writerWeight 0 1 0) cs) = length (filter isSecretCreate cs)"
    by (induction cs) simp_all
qed

lemma emits_writer: "emits (\<lambda>c. writerWeight 1 1 1 c = 1) (CreateOrUpdate E w ctx owner ns name dataKey value version)"
  unfolding writer_defs secret_call_defs by (intro emits_intros) simp_all

lemma emits_writer_length:
  "list_all (\<lambda>c. writerWeight 1 1 1 c = 1) cs \<Longrightarrow> length cs = sum_list (map (writerWeight 1 1 1) cs)"
  by (induction cs) simp_all

lemma costs_run:
  assumes "costs weight n m" and "run_state m s = (a, s')" and "calls s' = calls s @ new"
  shows "sum_list (map weight new) \<le> n"
  using assms unfolding costs_def by (metis same_append_eq snd_conv)

lemma emits_run:
  assumes "emits P m" and "run_state m s = (a, s')" and "calls s' = calls s @ new"
  shows "list_all P new"
  using assms unfolding emits_def by (metis same_append_eq snd_conv)

section \<open>Properties\<close>

text \<open>
  (C6) First writer wins (FR-012). Every Update the writer sends comes immediately after a read
  of the very Secret it rewrites; that Secret was writable for the owner (it carried the
  managed-by label or was controlled by the owner's UID) and had no controller other than a SecretSync of the
  owner's name; and the Update goes to the same namespace, name and resource version. This holds for every
  behaviour of the cluster, given the documented behaviour of SetControllerReference, which compares
  kind and name and not the UID: a labelled Secret of an earlier declaration of the same name is taken over
  (\<open>namesake_taken_over\<close> below).
\<close>

theorem writer_updates_only_own:
  assumes "ownerRefLaws E" and "refusesOthers E"
    and "run_state (CreateOrUpdate E w ctx owner ns name dataKey value version) s = (r, s')"
    and "calls s' = calls s @ pre @ CUpdateSecret c secret res # post"
  shows "\<exists>pre' cl c' key base. pre = pre' @ [CGetSecret cl c' key (Inr base)]
    \<and> writable E base owner
    \<and> (\<forall>ref. env_GetControllerOf E base = Some ref \<longrightarrow> or_Kind ref = ''SecretSync'' \<and> or_Name ref = ss_Name owner)
    \<and> sec_Name secret = sec_Name base \<and> sec_Namespace secret = sec_Namespace base
    \<and> om_ResourceVersion (sec_Meta secret) = om_ResourceVersion (sec_Meta base)"
proof -
  have "writerStep E owner ns name dataKey value version (lastOf None pre) (CUpdateSecret c secret res)"
    using writer_run(1) [OF assms(3,4)] by (rule obeys_split)
  then obtain cl c' key base where last: "lastOf None pre = Some (CGetSecret cl c' key (Inr base))"
    and base: "writable E base owner" "stamped E owner dataKey value version base secret"
    by (auto simp: writerStep_def split: option.splits call.splits sum.splits)
  from last obtain pre' where "pre = pre' @ [CGetSecret cl c' key (Inr base)]"
    by (cases pre rule: rev_cases) (auto simp: lastOf_def split: if_splits)
  moreover obtain refs where
    "secret = (populateManagedSecret base owner dataKey value version)\<lparr>sec_Meta :=
       (sec_Meta (populateManagedSecret base owner dataKey value version))\<lparr>
         om_OwnerReferences := refs\<rparr>\<rparr>"
    using assms(1) base(2) by (rule ownerRefLaws_stamped)
  ultimately show ?thesis
    using base refusesOthers_same [OF assms(1,2) base(2)]
    by (auto simp: populateManagedSecret_def)
qed

theorem writer_updates_only_own_witness:
  "\<exists>pre secret. calls (snd (demoWrite [strippedSecret])) = pre @ [CUpdateSecret RootCtx secret None]
     \<and> (\<exists>pre' cl c' key base. pre = pre' @ [CGetSecret cl c' key (Inr base)]
         \<and> writable refEnv base demoSync
         \<and> (\<forall>ref. env_GetControllerOf refEnv base = Some ref \<longrightarrow>
              or_Kind ref = ''SecretSync'' \<and> or_Name ref = ss_Name demoSync)
         \<and> sec_Name secret = sec_Name base \<and> sec_Namespace secret = sec_Namespace base
         \<and> om_ResourceVersion (sec_Meta secret) = om_ResourceVersion (sec_Meta base))"
proof -
  obtain r s' where run: "demoWrite [strippedSecret] = (r, s')" by fastforce
  obtain g c secret where "calls s' = [g, c, CGetSecret APIReader RootCtx
      \<lparr>nn_Namespace = ''app'', nn_Name = ''db''\<rparr> (Inr strippedSecret), CUpdateSecret RootCtx secret None]"
    using demoWrite_stripped run by auto
  then have split: "calls s' = calls (demoSys [strippedSecret] []) @ [g, c, CGetSecret APIReader RootCtx
      \<lparr>nn_Namespace = ''app'', nn_Name = ''db''\<rparr> (Inr strippedSecret)] @ CUpdateSecret RootCtx secret None # []"
    by (simp add: demoSys_def)
  from writer_updates_only_own [OF refEnv_ownerRefLaws refEnv_refusesOthers run split] split run
  show ?thesis by (auto simp: demoSys_def)
qed

text \<open>The namesake: a Secret controlled by an earlier declaration of the same name is rewritten for the new one.\<close>

lemma namesake_taken_over:
  "\<exists>g secret. fst (demoWrite [namesakeSecret]) = None
     \<and> calls (snd (demoWrite [namesakeSecret])) = [g, CUpdateSecret RootCtx secret None]
     \<and> \<not> ControllerOwnedBy refEnv namesakeSecret demoSync \<and> ControllerOwnedBy refEnv secret demoSync"
  by (simp add: demo_run_defs namesakeSecret_def)

text \<open>
  (C22) What the writer's answer means. A nil error says exactly one Secret write was accepted, it
  was the writer's last call, and the accepted Secret has the managed shape (type Opaque, the
  managed-by label, the three provenance annotations, exactly the one data key with the value) and
  is controlled by the owner. A non-nil error says no Secret write of this invocation was accepted.
\<close>

theorem writer_result:
  assumes "ownerRefLaws E"
    and "run_state (CreateOrUpdate E w ctx owner ns name dataKey value version) s = (r, s')"
    and "calls s' = calls s @ new"
  shows "case r of
      None \<Rightarrow> \<exists>pre c secret. new = pre @ [c] \<and> acceptedWrite c = Some secret
        \<and> managedShape owner dataKey value version secret \<and> ControllerOwnedBy E secret owner
        \<and> list_all (\<lambda>x. acceptedWrite x = None) pre
    | Some e \<Rightarrow> list_all (\<lambda>x. acceptedWrite x = None) new"
proof -
  note obeys = writer_run(1) [OF assms(2,3)] and result = writer_run(2) [OF assms(2,3)]
  show ?thesis
  proof (cases new rule: rev_cases)
    case Nil
    then show ?thesis using result by (auto simp: writerResult_def split: option.split)
  next
    case (snoc pre c)
    then have step: "writerStep E owner ns name dataKey value version (lastOf None pre) c"
      and pre: "list_all (\<lambda>x. acceptedWrite x = None) pre"
      using obeys obeys_accepted_butlast [of E owner ns name dataKey "value" version None pre c]
      by (auto simp: obeys_append list_all_iff)
    have "r = None \<longleftrightarrow> acceptedWrite c \<noteq> None"
      using result snoc by (auto simp: writerResult_def)
    moreover have "managedShape owner dataKey value version secret \<and> ControllerOwnedBy E secret owner"
      if "acceptedWrite c = Some secret" for secret
      using accepted_stamped [OF step that] stamped_shape [OF assms(1)] by metis
    ultimately show ?thesis using snoc pre by (auto split: option.split)
  qed
qed

theorem writer_result_witness:
  "fst (demoWrite [strippedSecret]) = None
   \<and> (\<exists>pre c secret. calls (snd (demoWrite [strippedSecret])) = pre @ [c]
       \<and> acceptedWrite c = Some secret \<and> managedShape demoSync ''k'' ''new'' ''v2'' secret
       \<and> ControllerOwnedBy refEnv secret demoSync \<and> list_all (\<lambda>x. acceptedWrite x = None) pre)"
proof -
  obtain r s' where run: "demoWrite [strippedSecret] = (r, s')" by fastforce
  have r: "r = None" using demoWrite_stripped run by auto
  have "calls s' = calls (demoSys [strippedSecret] []) @ calls s'" by (simp add: demoSys_def)
  from writer_result [OF refEnv_ownerRefLaws run this] r run show ?thesis by simp
qed

text \<open>
  The writer never fights an immutable Secret: an Update it sends leaves the immutable flag of
  the Secret it read as it was, and when that Secret was immutable its data are unchanged.
\<close>

lemma writer_respects_immutable:
  assumes "ownerRefLaws E"
    and "run_state (CreateOrUpdate E w ctx owner ns name dataKey value version) s = (r, s')"
    and "calls s' = calls s @ pre @ CGetSecret cl c' key (Inr base) # CUpdateSecret c secret res # post"
  shows "sec_Immutable secret = sec_Immutable base
    \<and> (sec_Immutable base = Some True \<longrightarrow> sec_Data secret = sec_Data base)"
proof -
  have "obeys (writerStep E owner ns name dataKey value version) None
      ((pre @ [CGetSecret cl c' key (Inr base)]) @ CUpdateSecret c secret res # post)"
    using writer_run(1) [OF assms(2,3)] by simp
  from obeys_split [OF this]
  have base: "\<not> immutableBlocksWrite base dataKey value"
    "stamped E owner dataKey value version base secret"
    by (auto simp: writerStep_def)
  obtain refs where
    "secret = (populateManagedSecret base owner dataKey value version)\<lparr>sec_Meta :=
       (sec_Meta (populateManagedSecret base owner dataKey value version))\<lparr>
         om_OwnerReferences := refs\<rparr>\<rparr>"
    using assms(1) base(2) by (rule ownerRefLaws_stamped)
  with base(1) show ?thesis
    by (auto simp: populateManagedSecret_def immutableBlocksWrite_def managedSecretDataMatches_iff)
qed

text \<open>
  (C23) A terminal write error is backed by evidence. When the writer answers with the immutable
  sentinel, its last call read a Secret that is immutable and holds other data; when it answers
  with the conflict sentinel, its last call read a Secret that is not writable for the owner or
  that SetControllerReference refused as owned by someone else. Neither is ever concluded from an
  API error alone.
\<close>

theorem writer_terminal_evidence:
  assumes "clientErrorLaws E"
    and "run_state (CreateOrUpdate E w ctx owner ns name dataKey value version) s = (Some e, s')"
    and "calls s' = calls s @ new"
    and "isTargetError e"
  shows "\<exists>pre cl c' key cur. new = pre @ [CGetSecret cl c' key (Inr cur)]
    \<and> (errors_Is e ErrTargetImmutable \<longrightarrow> immutableBlocksWrite cur dataKey value)
    \<and> (errors_Is e ErrTargetConflict \<longrightarrow> conflicting E owner dataKey value version cur)"
proof -
  have res: "writerResult E owner dataKey value version (Some e) (lastOf None new)"
    by (rule writer_run(2) [OF assms(2,3)])
  then obtain cur where "readOf cur (lastOf None new)"
    using assms(1,4) by (auto simp: writerResult_def isTargetError_def)
  then obtain cl c' key where "lastOf None new = Some (CGetSecret cl c' key (Inr cur))"
    by (auto simp: readOf_def)
  then obtain pre where new: "new = pre @ [CGetSecret cl c' key (Inr cur)]"
    by (cases new rule: rev_cases) (auto simp: lastOf_def split: if_splits)
  with res assms(1) show ?thesis by (auto simp: writerResult_def readOf_def)
qed

theorem writer_terminal_evidence_witness:
  "\<exists>e. fst (demoWrite [foreignSecret]) = Some e \<and> errors_Is e ErrTargetConflict
    \<and> (\<exists>pre cl c' key cur. calls (snd (demoWrite [foreignSecret])) = pre @ [CGetSecret cl c' key (Inr cur)]
        \<and> conflicting refEnv demoSync ''k'' ''new'' ''v2'' cur)"
proof -
  obtain e where e: "fst (demoWrite [foreignSecret]) = Some e" "errors_Is e ErrTargetConflict"
    by (simp add: demo_run_defs)
  then obtain s' where run: "demoWrite [foreignSecret] = (Some e, s')"
    by (metis prod.collapse)
  have "calls s' = calls (demoSys [foreignSecret] []) @ calls s'" by (simp add: demoSys_def)
  from writer_terminal_evidence [OF refEnv_clientErrorLaws run this] e run
  show ?thesis by (auto simp: isTargetError_def)
qed

text \<open>
  Recovery is bounded. Whatever the cluster answers, one invocation of the writer makes at
  most six API calls, at most one Create and at most two Updates among them: it re-reads and
  retries once, it never loops.
\<close>

lemma writer_bounded:
  assumes "run_state (CreateOrUpdate E w ctx owner ns name dataKey value version) s = (r, s')"
    and "calls s' = calls s @ new"
  shows "length new \<le> 6
    \<and> length (filter isSecretCreate new) \<le> 1 \<and> length (filter isSecretUpdate new) \<le> 2"
proof -
  have cost: "sum_list (map (writerWeight g k u) new) \<le> 3 * g + k + 2 * u" for g k u
    by (rule costs_run [OF costs_CreateOrUpdate assms])
  have "length new = sum_list (map (writerWeight 1 1 1) new)"
    using emits_run [OF emits_writer assms] by (rule emits_writer_length)
  then show ?thesis
    using cost [of 1 1 1] cost [of 0 1 0] cost [of 0 0 1] unfolding weight_count by simp
qed

end
