(* ===== verification/Sync_Engine.thy ===== *)
theory Sync_Engine
  imports Secret_Writer
begin

text \<open>
  \<open>internal/sync/engine.go\<close>: \<open>Engine.Sync\<close> decides, from a declaration and the current target
  Secret, what the status and the Secret should be. It reads the vault through \<open>SecretReader\<close>,
  an interface value that is an argument here (\<open>None\<close> is the nil interface), and does nothing
  else: on every failure the Secret it returns is the one it was given.

  The lemmas give the outcome of every branch, that a failure keeps the last known good value,
  that nothing of the secret value or of an upstream error's text reaches the status, and that a
  second run over the engine's own output changes nothing.
\<close>

section \<open>Reasons\<close>

abbreviation ReasonSecretNotFound :: string where
  "ReasonSecretNotFound \<equiv> ''SecretNotFound''"
abbreviation ReasonAccessDenied :: string where
  "ReasonAccessDenied \<equiv> ''AccessDenied''"
abbreviation ReasonAuthenticationFailed :: string where
  "ReasonAuthenticationFailed \<equiv> ''AuthenticationFailed''"
abbreviation ReasonSourceDeleted :: string where
  "ReasonSourceDeleted \<equiv> ''SourceDeleted''"
abbreviation ReasonSourceDisabled :: string where
  "ReasonSourceDisabled \<equiv> ''SourceDisabled''"
abbreviation ReasonTransientError :: string where
  "ReasonTransientError \<equiv> ''TransientError''"
abbreviation secretSyncKind :: string where
  "secretSyncKind \<equiv> ''SecretSync''"

section \<open>The engine\<close>

text \<open>\<open>azure.SecretReader\<close>: \<open>GetLatest ctx vaultName secretName\<close> returns the value and its
  version, or an error.\<close>

type_synonym 'w SecretReader = "goctx \<Rightarrow> string \<Rightarrow> string \<Rightarrow> 'w \<Rightarrow> (goerr + string \<times> string) \<times> 'w"

record 'w Engine =
  eng_Reader :: "'w SecretReader option"

definition getLatest ::
    "'w SecretReader \<Rightarrow> goctx \<Rightarrow> string \<Rightarrow> string \<Rightarrow> ('w sys, goerr + string \<times> string) state" where
  "getLatest rd ctx vaultName secretName =
     perform (CGetLatest ctx vaultName secretName) (rd ctx vaultName secretName)"

definition controllerOwnerReference :: "SecretSync \<Rightarrow> OwnerReference" where
  "controllerOwnerReference owner =
     \<lparr>or_APIVersion = GroupVersion, or_Kind = secretSyncKind, or_Name = ss_Name owner,
      or_UID = ss_UID owner, or_Controller = Some True, or_BlockOwnerDeletion = Some True\<rparr>"

definition classifyReaderError ::
    "unicode \<Rightarrow> goerr \<Rightarrow> SecretSync \<Rightarrow> bool \<Rightarrow> string \<times> string" where
  "classifyReaderError u err owner managed =
     (let vault = vault_Name (spec_Vault (ss_Spec owner));
          secretName = vault_Secret (spec_Vault (ss_Spec owner)) in
      if errors_Is err ErrSecretNotFound then
        (if managed
         then (ReasonSourceDeleted, ''secret '' @ quote u secretName @ '' in vault '' @ quote u vault
                 @ '' no longer exists; keeping last synced value'')
         else (ReasonSecretNotFound,
                 ''secret '' @ quote u secretName @ '' not found in vault '' @ quote u vault))
      else if errors_Is err ErrSecretDisabled then
        (if managed
         then (ReasonSourceDisabled, ''secret '' @ quote u secretName @ '' in vault '' @ quote u vault
                 @ '' is disabled; keeping last synced value'')
         else (ReasonSourceDisabled, ''secret '' @ quote u secretName @ '' in vault '' @ quote u vault
                 @ '' is disabled''))
      else if errors_Is err ErrAccessDenied then
        (ReasonAccessDenied,
           ''access denied reading secret '' @ quote u secretName @ '' from vault '' @ quote u vault)
      else if errors_Is err ErrAuthFailure then
        (ReasonAuthenticationFailed,
           ''could not authenticate to Azure to read secret '' @ quote u secretName
             @ '' from vault '' @ quote u vault)
      else if errors_Is err ErrTransient then
        (ReasonTransientError,
           ''transient error reading secret '' @ quote u secretName @ '' from vault '' @ quote u vault)
      else
        (ReasonTransientError,
           ''unclassified error reading secret '' @ quote u secretName @ '' from vault ''
             @ quote u vault))"

text \<open>The status every path of \<open>Sync\<close> starts from, and the three ways it ends.\<close>

definition baseStatus :: "SecretSync \<Rightarrow> SecretSyncStatus" where
  "baseStatus owner =
     zeroStatus\<lparr>st_ObservedGeneration := om_Generation (ss_Meta owner),
       st_LastSyncTime := st_LastSyncTime (ss_Status owner),
       st_SyncedVersion := st_SyncedVersion (ss_Status owner)\<rparr>"

definition failingStatus :: "SecretSyncStatus \<Rightarrow> string \<Rightarrow> string \<Rightarrow> SecretSyncStatus" where
  "failingStatus status reason message =
     status\<lparr>st_State := SecretSyncStateFailing, st_Reason := reason, st_Message := message\<rparr>"

definition inSyncStatus :: "SecretSyncStatus \<Rightarrow> string \<Rightarrow> time \<Rightarrow> SecretSyncStatus" where
  "inSyncStatus status version t =
     status\<lparr>st_State := SecretSyncStateInSync, st_SyncedVersion := version, st_LastSyncTime := t\<rparr>"

definition Sync ::
    "'w env \<Rightarrow> 'w Engine \<Rightarrow> goctx \<Rightarrow> SecretSync \<Rightarrow> Secret option
     \<Rightarrow> ('w sys, SecretSyncStatus \<times> Secret option \<times> goerr option) state" where
  "Sync E e ctx owner existing =
     (case eng_Reader e of
        None \<Rightarrow> State_Monad.return (zeroStatus, existing,
          Some (errors_New ''kvsynk8s: sync engine has no SecretReader configured''))
      | Some rd \<Rightarrow>
     (let dataKey = (if target_DataKey (spec_Target (ss_Spec owner)) = []
                     then vault_Secret (spec_Vault (ss_Spec owner))
                     else target_DataKey (spec_Target (ss_Spec owner)));
          targetName = (if target_SecretName (spec_Target (ss_Spec owner)) = [] then ss_Name owner
                        else target_SecretName (spec_Target (ss_Spec owner)));
          status = baseStatus owner;
          labeled = (case existing of None \<Rightarrow> False
             | Some x \<Rightarrow> sec_Label x LabelManagedBy = LabelManagedByValue);
          ownedByOther = (case existing of None \<Rightarrow> False
             | Some x \<Rightarrow> (case env_GetControllerOf E x of None \<Rightarrow> False
                | Some ref \<Rightarrow> or_UID ref \<noteq> ss_UID owner));
          managed = (labeled \<and> (case existing of None \<Rightarrow> False
             | Some x \<Rightarrow> ControllerOwnedBy E x owner)) in
      if existing \<noteq> None \<and> \<not> labeled then
        State_Monad.return
          (failingStatus status ReasonTargetConflict
             (''secret '' @ nsname (ss_Namespace owner) targetName
                @ '' already exists and is not managed by kvsynk8s''), existing, None)
      else if labeled \<and> ownedByOther then
        State_Monad.return
          (failingStatus status ReasonTargetConflict
             (''secret '' @ nsname (ss_Namespace owner) targetName
                @ '' is already owned by another SecretSync''), existing, None)
      else do {
        got \<leftarrow> getLatest rd ctx (vault_Name (spec_Vault (ss_Spec owner)))
                  (vault_Secret (spec_Vault (ss_Spec owner)));
        (case got of
           Inl err \<Rightarrow>
             (case classifyReaderError (env_unicode E) err owner managed of (reason, message) \<Rightarrow>
                State_Monad.return (failingStatus status reason message, existing, None))
         | Inr (value, version) \<Rightarrow>
             if managed \<and> (case existing of None \<Rightarrow> False
                  | Some x \<Rightarrow> sec_Annotation x AnnotationVersion = version
                      \<and> managedSecretDataMatches x dataKey value)
             then do {
               t \<leftarrow> now E;
               State_Monad.return (inSyncStatus status version t, existing, None) }
             else do {
               let secret = (case existing of Some x \<Rightarrow> x
                    | None \<Rightarrow> newSecret (ss_Namespace owner) targetName);
               let secret = populateManagedSecret secret owner dataKey value version;
               let secret = secret\<lparr>sec_Meta :=
                    (sec_Meta secret)\<lparr>om_OwnerReferences := [controllerOwnerReference owner]\<rparr>\<rparr>;
               t \<leftarrow> now E;
               State_Monad.return (inSyncStatus status version t, Some secret, None) })}))"

section \<open>Specification vocabulary\<close>

text \<open>\<open>resolveTargetName\<close> and \<open>resolveDataKey\<close> of \<open>secretsync_controller.go\<close>: the controller's
  copies of the two defaulting rules. The engine's lemmas are stated with them.\<close>

definition resolveTargetName :: "SecretSync \<Rightarrow> string" where
  "resolveTargetName ss =
     (if target_SecretName (spec_Target (ss_Spec ss)) \<noteq> []
      then target_SecretName (spec_Target (ss_Spec ss)) else ss_Name ss)"

definition resolveDataKey :: "SecretSync \<Rightarrow> string" where
  "resolveDataKey ss =
     (if target_DataKey (spec_Target (ss_Spec ss)) \<noteq> []
      then target_DataKey (spec_Target (ss_Spec ss)) else vault_Secret (spec_Vault (ss_Spec ss)))"

text \<open>A Secret some other party holds: unlabelled, or controlled by another object.\<close>

definition foreign :: "'w env \<Rightarrow> SecretSync \<Rightarrow> Secret \<Rightarrow> bool" where
  "foreign E owner x \<longleftrightarrow>
     sec_Label x LabelManagedBy \<noteq> LabelManagedByValue
     \<or> (\<exists>ref. env_GetControllerOf E x = Some ref \<and> or_UID ref \<noteq> ss_UID owner)"

text \<open>A Secret that is verifiably a prior write of the owner.\<close>

definition managedBy :: "'w env \<Rightarrow> SecretSync \<Rightarrow> Secret \<Rightarrow> bool" where
  "managedBy E owner x \<longleftrightarrow>
     sec_Label x LabelManagedBy = LabelManagedByValue \<and> ControllerOwnedBy E x owner"

text \<open>A Secret that holds the value at the version, as the owner's.\<close>

definition upToDate :: "'w env \<Rightarrow> SecretSync \<Rightarrow> string \<Rightarrow> string \<Rightarrow> Secret \<Rightarrow> bool" where
  "upToDate E owner value version x \<longleftrightarrow>
     managedBy E owner x \<and> sec_Annotation x AnnotationVersion = version
     \<and> sec_Data x = fmupd (resolveDataKey owner) value fmempty"

definition adopted :: "SecretSync \<Rightarrow> string \<Rightarrow> string \<Rightarrow> Secret option \<Rightarrow> Secret" where
  "adopted owner value version existing =
     (let secret = populateManagedSecret
            (case existing of Some x \<Rightarrow> x
              | None \<Rightarrow> newSecret (ss_Namespace owner) (resolveTargetName owner))
            owner (resolveDataKey owner) value version in
      secret\<lparr>sec_Meta := (sec_Meta secret)\<lparr>
        om_OwnerReferences := [controllerOwnerReference owner]\<rparr>\<rparr>)"

text \<open>\<open>metav1.GetControllerOf\<close> finds the only owner reference when it is a controller reference.\<close>

definition controllerOfLaw :: "'w env \<Rightarrow> bool" where
  "controllerOfLaw E \<longleftrightarrow>
     (\<forall>s ref. om_OwnerReferences (sec_Meta s) = [ref] \<and> or_Controller ref = Some True \<longrightarrow>
        env_GetControllerOf E s = Some ref)"

text \<open>Two vault answers that agree on everything that is not secret: the same version, or errors
  that wrap the same sentinels.\<close>

fun publiclyEqual :: "goerr + string \<times> string \<Rightarrow> goerr + string \<times> string \<Rightarrow> bool" where
  "publiclyEqual (Inr (value, version)) (Inr (value', version')) = (version = version')"
| "publiclyEqual (Inl e) (Inl e') =
     list_all (\<lambda>t. errors_Is e t = errors_Is e' t)
       [ErrSecretNotFound, ErrSecretDisabled, ErrAccessDenied, ErrAuthFailure, ErrTransient]"
| "publiclyEqual _ _ = False"

section \<open>Lemmas\<close>

text \<open>One equation per way \<open>Sync\<close> can end.\<close>

lemma Sync_no_reader:
  "eng_Reader e = None \<Longrightarrow> run_state (Sync E e ctx owner existing) s =
     ((zeroStatus, existing,
       Some (errors_New ''kvsynk8s: sync engine has no SecretReader configured'')), s)"
  by (simp add: Sync_def)

lemma Sync_foreign:
  assumes "eng_Reader e = Some rd" and "foreign E owner x"
  shows "\<exists>message. message \<noteq> [] \<and> run_state (Sync E e ctx owner (Some x)) s =
     ((failingStatus (baseStatus owner) ReasonTargetConflict message, Some x, None), s)"
  using assms by (auto simp: Sync_def foreign_def Let_def)

lemma Sync_read:
  assumes "eng_Reader e = Some rd" and "\<And>x. existing = Some x \<Longrightarrow> \<not> foreign E owner x"
    and "rd ctx (vault_Name (spec_Vault (ss_Spec owner))) (vault_Secret (spec_Vault (ss_Spec owner)))
           (world s) = (got, w')"
  shows "run_state (Sync E e ctx owner existing) s =
     (let s1 = s\<lparr>world := w', calls := calls s @ [CGetLatest ctx (vault_Name (spec_Vault (ss_Spec owner)))
             (vault_Secret (spec_Vault (ss_Spec owner))) got]\<rparr> in
      case got of
        Inl err \<Rightarrow>
          (case classifyReaderError (env_unicode E) err owner
                  (\<exists>x. existing = Some x \<and> managedBy E owner x) of
             (reason, message) \<Rightarrow>
               ((failingStatus (baseStatus owner) reason message, existing, None), s1))
      | Inr (value, version) \<Rightarrow>
          (case env_Now E w' of (t, w'') \<Rightarrow>
             ((inSyncStatus (baseStatus owner) version t,
               if (\<exists>x. existing = Some x \<and> upToDate E owner value version x) then existing
               else Some (adopted owner value version existing), None), s1\<lparr>world := w''\<rparr>)))"
proof -
  have label: "sec_Label x LabelManagedBy = LabelManagedByValue" if "existing = Some x" for x
    using assms(2) [OF that] by (auto simp: foreign_def)
  have own: "or_UID ref = ss_UID owner" if "existing = Some x" "env_GetControllerOf E x = Some ref" for x ref
    using assms(2) [OF that(1)] that(2) by (auto simp: foreign_def)
  show ?thesis
    using assms(1,3) label own
    by (cases existing)
      (auto simp: Sync_def Let_def getLatest_def perform_def now_def managedBy_def upToDate_def
        managedSecretDataMatches_iff adopted_def resolveDataKey_def resolveTargetName_def
        ControllerOwnedBy_def split: sum.splits option.splits prod.splits)
qed

text \<open>The same as an elimination rule: every run of \<open>Sync\<close> ends in one of four ways.\<close>

abbreviation vaultCall :: "goctx \<Rightarrow> SecretSync \<Rightarrow> goerr + string \<times> string \<Rightarrow> call" where
  "vaultCall ctx owner got \<equiv> CGetLatest ctx (vault_Name (spec_Vault (ss_Spec owner)))
     (vault_Secret (spec_Vault (ss_Spec owner))) got"

lemma Sync_cases:
  assumes "run_state (Sync E e ctx owner existing) s = ((status, secret, err), s')"
  obtains
    (no_reader) "eng_Reader e = None" "status = zeroStatus" "secret = existing" "s' = s"
      "err = Some (errors_New ''kvsynk8s: sync engine has no SecretReader configured'')"
  | (conflict) x message where "existing = Some x" "foreign E owner x" "secret = existing"
      "err = None" "s' = s" "message \<noteq> []"
      "status = failingStatus (baseStatus owner) ReasonTargetConflict message"
  | (failed) e' where "err = None" "secret = existing"
      "\<And>x. existing = Some x \<Longrightarrow> \<not> foreign E owner x"
      "calls s' = calls s @ [vaultCall ctx owner (Inl e')]"
      "status = (case classifyReaderError (env_unicode E) e' owner
          (\<exists>x. existing = Some x \<and> managedBy E owner x) of (reason, message) \<Rightarrow>
          failingStatus (baseStatus owner) reason message)"
  | (synced) "value" version t where "err = None"
      "\<And>x. existing = Some x \<Longrightarrow> \<not> foreign E owner x"
      "calls s' = calls s @ [vaultCall ctx owner (Inr (value, version))]"
      "status = inSyncStatus (baseStatus owner) version t"
      "secret = (if (\<exists>x. existing = Some x \<and> upToDate E owner value version x) then existing
         else Some (adopted owner value version existing))"
proof (cases "eng_Reader e")
  case None
  with assms show thesis by (auto simp: Sync_no_reader intro: no_reader)
next
  case (Some rd)
  show thesis
  proof (cases "\<exists>x. existing = Some x \<and> foreign E owner x")
    case True
    then obtain x where x: "existing = Some x" "foreign E owner x" by blast
    from Sync_foreign [OF Some x(2), of ctx s] assms x show thesis by (auto intro: conflict)
  next
    case False
    then have ours: "\<And>x. existing = Some x \<Longrightarrow> \<not> foreign E owner x" by blast
    obtain got w' where got: "rd ctx (vault_Name (spec_Vault (ss_Spec owner)))
        (vault_Secret (spec_Vault (ss_Spec owner))) (world s) = (got, w')" by fastforce
    note run = Sync_read [where existing = existing, OF Some ours got, unfolded assms Let_def]
    show thesis
    proof (cases got)
      case (Inl e')
      with run ours show thesis by (intro failed [of e']) (auto split: prod.splits)
    next
      case (Inr p)
      obtain "value" version where p: "p = (value, version)" by fastforce
      obtain t w'' where "env_Now E w' = (t, w'')" by fastforce
      with run Inr p ours show thesis by (intro synced [of "value" version t]) auto
    qed
  qed
qed

lemma adopted_shape:
  "managedShape owner (resolveDataKey owner) value version (adopted owner value version existing)"
  by (simp add: adopted_def Let_def managedShape_def populateManagedSecret_def)

lemma adopted_owned:
  assumes "controllerOfLaw E"
  shows "ControllerOwnedBy E (adopted owner value version existing) owner"
proof -
  have "om_OwnerReferences (sec_Meta (adopted owner value version existing)) = [controllerOwnerReference owner]"
    by (simp add: adopted_def Let_def)
  then have "env_GetControllerOf E (adopted owner value version existing) = Some (controllerOwnerReference owner)"
    using assms [unfolded controllerOfLaw_def, rule_format] by (simp add: controllerOwnerReference_def)
  then show ?thesis by (simp add: ControllerOwnedBy_def controllerOwnerReference_def)
qed

lemma adopted_upToDate:
  "controllerOfLaw E \<Longrightarrow> upToDate E owner value version (adopted owner value version existing)"
  using adopted_shape [of owner "value" version existing] adopted_owned [of E owner "value" version existing]
  by (simp add: upToDate_def managedBy_def managedShape_def)

lemma upToDate_not_foreign: "upToDate E owner value version x \<Longrightarrow> \<not> foreign E owner x"
  by (auto simp: upToDate_def managedBy_def foreign_def ControllerOwnedBy_def)

lemma classifyReaderError_cong:
  assumes "publiclyEqual (Inl e) (Inl e')"
  shows "classifyReaderError u e owner managed = classifyReaderError u e' owner managed"
proof -
  have "errors_Is e ErrSecretNotFound = errors_Is e' ErrSecretNotFound"
    "errors_Is e ErrSecretDisabled = errors_Is e' ErrSecretDisabled"
    "errors_Is e ErrAccessDenied = errors_Is e' ErrAccessDenied"
    "errors_Is e ErrAuthFailure = errors_Is e' ErrAuthFailure"
    "errors_Is e ErrTransient = errors_Is e' ErrTransient"
    using assms by (auto simp del: errors_Is.simps)
  then show ?thesis unfolding classifyReaderError_def by (simp only:)
qed

lemma upToDate_cong:
  "ss_Spec owner' = ss_Spec owner \<Longrightarrow> ss_UID owner' = ss_UID owner \<Longrightarrow>
   upToDate E owner' value version x = upToDate E owner value version x"
  by (simp add: upToDate_def managedBy_def ControllerOwnedBy_def resolveDataKey_def
      cong: option.case_cong)

lemmas status_defs = failingStatus_def inSyncStatus_def baseStatus_def zeroStatus_def

lemma status_simps [simp]:
  "st_State (failingStatus st r m) = SecretSyncStateFailing"
  "st_Reason (failingStatus st r m) = r"
  "st_Message (failingStatus st r m) = m"
  "st_LastSyncTime (failingStatus st r m) = st_LastSyncTime st"
  "st_SyncedVersion (failingStatus st r m) = st_SyncedVersion st"
  "st_ObservedGeneration (failingStatus st r m) = st_ObservedGeneration st"
  "st_State (inSyncStatus st v t) = SecretSyncStateInSync"
  "st_SyncedVersion (inSyncStatus st v t) = v"
  "st_LastSyncTime (inSyncStatus st v t) = t"
  "st_Reason (inSyncStatus st v t) = st_Reason st"
  "st_Message (inSyncStatus st v t) = st_Message st"
  "st_ObservedGeneration (inSyncStatus st v t) = st_ObservedGeneration st"
  "st_LastSyncTime (baseStatus owner) = st_LastSyncTime (ss_Status owner)"
  "st_SyncedVersion (baseStatus owner) = st_SyncedVersion (ss_Status owner)"
  "st_ObservedGeneration (baseStatus owner) = om_Generation (ss_Meta owner)"
  "st_Reason (baseStatus owner) = []" "st_Message (baseStatus owner) = []"
  by (simp_all add: status_defs)

section \<open>The reference cluster\<close>

lemma refEnv_controllerOfLaw: "controllerOfLaw refEnv"
  by (auto simp: controllerOfLaw_def refGetControllerOf_def isController_def)

text \<open>A vault that holds one value, and one that answers every read with the same error.\<close>

definition holding :: "string \<Rightarrow> string \<Rightarrow> cluster SecretReader" where
  "holding value version ctx vaultName secretName w = (Inr (value, version), w)"

definition refusing :: "goerr \<Rightarrow> cluster SecretReader" where
  "refusing e ctx vaultName secretName w = (Inl e, w)"

lemma Sync_holding:
  assumes "\<And>x. existing = Some x \<Longrightarrow> \<not> foreign refEnv owner x"
  shows "\<exists>s'. run_state (Sync refEnv \<lparr>eng_Reader = Some (holding v n)\<rparr> ctx owner existing) s =
     ((inSyncStatus (baseStatus owner) n (cl_Clock (world s)),
       if (\<exists>x. existing = Some x \<and> upToDate refEnv owner v n x) then existing
       else Some (adopted owner v n existing), None), s')"
  by (subst Sync_read [where rd = "holding v n" and got = "Inr (v, n)" and w' = "world s"])
    (auto simp: assms holding_def refNow_def)

lemma Sync_refusing:
  "\<exists>s' reason message. run_state (Sync refEnv \<lparr>eng_Reader = Some (refusing e)\<rparr> ctx owner None) s =
     ((failingStatus (baseStatus owner) reason message, None, None), s')"
  by (subst Sync_read [where rd = "refusing e" and got = "Inl e" and w' = "world s"])
    (auto simp: refusing_def split: prod.split)

section \<open>Properties\<close>

text \<open>
  (C7) Keep last known good (FR-013). Whenever \<open>Sync\<close> does not end InSync, the Secret it returns is
  exactly the one it was given (a missing one stays missing); and when it ends Failing, the last
  sync time and the synced version it reports are those of the previous status, so the version the
  untouched Secret reflects is still the one shown. The only error it returns is the missing
  reader, and then nothing was called.
\<close>

theorem engine_keeps_last_good:
  assumes "run_state (Sync E e ctx owner existing) s = ((status, secret, err), s')"
  shows "(st_State status \<noteq> SecretSyncStateInSync \<longrightarrow> secret = existing)
    \<and> (err \<noteq> None \<longleftrightarrow> eng_Reader e = None) \<and> (err \<noteq> None \<longrightarrow> s' = s)
    \<and> (err = None \<longrightarrow> st_State status \<in> {SecretSyncStateInSync, SecretSyncStateFailing})
    \<and> (st_State status = SecretSyncStateFailing \<longrightarrow>
         st_LastSyncTime status = st_LastSyncTime (ss_Status owner)
         \<and> st_SyncedVersion status = st_SyncedVersion (ss_Status owner)
         \<and> st_Reason status \<noteq> [] \<and> st_Message status \<noteq> [])"
proof -
  have reader: "eng_Reader e \<noteq> None" if "err = None"
    using that assms by (cases "eng_Reader e") (auto simp: Sync_no_reader)
  from assms reader show ?thesis
    by (cases rule: Sync_cases)
      (auto simp: zeroStatus_def Sync_def classifyReaderError_def Let_def split: if_splits)
qed

theorem engine_keeps_last_good_witness:
  "\<exists>status s'. run_state (Sync refEnv \<lparr>eng_Reader = Some (refusing (Sentinel ErrSecretNotFound))\<rparr>
        RootCtx demoSync None) (demoSys [] []) = ((status, None, None), s')
     \<and> st_SyncedVersion status = st_SyncedVersion (ss_Status demoSync) \<and> st_Reason status \<noteq> []"
proof -
  obtain s' reason message where run: "run_state (Sync refEnv
      \<lparr>eng_Reader = Some (refusing (Sentinel ErrSecretNotFound))\<rparr> RootCtx demoSync None) (demoSys [] [])
      = ((failingStatus (baseStatus demoSync) reason message, None, None), s')"
    using Sync_refusing by metis
  from engine_keeps_last_good [OF this] run show ?thesis by simp
qed

text \<open>
  First writer wins in the engine (FR-012). Given an existing target that carries no managed-by
  label, or that another object controls, \<open>Sync\<close> answers Failing/TargetConflict, returns the Secret
  untouched, and makes no call at all: a losing declaration never reads the vault.
\<close>

lemma engine_conflict_reads_nothing:
  assumes "foreign E owner x" and "eng_Reader e \<noteq> None"
    and "run_state (Sync E e ctx owner (Some x)) s = ((status, secret, err), s')"
  shows "s' = s \<and> secret = Some x \<and> err = None \<and> st_State status = SecretSyncStateFailing
    \<and> st_Reason status = ReasonTargetConflict"
  using assms(3,1,2) by (cases rule: Sync_cases) auto

text \<open>
  What InSync promises (FR-005, latest wins). \<open>Sync\<close> answers InSync only after exactly one vault
  read of the declared vault and secret returned a value and a version; the status carries that
  version, no reason and no message; and the Secret it returns is the owner's: labelled, controlled
  by it, with the version annotation and exactly the value under the resolved data key. An existing
  Secret that already had all of this is returned unchanged; otherwise the returned one has the
  full managed shape, and keeps the name, namespace and immutable flag of the existing one.
\<close>

lemma engine_insync:
  assumes "controllerOfLaw E"
    and "run_state (Sync E e ctx owner existing) s = ((status, secret, err), s')"
    and "st_State status = SecretSyncStateInSync"
  shows "\<exists>value version x.
      calls s' = calls s @ [vaultCall ctx owner (Inr (value, version))]
    \<and> st_SyncedVersion status = version \<and> st_Reason status = [] \<and> st_Message status = []
    \<and> secret = Some x \<and> upToDate E owner value version x
    \<and> (secret = existing \<or> managedShape owner (resolveDataKey owner) value version x
         \<and> sec_Name x = (case existing of Some y \<Rightarrow> sec_Name y | None \<Rightarrow> resolveTargetName owner)
         \<and> sec_Namespace x = (case existing of Some y \<Rightarrow> sec_Namespace y | None \<Rightarrow> ss_Namespace owner)
         \<and> sec_Immutable x = (case existing of Some y \<Rightarrow> sec_Immutable y | None \<Rightarrow> None))"
  using assms(2)
proof (cases rule: Sync_cases)
  case (synced "value" version t)
  have "sec_Name (adopted owner value version existing) =
      (case existing of Some y \<Rightarrow> sec_Name y | None \<Rightarrow> resolveTargetName owner)"
    "sec_Namespace (adopted owner value version existing) =
      (case existing of Some y \<Rightarrow> sec_Namespace y | None \<Rightarrow> ss_Namespace owner)"
    "sec_Immutable (adopted owner value version existing) =
      (case existing of Some y \<Rightarrow> sec_Immutable y | None \<Rightarrow> None)"
    by (auto simp: adopted_def Let_def populateManagedSecret_def newSecret_def split: option.split)
  with synced adopted_upToDate [OF assms(1)] adopted_shape show ?thesis by auto
qed (use assms(3) in \<open>auto simp: zeroStatus_def split: prod.splits\<close>)

text \<open>
  The engine is idempotent (FR-005). Run on the Secret of an InSync run, for the same
  declaration (its status may have changed) and with the vault still at the same value and version,
  \<open>Sync\<close> ends InSync and returns that very Secret: there is nothing left to write.
\<close>

lemma engine_idempotent:
  assumes "controllerOfLaw E"
    and "run_state (Sync E e ctx owner existing) s = ((status, Some x, err), s')"
    and "calls s' = calls s @ [vaultCall ctx owner (Inr (value, version))]"
    and "ss_Spec owner' = ss_Spec owner" and "ss_UID owner' = ss_UID owner"
    and "run_state (Sync E e ctx' owner' (Some x)) s2 = ((status', secret', err'), s2')"
    and "rd ctx' (vault_Name (spec_Vault (ss_Spec owner))) (vault_Secret (spec_Vault (ss_Spec owner)))
           (world s2) = (Inr (value, version), w2)" and "eng_Reader e = Some rd"
  shows "secret' = Some x \<and> st_State status' = SecretSyncStateInSync
    \<and> st_SyncedVersion status' = version \<and> err' = None"
proof -
  have x: "upToDate E owner value version x"
    using assms(2)
  proof (cases rule: Sync_cases)
    case (synced value' version' t)
    then show ?thesis using assms(3) adopted_upToDate [OF assms(1), of owner] by (auto split: if_splits)
  qed (use assms(3,8) in auto)
  then have x': "upToDate E owner' value version x" using upToDate_cong [OF assms(4,5)] by blast
  have ours: "\<not> foreign E owner' y" if "Some x = Some y" for y
    using upToDate_not_foreign [OF x'] that by simp
  obtain t w3 where t: "env_Now E w2 = (t, w3)" by fastforce
  have rd: "rd ctx' (vault_Name (spec_Vault (ss_Spec owner'))) (vault_Secret (spec_Vault (ss_Spec owner')))
      (world s2) = (Inr (value, version), w2)" using assms(4,7) by simp
  have "\<exists>s3. run_state (Sync E e ctx' owner' (Some x)) s2 =
      ((inSyncStatus (baseStatus owner') version t, Some x, None), s3)"
    using Sync_read [where existing = "Some x" and rd = rd, OF assms(8) ours rd] t x' by simp
  with assms(6) show ?thesis by auto
qed

text \<open>
  (C20) No secret reaches the status (constitution I, FR-010). The status depends on the vault's
  answer only through its public part: whatever the value, and whatever the text or the structure
  of an upstream error beyond the sentinels it wraps, the status is the same.
\<close>

theorem engine_status_public:
  assumes "rd ctx (vault_Name (spec_Vault (ss_Spec owner))) (vault_Secret (spec_Vault (ss_Spec owner)))
           (world s) = (got, w')"
    and "rd' ctx (vault_Name (spec_Vault (ss_Spec owner))) (vault_Secret (spec_Vault (ss_Spec owner)))
           (world s) = (got', w')"
    and "publiclyEqual got got'"
  shows "fst (fst (run_state (Sync E \<lparr>eng_Reader = Some rd\<rparr> ctx owner existing) s)) =
    fst (fst (run_state (Sync E \<lparr>eng_Reader = Some rd'\<rparr> ctx owner existing) s))"
proof (cases "\<exists>x. existing = Some x \<and> foreign E owner x")
  case True
  then show ?thesis by (auto simp: Sync_def foreign_def Let_def)
next
  case False
  then have ours: "\<And>x. existing = Some x \<Longrightarrow> \<not> foreign E owner x" by blast
  have e: "eng_Reader \<lparr>eng_Reader = Some r\<rparr> = Some r" for r :: "'a SecretReader" by simp
  note run = Sync_read [where existing = existing and rd = rd, OF e ours assms(1)]
    and run' = Sync_read [where existing = existing and rd = rd', OF e ours assms(2)]
  from assms(3) show ?thesis
  proof (cases rule: publiclyEqual.elims(2))
    case (2 e e')
    then have "publiclyEqual (Inl e) (Inl e')" using assms(3) by simp
    from classifyReaderError_cong [OF this] show ?thesis
      using 2 by (simp add: run run' Let_def split: prod.split)
  qed (auto simp: run run' Let_def split: prod.split)
qed

theorem engine_status_public_witness:
  "fst (fst (run_state (Sync refEnv \<lparr>eng_Reader = Some (holding ''hunter2'' ''1'')\<rparr> RootCtx demoSync None)
      (demoSys [] []))) =
   fst (fst (run_state (Sync refEnv \<lparr>eng_Reader = Some (holding ''swordfish'' ''1'')\<rparr> RootCtx demoSync None)
      (demoSys [] [])))"
  by (rule engine_status_public [where got = "Inr (''hunter2'', ''1'')" and got' = "Inr (''swordfish'', ''1'')"
        and w' = "world (demoSys [] [])"]) (simp_all add: holding_def)

end
