(* ===== verification/Secretsync_Controller.thy ===== *)
theory Secretsync_Controller
  imports Sync_Engine
begin

text \<open>
  \<open>internal/controller/secretsync_controller.go\<close> and the counter of \<open>metrics.go\<close>: one reconcile of
  a SecretSync. \<open>Reconcile\<close> is one Go function of three hundred lines; it is cut here at its early
  returns into \<open>persistPending\<close>, \<open>reconcileConflict\<close>, \<open>ensureFinalizer\<close>, \<open>reportWriteFailure\<close>,
  \<open>terminalWriteStatus\<close>, \<open>writeTarget\<close>, \<open>finishReconcile\<close>, \<open>applyOutcome\<close>, \<open>reconcileSync\<close> and
  \<open>reconcileLive\<close>,
  each the code between two of them. The local variable \<open>ss\<close> is passed on; an \<open>Update\<close> replaces it
  with the object the API server returns, as the client does.

  This theory holds the definitions and the facts about the pure helpers; the traces of a reconcile
  are the subject of \<open>Reconcile_Protocol\<close>.
\<close>

section \<open>Constants and the reconciler\<close>

abbreviation finalizerName :: string where
  "finalizerName \<equiv> ''kvsynk8s.io/secretsync-finalizer''"
abbreviation defaultReconcileInterval :: duration where
  "defaultReconcileInterval \<equiv> 4 * Hour"
abbreviation maxConcurrentReconciles :: nat where
  "maxConcurrentReconciles \<equiv> 2"
abbreviation reconcileTimeout :: duration where
  "reconcileTimeout \<equiv> Minute"
abbreviation statusPersistTimeout :: duration where
  "statusPersistTimeout \<equiv> 5 * Second"
abbreviation noFailureReason :: string where
  "noFailureReason \<equiv> ''None''"

text \<open>\<open>rc_Recorder\<close> says whether a recorder is configured; the embedded client is never nil.\<close>

record 'w SecretSyncReconciler =
  rc_Client :: client
  rc_Reader :: "'w SecretReader option"
  rc_ReconcileInterval :: duration
  rc_APIReader :: "client option"
  rc_Recorder :: bool

record Result =
  res_RequeueAfter :: duration

abbreviation noRequeue :: Result where
  "noRequeue \<equiv> \<lparr>res_RequeueAfter = 0\<rparr>"

definition statusWriteContext :: "goctx \<Rightarrow> goctx" where
  "statusWriteContext ctx = WithTimeout (WithoutCancel ctx) statusPersistTimeout"

definition reconcileInterval :: "'w SecretSyncReconciler \<Rightarrow> duration" where
  "reconcileInterval r =
     (if rc_ReconcileInterval r > 0 then rc_ReconcileInterval r else defaultReconcileInterval)"

section \<open>The client calls\<close>

definition getSecretSync ::
    "'w env \<Rightarrow> goctx \<Rightarrow> NamespacedName \<Rightarrow> ('w sys, goerr + SecretSync) state" where
  "getSecretSync E ctx key = perform (CGetSecretSync ctx key) (env_GetSecretSync E ctx key)"

definition listSecretSyncs ::
    "'w env \<Rightarrow> goctx \<Rightarrow> string \<Rightarrow> ('w sys, goerr + SecretSync list) state" where
  "listSecretSyncs E ctx ns = perform (CListSecretSyncs ctx ns) (env_ListSecretSyncs E ctx ns)"

definition listSecrets ::
    "'w env \<Rightarrow> goctx \<Rightarrow> string \<Rightarrow> string \<Rightarrow> string \<Rightarrow> ('w sys, goerr + Secret list) state" where
  "listSecrets E ctx ns k v = perform (CListSecrets ctx ns k v) (env_ListSecrets E ctx ns k v)"

definition deleteSecret :: "'w env \<Rightarrow> goctx \<Rightarrow> Secret \<Rightarrow> ('w sys, goerr option) state" where
  "deleteSecret E ctx secret =
     perform (CDeleteSecret ctx secret) (env_DeleteSecret E ctx secret)"

definition updateSecretSync ::
    "'w env \<Rightarrow> goctx \<Rightarrow> SecretSync \<Rightarrow> ('w sys, goerr + SecretSync) state" where
  "updateSecretSync E ctx ss =
     perform (CUpdateSecretSync ctx ss) (env_UpdateSecretSync E ctx ss)"

definition updateStatus ::
    "'w env \<Rightarrow> goctx \<Rightarrow> SecretSync \<Rightarrow> ('w sys, goerr + SecretSync) state" where
  "updateStatus E ctx ss = perform (CUpdateStatus ctx ss) (env_UpdateStatus E ctx ss)"

section \<open>Outcome recording\<close>

definition recordEvent ::
    "'w SecretSyncReconciler \<Rightarrow> SecretSync \<Rightarrow> string \<Rightarrow> string \<Rightarrow> string \<Rightarrow> ('w sys, unit) state" where
  "recordEvent r ss eventType reason message =
     (if \<not> rc_Recorder r then State_Monad.return ()
      else emitEvent \<lparr>ev_Object = \<lparr>nn_Namespace = ss_Namespace ss, nn_Name = ss_Name ss\<rparr>,
             ev_Type = eventType, ev_Reason = reason, ev_Note = message\<rparr>)"

definition recordSyncResult :: "SecretSyncState \<Rightarrow> string \<Rightarrow> ('w sys, unit) state" where
  "recordSyncResult state reason =
     (if state = SecretSyncStateInSync then incSyncTotal ''success'' noFailureReason
      else if state = SecretSyncStateFailing
      then incSyncTotal ''failure'' (if reason = [] then ''Unknown'' else reason)
      else State_Monad.return ())"

definition recordSyncOutcome ::
    "'w env \<Rightarrow> 'w SecretSyncReconciler \<Rightarrow> SecretSync \<Rightarrow> SecretSyncState \<Rightarrow> SecretSyncStatus \<Rightarrow> string
     \<Rightarrow> ('w sys, unit) state" where
  "recordSyncOutcome E r ss previousState status targetName =
     (let u = env_unicode E; vault = vault_Name (spec_Vault (ss_Spec ss));
          secretName = vault_Secret (spec_Vault (ss_Spec ss)) in
      if st_State status = SecretSyncStateInSync then do {
        recordEvent r ss ''Normal'' ''Synced''
          (''synced secret '' @ quote u secretName @ '' (version '' @ quote u (st_SyncedVersion status)
             @ '') from vault '' @ quote u vault @ '' into '' @ nsname (ss_Namespace ss) targetName);
        recordSyncResult (st_State status) [];
        (if previousState = SecretSyncStateFailing then
           logAt LInfo ''SecretSync recovered''
             [(''namespace'', LStr (ss_Namespace ss)), (''name'', LStr (ss_Name ss)),
              (''vault'', LStr vault), (''secret'', LStr secretName),
              (''version'', LStr (st_SyncedVersion status))]
         else State_Monad.return ()) }
      else if st_State status = SecretSyncStateFailing then do {
        recordEvent r ss ''Warning'' ''SyncFailed'' (st_Reason status @ '': '' @ st_Message status);
        recordSyncResult (st_State status) (st_Reason status);
        logAt LInfo ''SecretSync is failing''
          [(''namespace'', LStr (ss_Namespace ss)), (''name'', LStr (ss_Name ss)),
           (''vault'', LStr vault), (''secret'', LStr secretName),
           (''reason'', LStr (st_Reason status)), (''message'', LStr (st_Message status))] }
      else State_Monad.return ())"

section \<open>Helpers\<close>

definition ownedBy :: "'w env \<Rightarrow> Secret \<Rightarrow> SecretSync \<Rightarrow> bool" where
  "ownedBy E secret ss = ControllerOwnedBy E secret ss"

text \<open>The condition \<open>setReadyCondition\<close> builds; \<open>meta.SetStatusCondition\<close> stamps it with the time
  of a transition.\<close>

definition readyCondition :: "unicode \<Rightarrow> SecretSyncStatus \<Rightarrow> Condition" where
  "readyCondition u status =
     (let (cstatus, reason, message) =
        (if st_State status = SecretSyncStateInSync
         then (ConditionTrue, ''Synced'', ''synced version '' @ quote u (st_SyncedVersion status))
         else if st_State status = SecretSyncStateFailing
         then (ConditionFalse, st_Reason status, st_Message status)
         else (ConditionUnknown, ''Pending'', ''no sync attempt has completed yet'')) in
      \<lparr>cond_Type = ConditionReady, cond_Status = cstatus,
       cond_ObservedGeneration = st_ObservedGeneration status, cond_LastTransitionTime = 0,
       cond_Reason = (if reason = [] then ''Unknown'' else reason), cond_Message = message\<rparr>)"

definition setReadyCondition ::
    "'w env \<Rightarrow> SecretSync \<Rightarrow> SecretSyncStatus \<Rightarrow> ('w sys, SecretSyncStatus) state" where
  "setReadyCondition E ss status = do {
     t \<leftarrow> now E;
     State_Monad.return (status\<lparr>st_Conditions :=
       env_SetStatusCondition E t (st_Conditions (ss_Status ss))
         (readyCondition (env_unicode E) status)\<rparr>) }"

definition isTerminalWriteError :: "goerr \<Rightarrow> bool" where
  "isTerminalWriteError err = (errors_Is err ErrTargetConflict \<or> errors_Is err ErrTargetImmutable)"

definition retriedWithBackoff :: "string \<Rightarrow> bool" where
  "retriedWithBackoff reason =
     (reason = ReasonTransientError \<or> reason = ReasonSecretWriteFailed
      \<or> reason = ReasonAuthenticationFailed)"

text \<open>Go's \<open><\<close> on strings: byte-wise lexicographic.\<close>

fun stringLess :: "string \<Rightarrow> string \<Rightarrow> bool" where
  "stringLess _ [] = False"
| "stringLess [] (_ # _) = True"
| "stringLess (x # xs) (y # ys) =
     (if byte x = byte y then stringLess xs ys else byte x < byte y)"

definition takesPrecedence :: "SecretSync \<Rightarrow> SecretSync \<Rightarrow> bool" where
  "takesPrecedence a b =
     (let at = om_CreationTimestamp (ss_Meta a); bt = om_CreationTimestamp (ss_Meta b) in
      if at \<noteq> bt then at < bt else stringLess (ss_Name a) (ss_Name b))"

text \<open>The loop of \<open>findConflictingOwner\<close>.\<close>

fun conflictIn :: "SecretSync \<Rightarrow> string \<Rightarrow> SecretSync list \<Rightarrow> bool" where
  "conflictIn owner targetName [] = False"
| "conflictIn owner targetName (other # items) =
     (if ss_Name other = ss_Name owner then conflictIn owner targetName items
      else if resolveTargetName other \<noteq> targetName then conflictIn owner targetName items
      else if st_State (ss_Status other) = SecretSyncStateFailing
              \<and> st_Reason (ss_Status other) = ReasonTargetConflict
      then conflictIn owner targetName items
      else if takesPrecedence other owner then True
      else conflictIn owner targetName items)"

definition findConflictingOwner ::
    "'w env \<Rightarrow> goctx \<Rightarrow> SecretSync \<Rightarrow> ('w sys, goerr + bool) state" where
  "findConflictingOwner E ctx owner = do {
     got \<leftarrow> listSecretSyncs E ctx (ss_Namespace owner);
     (case got of
        Inl err \<Rightarrow> State_Monad.return (Inl
          (Errorf (''kvsynk8s: list secretsyncs in namespace '' @ ss_Namespace owner) [err]))
      | Inr items \<Rightarrow> State_Monad.return (Inr (conflictIn owner (resolveTargetName owner) items)))}"

section \<open>Deletion and garbage collection\<close>

text \<open>The end of \<open>reconcileDelete\<close>: the finalizer is dropped and the declaration is updated.\<close>

definition dropFinalizer :: "'w env \<Rightarrow> goctx \<Rightarrow> SecretSync \<Rightarrow> ('w sys, goerr option) state" where
  "dropFinalizer E ctx ss = do {
     r \<leftarrow> updateSecretSync E ctx (env_RemoveFinalizer E ss finalizerName);
     (case r of
        Inl err \<Rightarrow> State_Monad.return (Some
          (Errorf (''kvsynk8s: remove finalizer from '' @ nsname (ss_Namespace ss) (ss_Name ss)) [err]))
      | Inr _ \<Rightarrow> State_Monad.return None)}"

definition reconcileDelete ::
    "'w env \<Rightarrow> 'w SecretSyncReconciler \<Rightarrow> goctx \<Rightarrow> SecretSync \<Rightarrow> NamespacedName
     \<Rightarrow> ('w sys, goerr option) state" where
  "reconcileDelete E r ctx ss targetKey =
     (if \<not> env_ContainsFinalizer E ss finalizerName then State_Monad.return None
      else do {
        got \<leftarrow> getSecret E (rc_Client r) ctx targetKey;
        (case got of
           Inr secret \<Rightarrow>
             if ownedBy E secret ss then do {
               d \<leftarrow> deleteSecret E ctx secret;
               (case d of
                  Some err \<Rightarrow>
                    if \<not> env_IsNotFound E err then State_Monad.return (Some
                      (Errorf (''kvsynk8s: delete managed secret ''
                         @ nsname (nn_Namespace targetKey) (nn_Name targetKey)) [err]))
                    else dropFinalizer E ctx ss
                | None \<Rightarrow> dropFinalizer E ctx ss) }
             else dropFinalizer E ctx ss
         | Inl err \<Rightarrow>
             if \<not> env_IsNotFound E err then State_Monad.return (Some
               (Errorf (''kvsynk8s: get secret '' @ nsname (nn_Namespace targetKey) (nn_Name targetKey))
                  [err]))
             else dropFinalizer E ctx ss)})"

text \<open>The loop of \<open>deleteStaleManagedSecrets\<close>.\<close>

fun deleteStale ::
    "'w env \<Rightarrow> goctx \<Rightarrow> SecretSync \<Rightarrow> string \<Rightarrow> Secret list \<Rightarrow> ('w sys, goerr option) state" where
  "deleteStale E ctx ss currentTargetName [] = State_Monad.return None"
| "deleteStale E ctx ss currentTargetName (secret # items) =
     (if sec_Name secret = currentTargetName then deleteStale E ctx ss currentTargetName items
      else if \<not> ownedBy E secret ss then deleteStale E ctx ss currentTargetName items
      else do {
        d \<leftarrow> deleteSecret E ctx secret;
        (if d \<noteq> None \<and> \<not> env_IsNotFound E (the d) then State_Monad.return (Some
           (Errorf (''kvsynk8s: delete stale managed secret ''
              @ nsname (sec_Namespace secret) (sec_Name secret)) [the d]))
         else do {
           logAt LInfo ''deleted stale managed secret left behind by a target rename''
             [(''namespace'', LStr (sec_Namespace secret)), (''name'', LStr (sec_Name secret)),
              (''currentTarget'', LStr currentTargetName)];
           deleteStale E ctx ss currentTargetName items })})"

definition deleteStaleManagedSecrets ::
    "'w env \<Rightarrow> goctx \<Rightarrow> SecretSync \<Rightarrow> string \<Rightarrow> ('w sys, goerr option) state" where
  "deleteStaleManagedSecrets E ctx ss currentTargetName = do {
     got \<leftarrow> listSecrets E ctx (ss_Namespace ss) LabelManagedBy LabelManagedByValue;
     (case got of
        Inl err \<Rightarrow> State_Monad.return (Some
          (Errorf (''kvsynk8s: list managed secrets in namespace '' @ ss_Namespace ss) [err]))
      | Inr items \<Rightarrow> deleteStale E ctx ss currentTargetName items)}"

section \<open>Reconcile\<close>

text \<open>The first reconcile of a new declaration persists Pending.\<close>

definition persistPending ::
    "'w env \<Rightarrow> goctx \<Rightarrow> NamespacedName \<Rightarrow> SecretSync \<Rightarrow> ('w sys, goerr + SecretSync) state" where
  "persistPending E ctx req ss =
     (if st_State (ss_Status ss) \<noteq> [] then State_Monad.return (Inr ss)
      else do {
        let status = (ss_Status ss)\<lparr>st_State := SecretSyncStatePending\<rparr>;
        status \<leftarrow> setReadyCondition E ss status;
        r \<leftarrow> updateStatus E ctx (ss\<lparr>ss_Status := status\<rparr>);
        (case r of
           Inl err \<Rightarrow> State_Monad.return (Inl
             (Errorf (''kvsynk8s: set pending status for '' @ nsname (nn_Namespace req) (nn_Name req)) [err]))
         | Inr ss' \<Rightarrow> State_Monad.return (Inr ss'))})"

text \<open>A Failing status that carries the last known good sync time and version forward.\<close>

definition carriedFailure :: "SecretSync \<Rightarrow> string \<Rightarrow> string \<Rightarrow> SecretSyncStatus" where
  "carriedFailure ss reason message =
     zeroStatus\<lparr>st_State := SecretSyncStateFailing, st_Reason := reason, st_Message := message,
       st_ObservedGeneration := om_Generation (ss_Meta ss),
       st_LastSyncTime := st_LastSyncTime (ss_Status ss),
       st_SyncedVersion := st_SyncedVersion (ss_Status ss)\<rparr>"

definition reconcileConflict ::
    "'w env \<Rightarrow> 'w SecretSyncReconciler \<Rightarrow> goctx \<Rightarrow> NamespacedName \<Rightarrow> SecretSyncState \<Rightarrow> string
     \<Rightarrow> SecretSync \<Rightarrow> ('w sys, Result \<times> goerr option) state" where
  "reconcileConflict E r ctx req previousState targetName ss = do {
     let conflictStatus = carriedFailure ss ReasonTargetConflict
       (''secret '' @ nsname (ss_Namespace ss) targetName @ '' is already claimed by another SecretSync'');
     conflictStatus \<leftarrow> setReadyCondition E ss conflictStatus;
     u \<leftarrow> updateStatus E (statusWriteContext ctx) (ss\<lparr>ss_Status := conflictStatus\<rparr>);
     (case u of
        Inl err \<Rightarrow> State_Monad.return (noRequeue, Some
          (Errorf (''kvsynk8s: update status for '' @ nsname (nn_Namespace req) (nn_Name req)) [err]))
      | Inr ss \<Rightarrow> do {
          recordSyncOutcome E r ss previousState (ss_Status ss) targetName;
          State_Monad.return (\<lparr>res_RequeueAfter = reconcileInterval r\<rparr>, None) })}"

definition ensureFinalizer ::
    "'w env \<Rightarrow> goctx \<Rightarrow> NamespacedName \<Rightarrow> SecretSync \<Rightarrow> ('w sys, goerr + SecretSync) state" where
  "ensureFinalizer E ctx req ss =
     (if env_ContainsFinalizer E ss finalizerName then State_Monad.return (Inr ss)
      else do {
        r \<leftarrow> updateSecretSync E ctx (env_AddFinalizer E ss finalizerName);
        (case r of
           Inl err \<Rightarrow> State_Monad.return (Inl
             (Errorf (''kvsynk8s: add finalizer to '' @ nsname (nn_Namespace req) (nn_Name req)) [err]))
         | Inr ss' \<Rightarrow> State_Monad.return (Inr ss'))})"

text \<open>What is captured of the target before \<open>Sync\<close> runs, and the write gate that compares it with
  what \<open>Sync\<close> decided.\<close>

record Prior =
  pr_Version :: string
  pr_Data :: stringmap
  pr_Owned :: bool

definition priorOf :: "'w env \<Rightarrow> SecretSync \<Rightarrow> Secret option \<Rightarrow> Prior" where
  "priorOf E ss existing =
     (case existing of
        None \<Rightarrow> \<lparr>pr_Version = [], pr_Data = fmempty, pr_Owned = False\<rparr>
      | Some x \<Rightarrow> \<lparr>pr_Version = sec_Annotation x AnnotationVersion, pr_Data = sec_Data x,
                   pr_Owned = ownedBy E x ss\<rparr>)"

definition needsWrite :: "Secret option \<Rightarrow> Prior \<Rightarrow> SecretSyncStatus \<Rightarrow> Secret \<Rightarrow> bool" where
  "needsWrite existing prior status desired =
     (existing = None \<or> \<not> pr_Owned prior \<or> pr_Version prior \<noteq> st_SyncedVersion status
      \<or> \<not> maps_EqualFunc (pr_Data prior) (sec_Data desired) (=))"

definition reportWriteFailure ::
    "'w env \<Rightarrow> 'w SecretSyncReconciler \<Rightarrow> goctx \<Rightarrow> SecretSyncState \<Rightarrow> string \<Rightarrow> NamespacedName
     \<Rightarrow> SecretSync \<Rightarrow> goerr \<Rightarrow> ('w sys, Result \<times> goerr option) state" where
  "reportWriteFailure E r ctx previousState targetName targetKey ss writeErr = do {
     let status = carriedFailure ss ReasonSecretWriteFailed
       (''failed writing secret '' @ nsname (ss_Namespace ss) targetName @ ''; keeping last synced value'');
     status \<leftarrow> setReadyCondition E ss status;
     let ss = ss\<lparr>ss_Status := status\<rparr>;
     u \<leftarrow> updateStatus E (statusWriteContext ctx) ss;
     ss \<leftarrow> (case u of
        Inl statusErr \<Rightarrow> do {
          logAt (LError (Some statusErr)) ''failed to persist Failing status after a secret write error''
            [(''namespace'', LStr (nn_Namespace targetKey)), (''name'', LStr (nn_Name targetKey))];
          State_Monad.return ss }
      | Inr ss' \<Rightarrow> State_Monad.return ss');
     recordSyncOutcome E r ss previousState status targetName;
     State_Monad.return (noRequeue, Some
       (Errorf (''kvsynk8s: write secret '' @ nsname (nn_Namespace targetKey) (nn_Name targetKey))
          [writeErr])) }"

definition terminalWriteStatus ::
    "string \<Rightarrow> NamespacedName \<Rightarrow> SecretSync \<Rightarrow> goerr \<Rightarrow> ('w sys, SecretSyncStatus) state" where
  "terminalWriteStatus targetName targetKey ss writeErr =
     (if errors_Is writeErr ErrTargetImmutable then do {
        logAt LInfo (''target secret is immutable, so its value can no longer be rotated; ''
            @ ''delete the Secret to resume syncing (immutable cannot be unset in place)'')
          [(''namespace'', LStr (nn_Namespace targetKey)), (''name'', LStr (nn_Name targetKey))];
        State_Monad.return (carriedFailure ss ReasonTargetImmutable
          (''secret '' @ nsname (ss_Namespace ss) targetName
             @ '' is immutable and cannot be updated; keeping last synced value'')) }
      else State_Monad.return (carriedFailure ss ReasonTargetConflict
          (''secret '' @ nsname (ss_Namespace ss) targetName
             @ '' already exists and is not managed by kvsynk8s'')))"

text \<open>The write itself: \<open>Inl\<close> is an early return of \<open>Reconcile\<close>, \<open>Inr\<close> the status to go on with.\<close>

definition writeTarget ::
    "'w env \<Rightarrow> 'w SecretSyncReconciler \<Rightarrow> goctx \<Rightarrow> SecretSyncState \<Rightarrow> string \<Rightarrow> NamespacedName \<Rightarrow> string
     \<Rightarrow> SecretSync \<Rightarrow> Secret option \<Rightarrow> Prior \<Rightarrow> SecretSyncStatus \<Rightarrow> Secret
     \<Rightarrow> ('w sys, (Result \<times> goerr option) + SecretSyncStatus) state" where
  "writeTarget E r ctx previousState targetName targetKey dataKey ss existing prior status desired =
     (if \<not> needsWrite existing prior status desired then State_Monad.return (Inr status)
      else do {
        let writer = \<lparr>sw_Client = Some (rc_Client r), sw_Reader = rc_APIReader r\<rparr>;
        let value = mapget (sec_Data desired) dataKey;
        w \<leftarrow> CreateOrUpdate E writer ctx ss (nn_Namespace targetKey) (nn_Name targetKey) dataKey value
               (st_SyncedVersion status);
        (case w of
           None \<Rightarrow> State_Monad.return (Inr status)
         | Some writeErr \<Rightarrow>
             if \<not> isTerminalWriteError writeErr then do {
               res \<leftarrow> reportWriteFailure E r ctx previousState targetName targetKey ss writeErr;
               State_Monad.return (Inl res) }
             else do {
               status \<leftarrow> terminalWriteStatus targetName targetKey ss writeErr;
               State_Monad.return (Inr status) })})"

definition finishReconcile ::
    "'w env \<Rightarrow> 'w SecretSyncReconciler \<Rightarrow> goctx \<Rightarrow> NamespacedName \<Rightarrow> SecretSyncState \<Rightarrow> string
     \<Rightarrow> SecretSync \<Rightarrow> SecretSyncStatus \<Rightarrow> ('w sys, Result \<times> goerr option) state" where
  "finishReconcile E r ctx req previousState targetName ss status = do {
     status \<leftarrow> setReadyCondition E ss status;
     u \<leftarrow> updateStatus E (statusWriteContext ctx) (ss\<lparr>ss_Status := status\<rparr>);
     (case u of
        Inl err \<Rightarrow> State_Monad.return (noRequeue, Some
          (Errorf (''kvsynk8s: update status for '' @ nsname (nn_Namespace req) (nn_Name req)) [err]))
      | Inr ss \<Rightarrow> do {
          recordSyncOutcome E r ss previousState status targetName;
          logAt LV1 ''reconciled SecretSync''
            [(''vault'', LStr (vault_Name (spec_Vault (ss_Spec ss)))),
             (''secret'', LStr (vault_Secret (spec_Vault (ss_Spec ss)))),
             (''state'', LStr (st_State status))];
          gc \<leftarrow> (if st_State status = SecretSyncStateInSync
                 then deleteStaleManagedSecrets E ctx ss targetName
                 else State_Monad.return None);
          State_Monad.return
            (case gc of
               Some err \<Rightarrow> (noRequeue, Some err)
             | None \<Rightarrow>
                 if st_State status = SecretSyncStateFailing \<and> retriedWithBackoff (st_Reason status)
                 then (noRequeue, Some (errors_New (''kvsynk8s: '' @ st_Reason status @ '' syncing ''
                         @ nsname (nn_Namespace req) (nn_Name req) @ '', retrying with backoff'')))
                 else (\<lparr>res_RequeueAfter = reconcileInterval r\<rparr>, None)) })}"

text \<open>From the engine's answer on. A nil \<open>desired\<close> is dereferenced on every path through the
  write gate, so it is a panic there.\<close>

definition applyOutcome ::
    "'w env \<Rightarrow> 'w SecretSyncReconciler \<Rightarrow> goctx \<Rightarrow> NamespacedName \<Rightarrow> SecretSyncState \<Rightarrow> string
     \<Rightarrow> NamespacedName \<Rightarrow> string \<Rightarrow> SecretSync \<Rightarrow> Secret option \<Rightarrow> Prior \<Rightarrow> SecretSyncStatus
     \<Rightarrow> Secret option \<Rightarrow> ('w sys, Result \<times> goerr option) state" where
  "applyOutcome E r ctx req previousState targetName targetKey dataKey ss existing prior status desired =
     (if st_State status = SecretSyncStateFailing
      then finishReconcile E r ctx req previousState targetName ss status
      else do {
        f \<leftarrow> ensureFinalizer E ctx req ss;
        (case f of
           Inl e \<Rightarrow> State_Monad.return (noRequeue, Some e)
         | Inr ss \<Rightarrow>
             (case desired of
                None \<Rightarrow> State_Monad.return
                  (noRequeue, Some (Err (KPanic ''nil pointer dereference'') []))
              | Some d \<Rightarrow> do {
                  w \<leftarrow> writeTarget E r ctx previousState targetName targetKey dataKey ss existing
                         prior status d;
                  (case w of
                     Inl res \<Rightarrow> State_Monad.return res
                   | Inr status \<Rightarrow>
                       finishReconcile E r ctx req previousState targetName ss status) }))})"

text \<open>From the read of the target on; what \<open>Sync\<close> overwrites in place is captured first.\<close>

definition reconcileSync ::
    "'w env \<Rightarrow> 'w SecretSyncReconciler \<Rightarrow> goctx \<Rightarrow> NamespacedName \<Rightarrow> SecretSyncState \<Rightarrow> string
     \<Rightarrow> NamespacedName \<Rightarrow> string \<Rightarrow> SecretSync \<Rightarrow> Secret option
     \<Rightarrow> ('w sys, Result \<times> goerr option) state" where
  "reconcileSync E r ctx req previousState targetName targetKey dataKey ss existing = do {
     let prior = priorOf E ss existing;
     (status, desired, err) \<leftarrow> Sync E \<lparr>eng_Reader = rc_Reader r\<rparr> ctx ss existing;
     (case err of
        Some e \<Rightarrow> State_Monad.return (noRequeue, Some
          (Errorf (''kvsynk8s: sync '' @ nsname (nn_Namespace req) (nn_Name req)) [e]))
      | None \<Rightarrow> applyOutcome E r ctx req previousState targetName targetKey dataKey ss existing
                  prior status desired)}"

definition reconcileLive ::
    "'w env \<Rightarrow> 'w SecretSyncReconciler \<Rightarrow> goctx \<Rightarrow> NamespacedName \<Rightarrow> SecretSyncState \<Rightarrow> string
     \<Rightarrow> NamespacedName \<Rightarrow> string \<Rightarrow> SecretSync \<Rightarrow> ('w sys, Result \<times> goerr option) state" where
  "reconcileLive E r ctx req previousState targetName targetKey dataKey ss = do {
     c \<leftarrow> findConflictingOwner E ctx ss;
     (case c of
        Inl err \<Rightarrow> State_Monad.return (noRequeue, Some err)
      | Inr conflictingOwner \<Rightarrow>
          if conflictingOwner then reconcileConflict E r ctx req previousState targetName ss
          else do {
            fetched \<leftarrow> getSecret E (rc_Client r) ctx targetKey;
            (case fetched of
               Inl err \<Rightarrow>
                 if \<not> env_IsNotFound E err then State_Monad.return (noRequeue, Some
                   (Errorf (''kvsynk8s: get secret ''
                      @ nsname (nn_Namespace targetKey) (nn_Name targetKey)) [err]))
                 else reconcileSync E r ctx req previousState targetName targetKey dataKey ss None
             | Inr x \<Rightarrow>
                 reconcileSync E r ctx req previousState targetName targetKey dataKey ss (Some x))})}"

definition Reconcile ::
    "'w env \<Rightarrow> 'w SecretSyncReconciler \<Rightarrow> goctx \<Rightarrow> NamespacedName
     \<Rightarrow> ('w sys, Result \<times> goerr option) state" where
  "Reconcile E r ctx0 req = do {
     let ctx = WithTimeout ctx0 reconcileTimeout;
     got \<leftarrow> getSecretSync E ctx req;
     (case got of
        Inl err \<Rightarrow>
          State_Monad.return (noRequeue,
            if env_IsNotFound E err then None
            else Some (Errorf (''kvsynk8s: get secretsync ''
              @ nsname (nn_Namespace req) (nn_Name req)) [err]))
      | Inr ss \<Rightarrow> do {
          let previousState = st_State (ss_Status ss);
          let targetName = resolveTargetName ss;
          let targetKey = \<lparr>nn_Namespace = ss_Namespace ss, nn_Name = targetName\<rparr>;
          let dataKey = resolveDataKey ss;
          (if om_DeletionTimestamp (ss_Meta ss) \<noteq> 0 then do {
             err \<leftarrow> reconcileDelete E r ctx ss targetKey;
             State_Monad.return (noRequeue, err) }
           else do {
             p \<leftarrow> persistPending E ctx req ss;
             (case p of
                Inl err \<Rightarrow> State_Monad.return (noRequeue, Some err)
              | Inr ss \<Rightarrow>
                  reconcileLive E r ctx req previousState targetName targetKey dataKey ss) })})}"

end
