(* ===== verification/Reconcile_Protocol.thy ===== *)
theory Reconcile_Protocol
  imports Secretsync_Controller
begin

text \<open>
  The abstract specification of a reconcile: a transition system over the API and vault calls. Its
  state remembers what the answers so far said (the declaration, the competing claims, the target,
  the vault's answer, the accepted write, the accepted status); its rules say which call may be made
  when. \<open>sim_Reconcile\<close> shows that \<open>Reconcile\<close> refines it, for every behaviour of the cluster and
  of the vault; the safety properties of the controller are then invariants of the rules.
\<close>

section \<open>The transition system\<close>

record rstate =
  rs_first :: "SecretSync option"
  rs_object :: "SecretSync option"
  rs_claims :: "SecretSync list option"
  rs_target :: "Secret option option"
  rs_synced :: "SecretSync option"
  rs_vault :: "(goerr + string \<times> string) option"
  rs_prev :: "call option"
  rs_stored :: "Secret option"
  rs_final :: "SecretSyncStatus option"
  rs_stale :: "Secret list"

definition rs_init :: rstate where
  "rs_init = \<lparr>rs_first = None, rs_object = None, rs_claims = None, rs_target = None, rs_synced = None,
     rs_vault = None, rs_prev = None, rs_stored = None, rs_final = None, rs_stale = []\<rparr>"

text \<open>How an answer changes the state: the object the server returned replaces the local one.\<close>

definition absorb :: "goerr + SecretSync \<Rightarrow> rstate \<Rightarrow> rstate" where
  "absorb a st = (case a of Inl _ \<Rightarrow> st | Inr ss \<Rightarrow> st\<lparr>rs_object := Some ss\<rparr>)"

definition sawTarget :: "'w env \<Rightarrow> goerr + Secret \<Rightarrow> rstate \<Rightarrow> rstate" where
  "sawTarget E a st =
     (case a of
        Inl err \<Rightarrow> if env_IsNotFound E err then st\<lparr>rs_target := Some None\<rparr> else st
      | Inr x \<Rightarrow> st\<lparr>rs_target := Some (Some x)\<rparr>)"

definition live :: "rstate \<Rightarrow> bool" where
  "live st \<longleftrightarrow> (\<exists>ss. rs_first st = Some ss \<and> om_DeletionTimestamp (ss_Meta ss) = 0)"

definition dying :: "'w env \<Rightarrow> rstate \<Rightarrow> SecretSync \<Rightarrow> bool" where
  "dying E st ss \<longleftrightarrow> rs_first st = Some ss \<and> rs_object st = Some ss
     \<and> om_DeletionTimestamp (ss_Meta ss) \<noteq> 0 \<and> env_ContainsFinalizer E ss finalizerName"

definition targetKeyOf :: "SecretSync \<Rightarrow> NamespacedName" where
  "targetKeyOf ss = \<lparr>nn_Namespace = ss_Namespace ss, nn_Name = resolveTargetName ss\<rparr>"

text \<open>The value the controller hands to the writer: what the engine put under its data key, read
  back under the controller's.\<close>

definition handedValue :: "SecretSync \<Rightarrow> SecretSync \<Rightarrow> string \<Rightarrow> string" where
  "handedValue first synced value =
     mapget (fmupd (resolveDataKey synced) value fmempty) (resolveDataKey first)"

text \<open>What the state has to show before a terminal status may be persisted.\<close>

definition justified :: "'w env \<Rightarrow> rstate \<Rightarrow> SecretSync \<Rightarrow> SecretSyncStatus \<Rightarrow> bool" where
  "justified E st ss status \<longleftrightarrow>
     (if st_State status = SecretSyncStateInSync
      then \<exists>synced value version.
          rs_vault st = Some (Inr (value, version)) \<and> rs_synced st = Some synced
          \<and> st_SyncedVersion status = version \<and> st_Reason status = [] \<and> st_Message status = []
          \<and> (rs_stored st \<noteq> None
             \<or> (\<exists>x. rs_target st = Some (Some x) \<and> upToDate E synced value version x))
      else st_State status = SecretSyncStateFailing
        \<and> st_LastSyncTime status = st_LastSyncTime (ss_Status ss)
        \<and> st_SyncedVersion status = st_SyncedVersion (ss_Status ss)
        \<and> st_Reason status \<noteq> [] \<and> rs_stored st = None)"

inductive rstep ::
    "'w env \<Rightarrow> 'w SecretSyncReconciler \<Rightarrow> goctx \<Rightarrow> NamespacedName \<Rightarrow> rstate \<Rightarrow> call \<Rightarrow> rstate \<Rightarrow> bool"
  for E r ctx req where
  fetch: "rs_first st = None \<Longrightarrow>
    rstep E r ctx req st (CGetSecretSync ctx req a)
      (case a of Inl _ \<Rightarrow> st | Inr ss \<Rightarrow> st\<lparr>rs_first := Some ss, rs_object := Some ss\<rparr>)"
| pending: "live st \<Longrightarrow> rs_object st = Some ss \<Longrightarrow> st_State (ss_Status ss) = [] \<Longrightarrow> rs_claims st = None \<Longrightarrow>
    st_State status = SecretSyncStatePending \<Longrightarrow>
    rstep E r ctx req st (CUpdateStatus ctx (ss\<lparr>ss_Status := status\<rparr>) a) (absorb a st)"
| claims: "live st \<Longrightarrow> rs_object st = Some ss \<Longrightarrow> rs_claims st = None \<Longrightarrow>
    rstep E r ctx req st (CListSecretSyncs ctx (ss_Namespace ss) a)
      (case a of Inl _ \<Rightarrow> st | Inr items \<Rightarrow> st\<lparr>rs_claims := Some items\<rparr>)"
| target: "live st \<Longrightarrow> rs_object st = Some ss \<Longrightarrow> rs_claims st = Some items \<Longrightarrow>
    \<not> conflictIn ss (resolveTargetName ss) items \<Longrightarrow> rs_first st = Some first \<Longrightarrow> rs_target st = None \<Longrightarrow>
    rstep E r ctx req st (CGetSecret (rc_Client r) ctx (targetKeyOf first) a) (sawTarget E a st)"
| vault: "live st \<Longrightarrow> rs_object st = Some ss \<Longrightarrow> rs_target st = Some t \<Longrightarrow> rs_vault st = None \<Longrightarrow>
    (\<And>x. t = Some x \<Longrightarrow> \<not> foreign E ss x) \<Longrightarrow>
    rstep E r ctx req st (vaultCall ctx ss a) (st\<lparr>rs_vault := Some a, rs_synced := Some ss\<rparr>)"
| finalizer: "live st \<Longrightarrow> rs_object st = Some ss \<Longrightarrow> rs_vault st = Some (Inr p) \<Longrightarrow>
    \<not> env_ContainsFinalizer E ss finalizerName \<Longrightarrow> rs_prev st = None \<Longrightarrow>
    rstep E r ctx req st (CUpdateSecretSync ctx (env_AddFinalizer E ss finalizerName) a) (absorb a st)"
| writing: "live st \<Longrightarrow> rs_object st = Some ss \<Longrightarrow> rs_vault st = Some (Inr (value, version)) \<Longrightarrow>
    rs_synced st = Some synced \<Longrightarrow> rs_first st = Some first \<Longrightarrow> rs_target st = Some t \<Longrightarrow>
    (\<And>x. t = Some x \<Longrightarrow> \<not> upToDate E synced value version x) \<Longrightarrow>
    writerStep E ss (nn_Namespace (targetKeyOf first)) (nn_Name (targetKeyOf first))
      (resolveDataKey first) (handedValue first synced value) version (rs_prev st) c \<Longrightarrow>
    callCtx c = ctx \<Longrightarrow>
    rstep E r ctx req st c (st\<lparr>rs_prev := Some c, rs_stored := acceptedWrite c\<rparr>)"
| status: "live st \<Longrightarrow> rs_object st = Some ss \<Longrightarrow> rs_final st = None \<Longrightarrow> rs_claims st \<noteq> None \<Longrightarrow>
    justified E st ss status \<Longrightarrow>
    rstep E r ctx req st (CUpdateStatus (statusWriteContext ctx) (ss\<lparr>ss_Status := status\<rparr>) a)
      (case a of Inl _ \<Rightarrow> st | Inr ss' \<Rightarrow> st\<lparr>rs_object := Some ss', rs_final := Some status\<rparr>)"
| stale: "live st \<Longrightarrow> rs_object st = Some ss \<Longrightarrow> rs_final st = Some status \<Longrightarrow>
    st_State status = SecretSyncStateInSync \<Longrightarrow>
    rstep E r ctx req st (CListSecrets ctx (ss_Namespace ss) LabelManagedBy LabelManagedByValue a)
      (case a of Inl _ \<Rightarrow> st | Inr items \<Rightarrow> st\<lparr>rs_stale := items\<rparr>)"
| collect: "live st \<Longrightarrow> rs_object st = Some ss \<Longrightarrow> rs_first st = Some first \<Longrightarrow> rs_final st = Some status \<Longrightarrow>
    st_State status = SecretSyncStateInSync \<Longrightarrow> x \<in> set (rs_stale st) \<Longrightarrow>
    sec_Name x \<noteq> resolveTargetName first \<Longrightarrow> ownedBy E x ss \<Longrightarrow>
    rstep E r ctx req st (CDeleteSecret ctx x a) st"
| deletionRead: "dying E st ss \<Longrightarrow> rs_target st = None \<Longrightarrow>
    rstep E r ctx req st (CGetSecret (rc_Client r) ctx (targetKeyOf ss) a) (sawTarget E a st)"
| deletion: "dying E st ss \<Longrightarrow> rs_target st = Some (Some x) \<Longrightarrow> ownedBy E x ss \<Longrightarrow>
    rstep E r ctx req st (CDeleteSecret ctx x a)
      (if a = None \<or> env_IsNotFound E (the a) then st\<lparr>rs_target := Some None\<rparr> else st)"
| release: "dying E st ss \<Longrightarrow> rs_target st = Some t \<Longrightarrow> (\<And>x. t = Some x \<Longrightarrow> \<not> ownedBy E x ss) \<Longrightarrow>
    rstep E r ctx req st (CUpdateSecretSync ctx (env_RemoveFinalizer E ss finalizerName) a) st"

text \<open>What a reconcile's return value says. Without an error it asks for a requeue after the
  reconcile interval, unless the declaration is gone or being deleted; with an error it asks for
  nothing (the workqueue backs off), and the error is never a panic.\<close>

definition settled :: "'w SecretSyncReconciler \<Rightarrow> Result \<times> goerr option \<Rightarrow> rstate \<Rightarrow> bool" where
  "settled r res st \<longleftrightarrow>
     (case snd res of
        None \<Rightarrow>
          (if live st
           then fst res = \<lparr>res_RequeueAfter = reconcileInterval r\<rparr> \<and>
             (\<exists>status. rs_final st = Some status \<and>
                (st_State status = SecretSyncStateInSync \<or> \<not> retriedWithBackoff (st_Reason status)))
           else fst res = noRequeue)
      | Some e \<Rightarrow> fst res = noRequeue \<and> (\<forall>text. err_kind e \<noteq> KPanic text))"

text \<open>The state while a live reconcile works towards its target: the declaration was read, nothing
  was written and no status persisted yet.\<close>

definition working :: "rstate \<Rightarrow> SecretSync \<Rightarrow> SecretSync \<Rightarrow> bool" where
  "working st first ss \<longleftrightarrow> rs_first st = Some first \<and> om_DeletionTimestamp (ss_Meta first) = 0
     \<and> rs_object st = Some ss \<and> rs_prev st = None \<and> rs_stored st = None \<and> rs_final st = None"

text \<open>What the engine's answer says, run as part of a reconcile.\<close>

definition engineSays ::
    "'w env \<Rightarrow> rstate \<Rightarrow> SecretSync \<Rightarrow> Secret option \<Rightarrow> SecretSyncStatus \<times> Secret option \<times> goerr option
     \<Rightarrow> rstate \<Rightarrow> bool" where
  "engineSays E st ss existing res st' \<longleftrightarrow>
     (case res of (status, secret, err) \<Rightarrow>
        (\<exists>text. err = Some (errors_New text)) \<and> st' = st
        \<or> err = None \<and> st_State status = SecretSyncStateFailing \<and> justified E st' ss status
            \<and> (st' = st \<or> (\<exists>e. st' = st\<lparr>rs_vault := Some (Inl e), rs_synced := Some ss\<rparr>))
        \<or> err = None \<and> (\<exists>value version t.
            (\<forall>x. existing = Some x \<longrightarrow> \<not> foreign E ss x)
            \<and> st' = st\<lparr>rs_vault := Some (Inr (value, version)), rs_synced := Some ss\<rparr>
            \<and> status = inSyncStatus (baseStatus ss) version t
            \<and> secret = (if (\<exists>x. existing = Some x \<and> upToDate E ss value version x) then existing
                 else Some (adopted ss value version existing))))"

section \<open>Refinement\<close>

lemmas controller_call_defs = getSecretSync_def listSecretSyncs_def listSecrets_def deleteSecret_def
  updateSecretSync_def updateStatus_def secret_call_defs

lemma sim_recordSyncOutcome [sim_intros]:
  "R () st \<Longrightarrow> sim step st (recordSyncOutcome E r ss previousState status targetName) R"
  unfolding recordSyncOutcome_def recordEvent_def recordSyncResult_def Let_def
  by (intro sim_intros)

lemma sim_setReadyCondition [sim_intros]:
  "(\<And>conds. R (status\<lparr>st_Conditions := conds\<rparr>) st) \<Longrightarrow>
   sim step st (setReadyCondition E ss status) R"
  unfolding setReadyCondition_def by (intro sim_intros)

lemma justified_conditions [simp]:
  "justified E st ss (status\<lparr>st_Conditions := conds\<rparr>) = justified E st ss status"
  by (simp add: justified_def)

lemma justified_carried:
  "rs_stored st = None \<Longrightarrow> reason \<noteq> [] \<Longrightarrow> justified E st ss (carriedFailure ss reason message)"
  by (simp add: justified_def carriedFailure_def)

lemma carriedFailure_simps [simp]:
  "st_State (carriedFailure ss reason message) = SecretSyncStateFailing"
  "st_Reason (carriedFailure ss reason message) = reason"
  by (simp_all add: carriedFailure_def)

text \<open>The writer, run as part of a reconcile.\<close>

lemma emits_writer_ctx:
  "emits (\<lambda>c. callCtx c = ctx) (CreateOrUpdate E w ctx owner ns name dataKey value version)"
  unfolding writer_defs secret_call_defs by (intro emits_intros) simp_all

lemma sim_CreateOrUpdate:
  assumes "live st" "rs_object st = Some ss" "rs_vault st = Some (Inr (value, version))"
    "rs_synced st = Some synced" "rs_first st = Some first" "rs_target st = Some t"
    "\<And>x. t = Some x \<Longrightarrow> \<not> upToDate E synced value version x"
    "rs_prev st = None" "rs_stored st = None"
  shows "sim (rstep E r ctx req) st
    (CreateOrUpdate E w ctx ss (ss_Namespace first) (resolveTargetName first) (resolveDataKey first)
       (handedValue first synced value) version)
    (\<lambda>res st'. \<exists>lc. st' = st\<lparr>rs_prev := lc, rs_stored := Option.bind lc acceptedWrite\<rparr>
       \<and> writerResult E ss (resolveDataKey first) (handedValue first synced value) version res lc)"
proof -
  let ?f = "\<lambda>lc. st\<lparr>rs_prev := lc, rs_stored := Option.bind lc acceptedWrite\<rparr>"
  have init: "?f None = st" using assms(8,9) by simp
  have step: "rstep E r ctx req (?f lc) c (?f (Some c))"
    if "writerStep E ss (ss_Namespace first) (resolveTargetName first) (resolveDataKey first)
          (handedValue first synced value) version lc c" and "callCtx c = ctx" for lc c
    using rstep.writing [of "?f lc" ss "value" version synced first t E c ctx r req] that assms
    by (simp add: live_def targetKeyOf_def)
  show ?thesis
    using sim_of_proto [where f = ?f and prev = None and step = "rstep E r ctx req"
        and m = "CreateOrUpdate E w ctx ss (ss_Namespace first) (resolveTargetName first)
          (resolveDataKey first) (handedValue first synced value) version"
        and Q = "\<lambda>c. callCtx c = ctx"
        and P = "writerStep E ss (ss_Namespace first) (resolveTargetName first)
          (resolveDataKey first) (handedValue first synced value) version"
        and R = "writerResult E ss (resolveDataKey first) (handedValue first synced value) version"]
    unfolding init using step by (simp add: proto_CreateOrUpdate emits_writer_ctx)
qed

lemma working_live: "working st first ss \<Longrightarrow> live st"
  by (simp add: working_def live_def)

text \<open>One rule per call, with the answer's cases as premises.\<close>

lemma sim_pending_status:
  assumes "live st" "rs_object st = Some ss" "st_State (ss_Status ss) = []" "rs_claims st = None"
    "st_State status = SecretSyncStatePending"
    and "\<And>e. R (Inl e) st" "\<And>ss'. R (Inr ss') (st\<lparr>rs_object := Some ss'\<rparr>)"
  shows "sim (rstep E r ctx req) st (updateStatus E ctx (ss\<lparr>ss_Status := status\<rparr>)) R"
  unfolding updateStatus_def
proof (rule sim_perform)
  show "\<exists>st'. rstep E r ctx req st (CUpdateStatus ctx (ss\<lparr>ss_Status := status\<rparr>) a) st' \<and> R a st'" for a
    using rstep.pending [OF assms(1-5), of E r ctx req a] assms(6,7)
    by (cases a) (auto simp: absorb_def)
qed

lemma sim_terminal_status:
  assumes "live st" "rs_object st = Some ss" "rs_final st = None" "rs_claims st \<noteq> None"
    "justified E st ss status"
    and "\<And>e. R (Inl e) st" "\<And>ss'. R (Inr ss') (st\<lparr>rs_object := Some ss', rs_final := Some status\<rparr>)"
  shows "sim (rstep E r ctx req) st
    (updateStatus E (statusWriteContext ctx) (ss\<lparr>ss_Status := status\<rparr>)) R"
  unfolding updateStatus_def
proof (rule sim_perform)
  show "\<exists>st'. rstep E r ctx req st (CUpdateStatus (statusWriteContext ctx) (ss\<lparr>ss_Status := status\<rparr>) a) st'
      \<and> R a st'" for a
    using rstep.status [OF assms(1-5), of r ctx req a] assms(6,7) by (cases a) auto
qed

lemma sim_claims:
  assumes "live st" "rs_object st = Some ss" "rs_claims st = None"
    and "\<And>e. R (Inl e) st" "\<And>items. R (Inr items) (st\<lparr>rs_claims := Some items\<rparr>)"
  shows "sim (rstep E r ctx req) st (listSecretSyncs E ctx (ss_Namespace ss)) R"
  unfolding listSecretSyncs_def
proof (rule sim_perform)
  show "\<exists>st'. rstep E r ctx req st (CListSecretSyncs ctx (ss_Namespace ss) a) st' \<and> R a st'" for a
    using rstep.claims [OF assms(1-3), of E r ctx req a] assms(4,5) by (cases a) auto
qed

lemma sim_sawTarget:
  assumes "\<And>a. rstep E r ctx req st (CGetSecret (rc_Client r) ctx key a) (sawTarget E a st)"
    and "\<And>e. \<not> env_IsNotFound E e \<Longrightarrow> R (Inl e) st"
    and "\<And>e. env_IsNotFound E e \<Longrightarrow> R (Inl e) (st\<lparr>rs_target := Some None\<rparr>)"
    and "\<And>x. R (Inr x) (st\<lparr>rs_target := Some (Some x)\<rparr>)"
  shows "sim (rstep E r ctx req) st (getSecret E (rc_Client r) ctx key) R"
  unfolding getSecret_def
proof (rule sim_perform)
  show "\<exists>st'. rstep E r ctx req st (CGetSecret (rc_Client r) ctx key a) st' \<and> R a st'" for a
    using assms(1) [of a] assms(2-) by (cases a) (auto simp: sawTarget_def split: if_splits)
qed

lemma rs_object_same: "rs_object st = Some ss \<Longrightarrow> st\<lparr>rs_object := Some ss\<rparr> = st"
  by (cases st) simp

lemma sim_persistPending:
  assumes "working st first ss" "rs_claims st = None"
    and "\<And>e. (\<And>text. err_kind e \<noteq> KPanic text) \<Longrightarrow> R (Inl e) st"
    and "\<And>ss'. R (Inr ss') (st\<lparr>rs_object := Some ss'\<rparr>)"
  shows "sim (rstep E r ctx req) st (persistPending E ctx req ss) R"
proof -
  have "R (Inr ss) st"
    using assms(4) [of ss] assms(1) unfolding working_def by (metis rs_object_same)
  moreover have "live st" "rs_object st = Some ss"
    using assms(1) by (simp_all add: working_def live_def)
  ultimately show ?thesis
    unfolding persistPending_def Let_def
    by (intro sim_intros sim_pending_status assms(2)) (auto intro: assms(3,4))
qed

lemma sim_recordedConflict:
  assumes "working st first ss" "rs_claims st \<noteq> None"
  shows "sim (rstep E r ctx req) st (reconcileConflict E r ctx req previousState targetName ss) (settled r)"
  unfolding reconcileConflict_def Let_def
  using assms
  by (intro sim_intros sim_terminal_status)
    (auto simp: working_def live_def settled_def retriedWithBackoff_def intro: justified_carried)

text \<open>Garbage collection, once InSync was persisted.\<close>

lemma sim_delete:
  assumes "live st" "rs_object st = Some ss" "rs_first st = Some first" "rs_final st = Some status"
    "st_State status = SecretSyncStateInSync" "x \<in> set (rs_stale st)"
    "sec_Name x \<noteq> resolveTargetName first" "ownedBy E x ss" and "\<And>a. R a st"
  shows "sim (rstep E r ctx req) st (deleteSecret E ctx x) R"
  unfolding deleteSecret_def
  by (rule sim_perform) (use rstep.collect [OF assms(1-8)] assms(9) in blast)

lemma sim_deleteStale:
  assumes "live st" "rs_object st = Some ss" "rs_first st = Some first" "rs_final st = Some status"
    "st_State status = SecretSyncStateInSync" "set items \<subseteq> set (rs_stale st)"
  shows "sim (rstep E r ctx req) st (deleteStale E ctx ss (resolveTargetName first) items)
    (\<lambda>e st'. st' = st \<and> (\<forall>err text. e = Some err \<longrightarrow> err_kind err \<noteq> KPanic text))"
  using assms(6)
proof (induction items)
  case Nil
  then show ?case by (simp add: sim_return)
next
  case (Cons x items)
  then show ?case
    using assms(1-5) by (auto intro!: sim_intros sim_delete [where first = first])
qed

lemma sim_collect:
  assumes "live st" "rs_object st = Some ss" "rs_first st = Some first" "rs_final st = Some status"
    "st_State status = SecretSyncStateInSync"
  shows "sim (rstep E r ctx req) st (deleteStaleManagedSecrets E ctx ss (resolveTargetName first))
    (\<lambda>e st'. (\<exists>items. st' = st\<lparr>rs_stale := items\<rparr>)
       \<and> (\<forall>err text. e = Some err \<longrightarrow> err_kind err \<noteq> KPanic text))"
  unfolding deleteStaleManagedSecrets_def listSecrets_def
proof (intro sim_bind sim_perform)
  fix a :: "goerr + Secret list"
  let ?k = "\<lambda>a. case a of
      Inl err \<Rightarrow> State_Monad.return (Some
        (Errorf (''kvsynk8s: list managed secrets in namespace '' @ ss_Namespace ss) [err]))
    | Inr items \<Rightarrow> deleteStale E ctx ss (resolveTargetName first) items"
  let ?st = "case a of Inl _ \<Rightarrow> st | Inr items \<Rightarrow> st\<lparr>rs_stale := items\<rparr>"
  have "sim (rstep E r ctx req) ?st (?k a) (\<lambda>e st'. (\<exists>items. st' = st\<lparr>rs_stale := items\<rparr>)
      \<and> (\<forall>err text. e = Some err \<longrightarrow> err_kind err \<noteq> KPanic text))"
  proof (cases a)
    case (Inl e)
    then show ?thesis by (auto intro!: sim_return exI [of _ "rs_stale st"])
  next
    case (Inr items)
    have "sim (rstep E r ctx req) (st\<lparr>rs_stale := items\<rparr>)
        (deleteStale E ctx ss (resolveTargetName first) items)
        (\<lambda>e st'. st' = st\<lparr>rs_stale := items\<rparr> \<and> (\<forall>err text. e = Some err \<longrightarrow> err_kind err \<noteq> KPanic text))"
      using assms by (intro sim_deleteStale [where status = status]) (simp_all add: live_def)
    then have "sim (rstep E r ctx req) (st\<lparr>rs_stale := items\<rparr>)
        (deleteStale E ctx ss (resolveTargetName first) items)
        (\<lambda>e st'. (\<exists>items. st' = st\<lparr>rs_stale := items\<rparr>)
          \<and> (\<forall>err text. e = Some err \<longrightarrow> err_kind err \<noteq> KPanic text))"
      by (rule sim_mono) auto
    with Inr show ?thesis by simp
  qed
  with rstep.stale [OF assms(1,2,4,5), of E r ctx req a]
  show "\<exists>st'. rstep E r ctx req st
      (CListSecrets ctx (ss_Namespace ss) LabelManagedBy LabelManagedByValue a) st'
    \<and> sim (rstep E r ctx req) st' (?k a) (\<lambda>e st'. (\<exists>items. st' = st\<lparr>rs_stale := items\<rparr>)
      \<and> (\<forall>err text. e = Some err \<longrightarrow> err_kind err \<noteq> KPanic text))" by blast
qed

lemma sim_finishReconcile:
  assumes "live st" "rs_object st = Some ss" "rs_first st = Some first" "rs_final st = None"
    "rs_claims st \<noteq> None" "justified E st ss status"
  shows "sim (rstep E r ctx req) st
    (finishReconcile E r ctx req previousState (resolveTargetName first) ss status) (settled r)"
proof -
  have state: "st_State status \<in> {SecretSyncStateInSync, SecretSyncStateFailing}"
    using assms(6) by (auto simp: justified_def split: if_splits)
  have collect: "sim (rstep E r ctx req) st' (deleteStaleManagedSecrets E ctx ss' (resolveTargetName first))
      (\<lambda>e st''. (\<exists>items. st'' = st'\<lparr>rs_stale := items\<rparr>)
         \<and> (\<forall>err text. e = Some err \<longrightarrow> err_kind err \<noteq> KPanic text))"
    if "st' = st\<lparr>rs_object := Some ss', rs_final := Some (status\<lparr>st_Conditions := conds\<rparr>)\<rparr>"
      "st_State status = SecretSyncStateInSync" for st' ss' conds
    using assms that by (intro sim_collect [where status = "status\<lparr>st_Conditions := conds\<rparr>"])
      (simp_all add: live_def)
  show ?thesis
    unfolding finishReconcile_def
    using assms state
    by (intro sim_intros sim_terminal_status sim_mono [OF collect])
      (auto simp: settled_def live_def split: option.split)
qed

lemma justified_engine:
  "rs_stored st = None \<Longrightarrow> reason \<noteq> [] \<Longrightarrow>
   justified E st ss (failingStatus (baseStatus ss) reason message)"
  by (simp add: justified_def)

lemma classifyReaderError_reason: "fst (classifyReaderError u e owner managed) \<noteq> []"
  by (simp add: classifyReaderError_def Let_def)

lemma sim_Sync:
  assumes "working st first ss" "rs_target st = Some existing" "rs_vault st = None"
  shows "sim (rstep E r ctx req) st (Sync E e ctx ss existing) (engineSays E st ss existing)"
  unfolding sim_def
proof
  fix s
  obtain status secret err s' where run: "run_state (Sync E e ctx ss existing) s = ((status, secret, err), s')"
    by (metis prod.collapse)
  have st: "live st" "rs_object st = Some ss" "rs_stored st = None"
    using assms(1) by (simp_all add: working_def live_def)
  have step: "path (rstep E r ctx req) st [vaultCall ctx ss a]
      (st\<lparr>rs_vault := Some a, rs_synced := Some ss\<rparr>)"
    if "\<And>x. existing = Some x \<Longrightarrow> \<not> foreign E ss x" for a
    using rstep.vault [OF st(1,2) assms(2,3) that, of r ctx req a] by simp
  have "\<exists>new st'. calls s' = calls s @ new \<and> path (rstep E r ctx req) st new st'
      \<and> engineSays E st ss existing (status, secret, err) st'"
    using run
  proof (cases rule: Sync_cases)
    case no_reader
    then show ?thesis by (intro exI [of _ "[]"] exI [of _ st]) (simp add: engineSays_def)
  next
    case (conflict x message)
    then show ?thesis
      by (intro exI [of _ "[]"] exI [of _ st]) (simp add: engineSays_def justified_engine st(3))
  next
    case (failed e')
    obtain reason message where "classifyReaderError (env_unicode E) e' ss
        (\<exists>x. existing = Some x \<and> managedBy E ss x) = (reason, message)" by fastforce
    moreover from this have "reason \<noteq> []" using classifyReaderError_reason by (metis fst_conv)
    ultimately have "engineSays E st ss existing (status, secret, err)
        (st\<lparr>rs_vault := Some (Inl e'), rs_synced := Some ss\<rparr>)"
      using failed st(3) by (auto simp: engineSays_def intro!: justified_engine)
    with failed(4) step [OF failed(3)] show ?thesis by blast
  next
    case (synced "value" version t)
    then have "engineSays E st ss existing (status, secret, err)
        (st\<lparr>rs_vault := Some (Inr (value, version)), rs_synced := Some ss\<rparr>)"
      unfolding engineSays_def prod.case
      by (intro disjI2 conjI exI [of _ "value"] exI [of _ version] exI [of _ t]) auto
    with synced(3) step [OF synced(2)] show ?thesis by blast
  qed
  with run show "case run_state (Sync E e ctx ss existing) s of (a, s') \<Rightarrow>
      \<exists>new st'. calls s' = calls s @ new \<and> path (rstep E r ctx req) st new st'
        \<and> engineSays E st ss existing a st'"
    by simp
qed

text \<open>The write gate and the engine's idempotent skip are the same decision.\<close>

lemma write_gate:
  assumes "\<And>x. existing = Some x \<Longrightarrow> \<not> foreign E ss x"
    and "desired = (if (\<exists>x. existing = Some x \<and> upToDate E ss value version x) then the existing
           else adopted ss value version existing)"
    and "st_SyncedVersion status = version"
  shows "needsWrite existing (priorOf E ss existing) status desired \<longleftrightarrow>
      (\<forall>x. existing = Some x \<longrightarrow> \<not> upToDate E ss value version x)"
    and "sec_Data desired = fmupd (resolveDataKey ss) value fmempty"
proof -
  have shape: "sec_Data (adopted ss value version existing) = fmupd (resolveDataKey ss) value fmempty"
    using adopted_shape [of ss "value" version existing] by (simp add: managedShape_def)
  then show data: "sec_Data desired = fmupd (resolveDataKey ss) value fmempty"
    using assms(2) by (auto simp: upToDate_def)
  have "upToDate E ss value version x \<longleftrightarrow> ownedBy E x ss \<and> sec_Annotation x AnnotationVersion = version
      \<and> sec_Data x = sec_Data desired" if "existing = Some x" for x
    using assms(1) [OF that] data
    by (auto simp: upToDate_def managedBy_def foreign_def ownedBy_def)
  then show "needsWrite existing (priorOf E ss existing) status desired \<longleftrightarrow>
      (\<forall>x. existing = Some x \<longrightarrow> \<not> upToDate E ss value version x)"
    using assms(3) by (cases existing) (auto simp: needsWrite_def priorOf_def maps_EqualFunc_iff)
qed

lemma sim_addFinalizer:
  assumes "live st" "rs_object st = Some ss" "rs_vault st = Some (Inr p)"
    "\<not> env_ContainsFinalizer E ss finalizerName" "rs_prev st = None"
    and "\<And>e. R (Inl e) st" "\<And>ss'. R (Inr ss') (st\<lparr>rs_object := Some ss'\<rparr>)"
  shows "sim (rstep E r ctx req) st (updateSecretSync E ctx (env_AddFinalizer E ss finalizerName)) R"
  unfolding updateSecretSync_def
proof (rule sim_perform)
  show "\<exists>st'. rstep E r ctx req st (CUpdateSecretSync ctx (env_AddFinalizer E ss finalizerName) a) st'
      \<and> R a st'" for a
    using rstep.finalizer [OF assms(1-5), of r ctx req a] assms(6,7)
    by (cases a) (auto simp: absorb_def)
qed

lemma sim_ensureFinalizer:
  assumes "live st" "rs_object st = Some ss" "rs_vault st = Some (Inr p)" "rs_prev st = None"
    and "\<And>e. (\<And>text. err_kind e \<noteq> KPanic text) \<Longrightarrow> R (Inl e) st"
    and "\<And>ss'. R (Inr ss') (st\<lparr>rs_object := Some ss'\<rparr>)"
  shows "sim (rstep E r ctx req) st (ensureFinalizer E ctx req ss) R"
proof -
  have "R (Inr ss) st" using assms(6) [of ss] assms(2) by (metis rs_object_same)
  with assms(1-4) show ?thesis
    unfolding ensureFinalizer_def
    by (intro sim_intros sim_addFinalizer) (auto intro: assms(5,6))
qed

lemma sim_reportWriteFailure:
  assumes "live st" "rs_object st = Some ss" "rs_final st = None" "rs_claims st \<noteq> None"
    "rs_stored st = None"
  shows "sim (rstep E r ctx req) st
    (reportWriteFailure E r ctx previousState targetName targetKey ss writeErr)
    (settled r)"
  unfolding reportWriteFailure_def Let_def
  using assms
  by (intro sim_intros sim_terminal_status)
    (auto simp: settled_def intro!: justified_carried sim_intros)

lemma sim_terminalWriteStatus:
  "(\<And>reason message. reason \<noteq> [] \<Longrightarrow> R (carriedFailure ss reason message) st) \<Longrightarrow>
   sim step st (terminalWriteStatus targetName targetKey ss writeErr) R"
  unfolding terminalWriteStatus_def by (intro sim_intros) auto

lemma writerResult_stored:
  "writerResult E owner dataKey value version res lc \<Longrightarrow>
   (res = None \<longleftrightarrow> Option.bind lc acceptedWrite \<noteq> None)"
  by (cases lc) (auto simp: writerResult_def)

lemma sim_writeTarget:
  assumes st: "live st" "rs_object st = Some ss'" "rs_first st = Some first" "rs_synced st = Some ss"
      "rs_vault st = Some (Inr (value, version))" "rs_target st = Some existing" "rs_claims st \<noteq> None"
      "rs_prev st = None" "rs_stored st = None" "rs_final st = None"
    and ours: "\<And>x. existing = Some x \<Longrightarrow> \<not> foreign E ss x"
    and status: "status = inSyncStatus (baseStatus ss) version t"
    and desired: "desired = (if (\<exists>x. existing = Some x \<and> upToDate E ss value version x) then the existing
           else adopted ss value version existing)"
    and R: "\<And>res st'. settled r res st' \<Longrightarrow> R (Inl res) st'"
      "\<And>status' lc. justified E (st\<lparr>rs_prev := lc, rs_stored := Option.bind lc acceptedWrite\<rparr>) ss' status' \<Longrightarrow>
         R (Inr status') (st\<lparr>rs_prev := lc, rs_stored := Option.bind lc acceptedWrite\<rparr>)"
  shows "sim (rstep E r ctx req) st
    (writeTarget E r ctx previousState targetName (targetKeyOf first) (resolveDataKey first) ss' existing
       (priorOf E ss existing) status desired) R"
proof (cases "\<exists>x. existing = Some x \<and> upToDate E ss value version x")
  case True
  then have gate: "\<not> needsWrite existing (priorOf E ss existing) status desired"
    using write_gate(1) [OF ours desired] status by auto
  have same: "st\<lparr>rs_prev := None, rs_stored := Option.bind None acceptedWrite\<rparr> = st"
    using st(8,9) by simp
  have "justified E st ss' status" using True st status by (auto simp: justified_def)
  then have "R (Inr status) st" using R(2) [of None status] same by metis
  with gate show ?thesis by (simp add: writeTarget_def sim_return)
next
  case False
  then have gate: "needsWrite existing (priorOf E ss existing) status desired"
    using write_gate(1) [OF ours desired] status by auto
  have "value": "mapget (sec_Data desired) (resolveDataKey first) = handedValue first ss value"
    using write_gate(2) [OF ours desired, of status] status by (simp add: handedValue_def)
  have version: "st_SyncedVersion status = version" using status by simp
  have ok: "justified E (st\<lparr>rs_prev := lc, rs_stored := Option.bind lc acceptedWrite\<rparr>) ss' status"
    if "Option.bind lc acceptedWrite \<noteq> None" for lc
    using that st status by (auto simp: justified_def)
  have fail: "R (Inr (carriedFailure ss' reason message)) (st\<lparr>rs_prev := lc, rs_stored := None\<rparr>)"
    if "Option.bind lc acceptedWrite = None" "reason \<noteq> []" for lc reason message
    using R(2) [OF justified_carried, of lc reason message] that by simp
  have after: "sim (rstep E r ctx req) (st\<lparr>rs_prev := lc, rs_stored := Option.bind lc acceptedWrite\<rparr>)
      (case w of None \<Rightarrow> State_Monad.return (Inr status)
       | Some writeErr \<Rightarrow>
           if \<not> isTerminalWriteError writeErr then do {
             res \<leftarrow> reportWriteFailure E r ctx previousState targetName (targetKeyOf first) ss' writeErr;
             State_Monad.return (Inl res) }
           else do {
             status \<leftarrow> terminalWriteStatus targetName (targetKeyOf first) ss' writeErr;
             State_Monad.return (Inr status) }) R"
    if "w = None \<longleftrightarrow> Option.bind lc acceptedWrite \<noteq> None" for w lc
    using that st
    by (intro sim_intros sim_mono [OF sim_reportWriteFailure] sim_terminalWriteStatus)
      (auto simp: live_def intro: fail intro!: R ok)
  note writer = sim_CreateOrUpdate [of st ss' "value" version ss first existing E, OF st(1,2,5,4,3,6) _ st(8,9)]
  have "sim (rstep E r ctx req) st (do {
      w \<leftarrow> CreateOrUpdate E \<lparr>sw_Client = Some (rc_Client r), sw_Reader = rc_APIReader r\<rparr> ctx ss'
        (ss_Namespace first) (resolveTargetName first) (resolveDataKey first)
        (handedValue first ss value) version;
      (case w of None \<Rightarrow> State_Monad.return (Inr status)
       | Some writeErr \<Rightarrow>
           if \<not> isTerminalWriteError writeErr then do {
             res \<leftarrow> reportWriteFailure E r ctx previousState targetName (targetKeyOf first) ss' writeErr;
             State_Monad.return (Inl res) }
           else do {
             status \<leftarrow> terminalWriteStatus targetName (targetKeyOf first) ss' writeErr;
             State_Monad.return (Inr status) }) }) R"
    using False by (intro sim_bind sim_mono [OF writer]) (auto dest: writerResult_stored intro!: after)
  with gate show ?thesis
    unfolding writeTarget_def Let_def "value" version by (simp add: targetKeyOf_def)
qed

lemma settled_error:
  "(\<And>text. err_kind e \<noteq> KPanic text) \<Longrightarrow> settled r (noRequeue, Some e) st"
  by (simp add: settled_def)

lemma sim_applyOutcome:
  assumes w: "working st first ss" and st: "rs_target st = Some existing" "rs_claims st \<noteq> None"
    and says: "engineSays E st ss existing (status, desired, None) st'"
  shows "sim (rstep E r ctx req) st'
    (applyOutcome E r ctx req previousState (resolveTargetName first) (targetKeyOf first)
       (resolveDataKey first) ss existing (priorOf E ss existing) status desired) (settled r)"
proof -
  from says consider
    (failing) "st_State status = SecretSyncStateFailing" "justified E st' ss status"
        "st' = st \<or> (\<exists>e. st' = st\<lparr>rs_vault := Some (Inl e), rs_synced := Some ss\<rparr>)"
    | (insync) "value" version t where "\<And>x. existing = Some x \<Longrightarrow> \<not> foreign E ss x"
        "st' = st\<lparr>rs_vault := Some (Inr (value, version)), rs_synced := Some ss\<rparr>"
        "status = inSyncStatus (baseStatus ss) version t"
        "desired = (if (\<exists>x. existing = Some x \<and> upToDate E ss value version x) then existing
                 else Some (adopted ss value version existing))"
    unfolding engineSays_def prod.case by blast
  then show ?thesis
  proof cases
    case failing
    then show ?thesis
      using w st unfolding applyOutcome_def
      by (auto simp: working_def live_def intro!: sim_finishReconcile)
  next
    case (insync "value" version t)
    then obtain d where d: "desired = Some d"
      "d = (if (\<exists>x. existing = Some x \<and> upToDate E ss value version x) then the existing
           else adopted ss value version existing)"
      by (auto split: if_splits)
    have tail: "sim (rstep E r ctx req) (st'\<lparr>rs_object := Some ss'\<rparr>)
        (writeTarget E r ctx previousState (resolveTargetName first) (targetKeyOf first)
          (resolveDataKey first) ss' existing (priorOf E ss existing) status d)
        (\<lambda>w st''. sim (rstep E r ctx req) st'' (case w of Inl res \<Rightarrow> State_Monad.return res
         | Inr status \<Rightarrow> finishReconcile E r ctx req previousState (resolveTargetName first) ss' status)
           (settled r))" for ss'
      using w st
      by (intro sim_writeTarget [OF _ _ _ _ _ _ _ _ _ _ insync(1,3) d(2)])
        (auto simp: insync(2) working_def live_def intro!: sim_return sim_finishReconcile)
    have "live st'" "rs_object st' = Some ss" "rs_vault st' = Some (Inr (value, version))" "rs_prev st' = None"
      using w insync(2) by (simp_all add: working_def live_def)
    moreover have "st_State status \<noteq> SecretSyncStateFailing" by (simp add: insync(3))
    ultimately show ?thesis
      unfolding applyOutcome_def d(1)
      by (auto intro!: sim_bind sim_ensureFinalizer sim_return settled_error tail)
  qed
qed

lemma sim_reconcileSync:
  assumes w: "working st first ss" and st: "rs_target st = Some existing" "rs_vault st = None"
    "rs_claims st \<noteq> None"
  shows "sim (rstep E r ctx req) st
    (reconcileSync E r ctx req previousState (resolveTargetName first) (targetKeyOf first)
       (resolveDataKey first) ss existing) (settled r)"
  unfolding reconcileSync_def Let_def
  using st
  by (intro sim_bind sim_mono [OF sim_Sync [OF w st(1,2)]])
    (auto intro!: sim_prod sim_option sim_return settled_error sim_applyOutcome [OF w])

lemma sim_reconcileLive:
  assumes w: "working st first ss" and st: "rs_claims st = None" "rs_target st = None" "rs_vault st = None"
  shows "sim (rstep E r ctx req) st
    (reconcileLive E r ctx req previousState (resolveTargetName first) (targetKeyOf first)
       (resolveDataKey first) ss) (settled r)"
proof -
  have "sim (rstep E r ctx req) (st\<lparr>rs_claims := Some items\<rparr>) (do {
      fetched \<leftarrow> getSecret E (rc_Client r) ctx (targetKeyOf first);
      (case fetched of
         Inl err \<Rightarrow>
           if \<not> env_IsNotFound E err then State_Monad.return (noRequeue, Some
             (Errorf (''kvsynk8s: get secret ''
                @ nsname (nn_Namespace (targetKeyOf first)) (nn_Name (targetKeyOf first))) [err]))
           else reconcileSync E r ctx req previousState (resolveTargetName first) (targetKeyOf first)
             (resolveDataKey first) ss None
       | Inr x \<Rightarrow> reconcileSync E r ctx req previousState (resolveTargetName first) (targetKeyOf first)
             (resolveDataKey first) ss (Some x)) }) (settled r)"
    if "\<not> conflictIn ss (resolveTargetName ss) items" for items
    using w st that
    by (intro sim_bind sim_sawTarget rstep.target)
      (auto simp: working_def live_def intro!: sim_return settled_error sim_reconcileSync)
  with w st show ?thesis
    unfolding reconcileLive_def findConflictingOwner_def
    by (auto simp: working_def live_def
        intro!: sim_bind sim_claims sim_return settled_error sim_if sim_recordedConflict [where first = first])
qed

lemma sim_release:
  assumes "dying E st ss" "rs_target st \<noteq> None"
    and "\<And>x. rs_target st = Some (Some x) \<Longrightarrow> \<not> ownedBy E x ss"
    and "\<And>e. (\<forall>err text. e = Some err \<longrightarrow> err_kind err \<noteq> KPanic text) \<Longrightarrow> R e st"
  shows "sim (rstep E r ctx req) st (dropFinalizer E ctx ss) R"
  unfolding dropFinalizer_def updateSecretSync_def
proof (intro sim_bind sim_perform)
  show "\<exists>st'. rstep E r ctx req st (CUpdateSecretSync ctx (env_RemoveFinalizer E ss finalizerName) a) st'
      \<and> sim (rstep E r ctx req) st' (case a of Inl err \<Rightarrow> State_Monad.return (Some
          (Errorf (''kvsynk8s: remove finalizer from '' @ nsname (ss_Namespace ss) (ss_Name ss)) [err]))
        | Inr _ \<Rightarrow> State_Monad.return None) R" for a
    using rstep.release [OF assms(1), of "the (rs_target st)" r ctx req a] assms(2,3)
    by (intro exI [of _ st]) (auto intro!: sim_sum sim_return assms(4))
qed

lemma sim_deletion:
  assumes "dying E st ss" "rs_target st = Some (Some x)" "ownedBy E x ss"
    and "\<And>e. \<not> env_IsNotFound E e \<Longrightarrow> R (Some e) st"
    and "R None (st\<lparr>rs_target := Some None\<rparr>)"
    and "\<And>e. env_IsNotFound E e \<Longrightarrow> R (Some e) (st\<lparr>rs_target := Some None\<rparr>)"
  shows "sim (rstep E r ctx req) st (deleteSecret E ctx x) R"
  unfolding deleteSecret_def
proof (rule sim_perform)
  show "\<exists>st'. rstep E r ctx req st (CDeleteSecret ctx x a) st' \<and> R a st'" for a
    using rstep.deletion [OF assms(1-3), of r ctx req a] assms(4-)
    by (cases a) (auto split: if_splits)
qed

lemma sim_reconcileDelete:
  assumes "rs_first st = Some ss" "rs_object st = Some ss" "om_DeletionTimestamp (ss_Meta ss) \<noteq> 0"
    "rs_target st = None"
  shows "sim (rstep E r ctx req) st (reconcileDelete E r ctx ss (targetKeyOf ss))
    (\<lambda>e st'. rs_first st' = Some ss \<and> (\<forall>err text. e = Some err \<longrightarrow> err_kind err \<noteq> KPanic text))"
proof (cases "env_ContainsFinalizer E ss finalizerName")
  case True
  then have "dying E st ss" "\<And>t. dying E (st\<lparr>rs_target := t\<rparr>) ss" using assms by (simp_all add: dying_def)
  with assms show ?thesis
    unfolding reconcileDelete_def
    by (auto intro!: sim_bind sim_sawTarget rstep.deletionRead sim_release sim_deletion sim_option sim_return)
next
  case False
  with assms show ?thesis by (simp add: reconcileDelete_def sim_return)
qed

lemma rs_init_simps [simp]:
  "rs_first rs_init = None" "rs_claims rs_init = None" "rs_target rs_init = None"
  "rs_vault rs_init = None" "rs_prev rs_init = None" "rs_stored rs_init = None" "rs_final rs_init = None"
  by (simp_all add: rs_init_def)

lemma sim_fetch:
  assumes "\<And>e. R (Inl e) rs_init"
    "\<And>ss. R (Inr ss) (rs_init\<lparr>rs_first := Some ss, rs_object := Some ss\<rparr>)"
  shows "sim (rstep E r ctx req) rs_init (getSecretSync E ctx req) R"
  unfolding getSecretSync_def
proof (rule sim_perform)
  show "\<exists>st'. rstep E r ctx req rs_init (CGetSecretSync ctx req a) st' \<and> R a st'" for a
    using rstep.fetch [of rs_init E r ctx req a] assms by (cases a) auto
qed

lemma sim_Reconcile:
  "sim (rstep E r (WithTimeout ctx0 reconcileTimeout) req) rs_init (Reconcile E r ctx0 req) (settled r)"
proof -
  define ctx where "ctx = WithTimeout ctx0 reconcileTimeout"
  have deleted: "sim (rstep E r ctx req) (rs_init\<lparr>rs_first := Some ss, rs_object := Some ss\<rparr>)
      (reconcileDelete E r ctx ss (targetKeyOf ss))
      (\<lambda>e st'. rs_first st' = Some ss \<and> (\<forall>err text. e = Some err \<longrightarrow> err_kind err \<noteq> KPanic text))"
    if "om_DeletionTimestamp (ss_Meta ss) \<noteq> 0" for ss
    using that by (intro sim_reconcileDelete) simp_all
  have live: "sim (rstep E r ctx req) (rs_init\<lparr>rs_first := Some ss, rs_object := Some ss\<rparr>)
      (persistPending E ctx req ss) (\<lambda>p st'. sim (rstep E r ctx req) st' (case p of
          Inl err \<Rightarrow> State_Monad.return (noRequeue, Some err)
        | Inr ss' \<Rightarrow> reconcileLive E r ctx req (st_State (ss_Status ss)) (resolveTargetName ss)
            (targetKeyOf ss) (resolveDataKey ss) ss') (settled r))"
    if "om_DeletionTimestamp (ss_Meta ss) = 0" for ss
    using that by (intro sim_persistPending [where first = ss])
      (auto simp: working_def intro!: sim_return settled_error sim_reconcileLive)
  show ?thesis
    unfolding Reconcile_def Let_def targetKeyOf_def [symmetric] ctx_def [symmetric]
    by (intro sim_bind sim_fetch sim_sum sim_if)
      (auto simp: settled_def live_def split: option.split
        intro!: sim_return live sim_mono [OF deleted])
qed

end
