(* ===== verification/Reference_Runs.thy ===== *)
theory Reference_Runs
  imports Reconcile_Protocol
begin

text \<open>
  Whole reconciles on the reference cluster, evaluated call by call. They are the concrete inputs at
  which the properties of the controller are instantiated: a first sync after a rename, a deletion,
  a lost conflict, a second pass over a target that is up to date, and a vault that fails.
\<close>

section \<open>Scenarios\<close>

definition demoReconciler :: "cluster SecretReader \<Rightarrow> cluster SecretSyncReconciler" where
  "demoReconciler rd = \<lparr>rc_Client = ManagerClient, rc_Reader = Some rd,
     rc_ReconcileInterval = 0, rc_APIReader = Some APIReader, rc_Recorder = True\<rparr>"

abbreviation demoVault :: "cluster SecretReader" where
  "demoVault \<equiv> holding ''s3cret'' ''v1''"

abbreviation demoReq :: NamespacedName where
  "demoReq \<equiv> \<lparr>nn_Namespace = ''app'', nn_Name = ''db''\<rparr>"

abbreviation demoCtx :: goctx where
  "demoCtx \<equiv> WithTimeout RootCtx reconcileTimeout"

abbreviation demoRun ::
    "cluster SecretReader \<Rightarrow> Secret list \<Rightarrow> SecretSync list \<Rightarrow> (Result \<times> goerr option) \<times> cluster sys" where
  "demoRun rd secrets syncs \<equiv>
     run_state (Reconcile refEnv (demoReconciler rd) RootCtx demoReq) (demoSys secrets syncs)"

definition heldSecret :: Secret where
  "heldSecret = adopted demoSync ''s3cret'' ''v1'' None"

definition staleSecret :: Secret where
  "staleSecret = heldSecret\<lparr>sec_Meta := (sec_Meta heldSecret)\<lparr>om_Name := ''old''\<rparr>\<rparr>"

text \<open>The declaration once it is in sync, while it is being deleted, and an older rival.\<close>

definition syncedSync :: SecretSync where
  "syncedSync = demoSync\<lparr>ss_Meta := (ss_Meta demoSync)\<lparr>om_Finalizers := [finalizerName]\<rparr>,
     ss_Status := zeroStatus\<lparr>st_State := SecretSyncStateInSync, st_SyncedVersion := ''v1''\<rparr>\<rparr>"

definition dyingSync :: SecretSync where
  "dyingSync = syncedSync\<lparr>ss_Meta := (ss_Meta syncedSync)\<lparr>om_DeletionTimestamp := 50\<rparr>\<rparr>"

definition rivalSync :: SecretSync where
  "rivalSync = syncedSync\<lparr>ss_Meta := (ss_Meta syncedSync)\<lparr>om_Name := ''rival'', om_UID := ''u0'',
       om_CreationTimestamp := 5\<rparr>,
     ss_Spec := (ss_Spec demoSync)\<lparr>spec_Target := \<lparr>target_SecretName = ''db'', target_DataKey = []\<rparr>\<rparr>\<rparr>"

section \<open>Evaluation\<close>

lemmas reconcile_run_defs = Reconcile_def reconcileLive_def reconcileSync_def applyOutcome_def
  finishReconcile_def writeTarget_def terminalWriteStatus_def reportWriteFailure_def needsWrite_def
  priorOf_def ensureFinalizer_def reconcileConflict_def carriedFailure_def persistPending_def
  deleteStaleManagedSecrets_def reconcileDelete_def dropFinalizer_def findConflictingOwner_def
  takesPrecedence_def setReadyCondition_def recordSyncOutcome_def recordSyncResult_def recordEvent_def
  emitEvent_def incSyncTotal_def controller_call_defs perform_def now_def logAt_def
  resolveTargetName_def resolveDataKey_def ownedBy_def reconcileInterval_def readyCondition_def
  demoReconciler_def holding_def refusing_def getLatest_def Sync_def status_defs
  controllerOwnerReference_def classifyReaderError_def maps_EqualFunc_iff statusWriteContext_def
  retriedWithBackoff_def isTerminalWriteError_def

lemmas scenario_defs = heldSecret_def staleSecret_def syncedSync_def dyingSync_def rivalSync_def
  adopted_def

text \<open>First sync, with a Secret left behind under an old target name.\<close>

lemma run_rename:
  "\<exists>c0 c1 c2 c3 c5 c6 status ss x c7 stored.
     fst (demoRun demoVault [staleSecret] [demoSync]) = (\<lparr>res_RequeueAfter = 4 * Hour\<rparr>, None)
   \<and> calls (snd (demoRun demoVault [staleSecret] [demoSync])) =
       [CGetSecretSync demoCtx demoReq (Inr demoSync), c0, c1, c2,
        CGetLatest demoCtx ''kv-prod'' ''db-password'' (Inr (''s3cret'', ''v1'')),
        c5, c6, CCreateSecret demoCtx stored None,
        CUpdateStatus (statusWriteContext demoCtx) status (Inr ss), c7, CDeleteSecret demoCtx x None]
   \<and> st_State (ss_Status status) = SecretSyncStateInSync \<and> x = staleSecret"
  by (simp add: reconcile_run_defs demo_run_defs scenario_defs)

lemma run_deletion:
  "\<exists>released ss. fst (demoRun demoVault [heldSecret] [dyingSync]) = (noRequeue, None)
   \<and> calls (snd (demoRun demoVault [heldSecret] [dyingSync])) =
       [CGetSecretSync demoCtx demoReq (Inr dyingSync),
        CGetSecret ManagerClient demoCtx demoReq (Inr heldSecret),
        CDeleteSecret demoCtx heldSecret None, CUpdateSecretSync demoCtx released (Inr ss)]"
  by (simp add: reconcile_run_defs demo_run_defs scenario_defs)

lemma run_conflict:
  "\<exists>status ss. fst (demoRun demoVault [] [syncedSync, rivalSync]) = (\<lparr>res_RequeueAfter = 4 * Hour\<rparr>, None)
   \<and> calls (snd (demoRun demoVault [] [syncedSync, rivalSync])) =
       [CGetSecretSync demoCtx demoReq (Inr syncedSync),
        CListSecretSyncs demoCtx ''app'' (Inr [syncedSync, rivalSync]),
        CUpdateStatus (statusWriteContext demoCtx) status (Inr ss)]
   \<and> st_State (ss_Status status) = SecretSyncStateFailing
   \<and> st_Reason (ss_Status status) = ReasonTargetConflict"
  by (simp add: reconcile_run_defs demo_run_defs scenario_defs)

lemma run_quiet:
  "\<exists>status ss. fst (demoRun demoVault [heldSecret] [syncedSync]) = (\<lparr>res_RequeueAfter = 4 * Hour\<rparr>, None)
   \<and> calls (snd (demoRun demoVault [heldSecret] [syncedSync])) =
       [CGetSecretSync demoCtx demoReq (Inr syncedSync),
        CListSecretSyncs demoCtx ''app'' (Inr [syncedSync]),
        CGetSecret ManagerClient demoCtx demoReq (Inr heldSecret),
        CGetLatest demoCtx ''kv-prod'' ''db-password'' (Inr (''s3cret'', ''v1'')),
        CUpdateStatus (statusWriteContext demoCtx) status (Inr ss),
        CListSecrets demoCtx ''app'' LabelManagedBy LabelManagedByValue (Inr [heldSecret])]
   \<and> st_State (ss_Status status) = SecretSyncStateInSync"
  by (simp add: reconcile_run_defs demo_run_defs scenario_defs)

lemma run_vault_failure:
  "\<exists>err status ss. fst (demoRun (refusing (Sentinel ErrTransient)) [heldSecret] [syncedSync]) = (noRequeue, Some err)
   \<and> calls (snd (demoRun (refusing (Sentinel ErrTransient)) [heldSecret] [syncedSync])) =
       [CGetSecretSync demoCtx demoReq (Inr syncedSync),
        CListSecretSyncs demoCtx ''app'' (Inr [syncedSync]),
        CGetSecret ManagerClient demoCtx demoReq (Inr heldSecret),
        CGetLatest demoCtx ''kv-prod'' ''db-password'' (Inl (Sentinel ErrTransient)),
        CUpdateStatus (statusWriteContext demoCtx) status (Inr ss)]
   \<and> st_State (ss_Status status) = SecretSyncStateFailing
   \<and> st_SyncedVersion (ss_Status status) = ''v1''"
  by (simp add: reconcile_run_defs demo_run_defs scenario_defs)

end
