(* ===== verification/Reconcile_Safety.thy ===== *)
theory Reconcile_Safety
  imports Reference_Runs
begin

text \<open>
  The properties of one reconcile, for every behaviour of the cluster and of the vault. A locale
  holds the induction that all of them share: an invariant that relates the calls made so far to the
  state of a transition system. Its interpretation on the protocol of \<open>Reconcile_Protocol\<close> says that
  every piece of that state was read off an answer in the history; each property is then an
  inversion of one protocol rule.
\<close>

section \<open>Invariants over histories\<close>

locale history_invariant =
  fixes step :: "'p \<Rightarrow> call \<Rightarrow> 'p \<Rightarrow> bool"
    and init :: 'p
    and inv :: "call list \<Rightarrow> 'p \<Rightarrow> bool"
  assumes init: "inv [] init"
    and preserved: "inv h st \<Longrightarrow> step st c st' \<Longrightarrow> inv (h @ [c]) st'"
begin

lemma along_path: "inv h st \<Longrightarrow> path step st cs st' \<Longrightarrow> inv (h @ cs) st'"
proof (induction cs arbitrary: h st)
  case (Cons c cs)
  then obtain st1 where "step st c st1" "path step st1 cs st'" by auto
  with Cons preserved show ?case by fastforce
qed simp

lemma reached: "path step init cs st \<Longrightarrow> inv cs st"
  using along_path [OF init] by simp

text \<open>Every call of a path was a step from a state that satisfies the invariant.\<close>

lemma at_call:
  assumes "path step init (pre @ c # post) st"
  obtains st1 st2 where "inv pre st1" "step st1 c st2" "path step init pre st1"
  using assms reached by (fastforce simp: path_append)

end

section \<open>Vocabulary\<close>

text \<open>The server's copies of the declaration that a call returned.\<close>

fun objectOf :: "call \<Rightarrow> SecretSync option" where
  "objectOf (CGetSecretSync _ _ (Inr ss)) = Some ss"
| "objectOf (CUpdateSecretSync _ _ (Inr ss)) = Some ss"
| "objectOf (CUpdateStatus _ _ (Inr ss)) = Some ss"
| "objectOf _ = None"

text \<open>The Secrets a call returned, by a read or in a list.\<close>

fun secretsOf :: "call \<Rightarrow> Secret list" where
  "secretsOf (CGetSecret _ _ _ (Inr x)) = [x]"
| "secretsOf (CListSecrets _ _ _ _ (Inr items)) = items"
| "secretsOf _ = []"

text \<open>The clean-up of a declaration that is being deleted, as far as its calls show it: the target was read with the
  reconciler's client, and it was not found, or was not the declaration's, or was deleted.\<close>

definition deleteDone :: "'w env \<Rightarrow> call list \<Rightarrow> Secret \<Rightarrow> bool" where
  "deleteDone E h x \<longleftrightarrow> (\<exists>cx a. CDeleteSecret cx x a \<in> set h \<and> (a = None \<or> env_IsNotFound E (the a)))"

definition cleanedUp :: "'w env \<Rightarrow> 'w SecretSyncReconciler \<Rightarrow> goctx \<Rightarrow> SecretSync \<Rightarrow> call list \<Rightarrow> bool" where
  "cleanedUp E r ctx ss h \<longleftrightarrow>
     (\<exists>a. CGetSecret (rc_Client r) ctx (targetKeyOf ss) a \<in> set h
        \<and> (case a of Inl e \<Rightarrow> env_IsNotFound E e
             | Inr x \<Rightarrow> \<not> ControllerOwnedBy E x ss \<or> deleteDone E h x))"

fun isStatusUpdate :: "call \<Rightarrow> bool" where
  "isStatusUpdate (CUpdateStatus _ _ _) = True"
| "isStatusUpdate _ = False"

text \<open>The last status update of a run.\<close>

definition lastStatusUpdate :: "call list \<Rightarrow> call option" where
  "lastStatusUpdate h = find isStatusUpdate (rev h)"

text \<open>The status an accepted status update persisted, and the context it ran on.\<close>

fun persistedStatus :: "call \<Rightarrow> (goctx \<times> SecretSyncStatus) option" where
  "persistedStatus (CUpdateStatus ctx ss (Inr _)) = Some (ctx, ss_Status ss)"
| "persistedStatus _ = None"

text \<open>Each part of the protocol's state was read off an answer in the history.\<close>

definition seenObject :: "goctx \<Rightarrow> NamespacedName \<Rightarrow> call list \<Rightarrow> rstate \<Rightarrow> bool" where
  "seenObject ctx req h st \<longleftrightarrow>
     (\<forall>ss. rs_first st = Some ss \<longrightarrow> CGetSecretSync ctx req (Inr ss) \<in> set h)
   \<and> (\<forall>ss. rs_object st = Some ss \<longrightarrow> (\<exists>c\<in>set h. objectOf c = Some ss))
   \<and> (\<forall>ss. rs_synced st = Some ss \<longrightarrow> (\<exists>c\<in>set h. objectOf c = Some ss))"

definition seenOnce :: "call list \<Rightarrow> rstate \<Rightarrow> bool" where
  "seenOnce h st \<longleftrightarrow> (\<forall>cx key ss. CGetSecretSync cx key (Inr ss) \<in> set h \<longrightarrow> rs_first st = Some ss)"

definition seenTarget :: "call list \<Rightarrow> rstate \<Rightarrow> bool" where
  "seenTarget h st \<longleftrightarrow>
     (\<forall>x. rs_target st = Some (Some x) \<longrightarrow> (\<exists>c\<in>set h. secretsOf c = [x]))
   \<and> (\<forall>x. x \<in> set (rs_stale st) \<longrightarrow> (\<exists>c\<in>set h. x \<in> set (secretsOf c)))"

definition seenVault :: "goctx \<Rightarrow> call list \<Rightarrow> rstate \<Rightarrow> bool" where
  "seenVault ctx h st \<longleftrightarrow>
     (\<forall>a. rs_vault st = Some a \<longrightarrow>
        (\<exists>ss. rs_synced st = Some ss \<and> vaultCall ctx ss a \<in> set h)) \<and>
     (rs_vault st = None \<longrightarrow> list_all (\<lambda>c. \<forall>cx v n a. c \<noteq> CGetLatest cx v n a) h)"

definition seenClaims :: "goctx \<Rightarrow> call list \<Rightarrow> rstate \<Rightarrow> bool" where
  "seenClaims ctx h st \<longleftrightarrow>
     (\<forall>items. rs_claims st = Some items \<longrightarrow> (\<exists>ns. CListSecretSyncs ctx ns (Inr items) \<in> set h))
   \<and> (live st \<and> rs_target st \<noteq> None \<longrightarrow>
        (\<exists>items ss. rs_claims st = Some items \<and> (\<exists>c\<in>set h. objectOf c = Some ss)
           \<and> \<not> conflictIn ss (resolveTargetName ss) items))
   \<and> (rs_first st = None \<longrightarrow> rs_target st = None)
   \<and> (rs_vault st \<noteq> None \<longrightarrow> live st \<and> rs_target st \<noteq> None)"

definition seenFinal :: "goctx \<Rightarrow> call list \<Rightarrow> rstate \<Rightarrow> bool" where
  "seenFinal ctx h st \<longleftrightarrow>
     (\<forall>status. rs_final st = Some status \<longrightarrow> rs_claims st \<noteq> None
        \<and> (st_State status = SecretSyncStateInSync \<or> st_State status = SecretSyncStateFailing)
        \<and> (\<exists>c. lastStatusUpdate h = Some c \<and> persistedStatus c = Some (statusWriteContext ctx, status)))"

definition seenGone :: "'w env \<Rightarrow> 'w SecretSyncReconciler \<Rightarrow> goctx \<Rightarrow> call list \<Rightarrow> rstate \<Rightarrow> bool" where
  "seenGone E r ctx h st \<longleftrightarrow>
     (\<forall>ss x. dying E st ss \<and> rs_target st = Some (Some x) \<longrightarrow>
        CGetSecret (rc_Client r) ctx (targetKeyOf ss) (Inr x) \<in> set h)
   \<and> (\<forall>ss. dying E st ss \<and> rs_target st = Some None \<longrightarrow> cleanedUp E r ctx ss h)
   \<and> (rs_first st = None \<longrightarrow> rs_target st = None)"

text \<open>The answer of the first Secret read of a reconcile: the target, as the cache shows it.\<close>

fun firstSecretRead :: "call list \<Rightarrow> (goerr + Secret) option" where
  "firstSecretRead [] = None"
| "firstSecretRead (CGetSecret _ _ _ a # _) = Some a"
| "firstSecretRead (_ # cs) = firstSecretRead cs"

definition seenReads :: "call list \<Rightarrow> rstate \<Rightarrow> bool" where
  "seenReads h st \<longleftrightarrow>
     (rs_first st = None \<longrightarrow> firstSecretRead h = None \<and> rs_target st = None)
   \<and> (rs_target st \<noteq> None \<longrightarrow> firstSecretRead h \<noteq> None)
   \<and> (live st \<longrightarrow> (\<forall>x. firstSecretRead h = Some (Inr x) \<longrightarrow> rs_target st = Some (Some x)))
   \<and> (\<forall>cx v n a. CGetLatest cx v n a \<in> set h \<longrightarrow> rs_vault st = Some a)"

text \<open>Two copies of one declaration. \<open>declarationLaws\<close>: the API server answers an update of a
  declaration, or of its status, with that declaration, since both are guarded by the resource
  version; adding a finalizer changes nothing else.\<close>

definition sameDeclaration :: "SecretSync \<Rightarrow> SecretSync \<Rightarrow> bool" where
  "sameDeclaration a b \<longleftrightarrow> ss_Spec a = ss_Spec b \<and> ss_UID a = ss_UID b \<and> ss_Name a = ss_Name b
     \<and> ss_Namespace a = ss_Namespace b"

definition declarationLaws :: "'w env \<Rightarrow> bool" where
  "declarationLaws E \<longleftrightarrow>
     (\<forall>ctx ss w ss' w'. env_UpdateStatus E ctx ss w = (Inr ss', w') \<longrightarrow> sameDeclaration ss ss')
   \<and> (\<forall>ctx ss w ss' w'. env_UpdateSecretSync E ctx ss w = (Inr ss', w') \<longrightarrow> sameDeclaration ss ss')
   \<and> (\<forall>ss f. sameDeclaration (env_AddFinalizer E ss f) ss)"

fun answersSame :: "call \<Rightarrow> bool" where
  "answersSame (CUpdateStatus _ ss (Inr ss')) = sameDeclaration ss ss'"
| "answersSame (CUpdateSecretSync _ ss (Inr ss')) = sameDeclaration ss ss'"
| "answersSame _ = True"

definition seenSame :: "'w env \<Rightarrow> call list \<Rightarrow> rstate \<Rightarrow> bool" where
  "seenSame E h st \<longleftrightarrow>
     (declarationLaws E \<and> list_all answersSame h \<longrightarrow>
        (\<forall>ss first. rs_object st = Some ss \<and> rs_first st = Some first \<longrightarrow> sameDeclaration ss first)
      \<and> (\<forall>ss first. rs_synced st = Some ss \<and> rs_first st = Some first \<longrightarrow> sameDeclaration ss first))
   \<and> (rs_first st = None \<longrightarrow> rs_object st = None \<and> rs_synced st = None)"

definition storedAs :: "'w env \<Rightarrow> call list \<Rightarrow> rstate \<Rightarrow> Secret \<Rightarrow> bool" where
  "storedAs E h st x \<longleftrightarrow>
     (\<exists>ss first synced value version base c.
        rs_first st = Some first \<and> rs_synced st = Some synced \<and> rs_vault st = Some (Inr (value, version))
        \<and> c \<in> set h \<and> acceptedWrite c = Some x
        \<and> stamped E ss (resolveDataKey first) (handedValue first synced value) version base x
        \<and> (declarationLaws E \<and> list_all answersSame h \<longrightarrow> sameDeclaration ss first))"

definition seenStored :: "'w env \<Rightarrow> call list \<Rightarrow> rstate \<Rightarrow> bool" where
  "seenStored E h st \<longleftrightarrow> (\<forall>x. rs_stored st = Some x \<longrightarrow> storedAs E h st x)"

section \<open>The protocol's invariants\<close>

lemma writerStep_kind:
  "\<not> writerStep E owner ns name dataKey value version prev (CDeleteSecret cx x a)"
  "\<not> writerStep E owner ns name dataKey value version prev (CUpdateSecretSync cx ss b)"
  "\<not> writerStep E owner ns name dataKey value version prev (CUpdateStatus cx ss b)"
  "\<not> writerStep E owner ns name dataKey value version prev (CGetLatest cx v n d)"
  "\<not> writerStep E owner ns name dataKey value version prev (CGetSecretSync cx key b)"
  by (simp_all add: writerStep_def)

lemma seenObject_step:
  assumes "seenObject ctx req h st" and "rstep E r ctx req st c st'"
  shows "seenObject ctx req (h @ [c]) st'"
  using assms(2,1)
  by (cases rule: rstep.cases)
    (auto simp: seenObject_def absorb_def sawTarget_def split: sum.splits if_splits)

lemma seenOnce_step:
  assumes "seenOnce h st" and "rstep E r ctx req st c st'"
  shows "seenOnce (h @ [c]) st'"
  using assms(2,1)
  by (cases rule: rstep.cases)
    (auto simp: seenOnce_def absorb_def sawTarget_def writerStep_kind split: sum.splits if_splits)

lemma seenTarget_step:
  assumes "seenTarget h st" and "rstep E r ctx req st c st'"
  shows "seenTarget (h @ [c]) st'"
  using assms(2,1)
  by (cases rule: rstep.cases)
    (auto simp: seenTarget_def absorb_def sawTarget_def split: sum.splits if_splits)

lemma seenVault_step:
  assumes "seenVault ctx h st" and "rstep E r ctx req st c st'"
  shows "seenVault ctx (h @ [c]) st'"
  using assms(2,1)
  by (cases rule: rstep.cases)
    (auto simp: seenVault_def absorb_def sawTarget_def split: sum.splits if_splits)

lemma lastStatusUpdate_snoc [simp]:
  "lastStatusUpdate (h @ [c]) = (if isStatusUpdate c then Some c else lastStatusUpdate h)"
  by (simp add: lastStatusUpdate_def)

lemma lastStatusUpdate_set: "lastStatusUpdate h = Some c \<Longrightarrow> c \<in> set h"
  by (auto simp: lastStatusUpdate_def find_Some_iff rev_nth)

lemma writerStep_status: "writerStep E owner ns name dataKey value version prev c \<Longrightarrow> \<not> isStatusUpdate c"
  by (cases c) (simp_all add: writerStep_kind)

lemma seenFinal_step:
  assumes "seenFinal ctx h st" and "rstep E r ctx req st c st'"
  shows "seenFinal ctx (h @ [c]) st'"
  using assms(2,1)
  by (cases rule: rstep.cases)
    (auto simp: seenFinal_def absorb_def sawTarget_def justified_def dest: writerStep_status split: sum.splits if_splits)

lemma deleteDone_append: "deleteDone E h x \<Longrightarrow> deleteDone E (h @ [c]) x"
  by (auto simp: deleteDone_def)

lemma cleanedUp_append:
  assumes "cleanedUp E r ctx ss h"
  shows "cleanedUp E r ctx ss (h @ [c])"
proof -
  obtain a where "CGetSecret (rc_Client r) ctx (targetKeyOf ss) a \<in> set h"
      "case a of Inl e \<Rightarrow> env_IsNotFound E e | Inr x \<Rightarrow> \<not> ControllerOwnedBy E x ss \<or> deleteDone E h x"
    using assms unfolding cleanedUp_def by blast
  then show ?thesis
    unfolding cleanedUp_def by (intro exI [of _ a]) (auto intro: deleteDone_append split: sum.splits)
qed

lemma cleanedUp_missing:
  "env_IsNotFound E e \<Longrightarrow> cleanedUp E r ctx ss (h @ [CGetSecret (rc_Client r) ctx (targetKeyOf ss) (Inl e)])"
  unfolding cleanedUp_def by (rule exI [of _ "Inl e"]) simp

lemma cleanedUp_deleted:
  assumes "CGetSecret (rc_Client r) ctx (targetKeyOf ss) (Inr x) \<in> set h" and "a = None \<or> env_IsNotFound E (the a)"
  shows "cleanedUp E r ctx ss (h @ [CDeleteSecret cx x a])"
  using assms unfolding cleanedUp_def deleteDone_def by (intro exI [of _ "Inr x"]) auto

lemma seenGone_step:
  assumes "seenGone E r ctx h st" and "rstep E r ctx req st c st'"
  shows "seenGone E r ctx (h @ [c]) st'"
  using assms(2,1)
  by (cases rule: rstep.cases)
    (auto simp: seenGone_def dying_def live_def ownedBy_def absorb_def sawTarget_def
      intro: cleanedUp_append cleanedUp_missing cleanedUp_deleted split: sum.splits if_splits)

lemma seenClaims_step:
  assumes "seenClaims ctx h st" and "seenObject ctx req h st" and "rstep E r ctx req st c st'"
  shows "seenClaims ctx (h @ [c]) st'"
  using assms(3,1,2)
  by (cases rule: rstep.cases)
    (auto simp: seenClaims_def seenObject_def live_def dying_def absorb_def sawTarget_def split: sum.splits if_splits)

lemma sameDeclaration_simps [simp]:
  "sameDeclaration ss ss" "sameDeclaration (ss\<lparr>ss_Status := status\<rparr>) ss' = sameDeclaration ss ss'"
  by (simp_all add: sameDeclaration_def)

lemma sameDeclaration_trans:
  "sameDeclaration a b \<Longrightarrow> sameDeclaration a c \<Longrightarrow> sameDeclaration b c"
  by (simp add: sameDeclaration_def)

lemma declarationLaws_finalizer:
  assumes "declarationLaws E"
  shows "sameDeclaration (env_AddFinalizer E ss f) ss' = sameDeclaration ss ss'"
proof -
  have "sameDeclaration (env_AddFinalizer E ss f) ss"
    using assms [unfolded declarationLaws_def, THEN conjunct2, THEN conjunct2] by blast
  then show ?thesis by (simp add: sameDeclaration_def)
qed

lemma seenSame_object:
  assumes "seenSame E h st" "rs_object st = Some ss"
    and "declarationLaws E \<Longrightarrow> answersSame c \<Longrightarrow> sameDeclaration ss ss'"
  shows "seenSame E (h @ [c]) (st\<lparr>rs_object := Some ss'\<rparr>)"
  using assms sameDeclaration_trans [of ss ss'] by (auto simp: seenSame_def)

lemma seenSame_keep:
  "seenSame E h st \<Longrightarrow> rs_first st' = rs_first st \<Longrightarrow> rs_object st' = rs_object st \<Longrightarrow>
   rs_synced st' = rs_synced st \<Longrightarrow> seenSame E (h @ [c]) st'"
  by (simp add: seenSame_def)

lemma seenSame_step:
  assumes "seenSame E h st" and "rstep E r ctx req st c st'"
  shows "seenSame E (h @ [c]) st'"
  using assms(2)
proof (cases rule: rstep.cases)
  case (fetch a)
  with assms(1) show ?thesis by (cases a) (simp_all add: seenSame_def)
next
  case (pending ss status a)
  with assms(1) show ?thesis
    by (cases a) (auto simp: absorb_def intro: seenSame_keep intro!: seenSame_object)
next
  case (vault ss t a)
  with assms(1) show ?thesis by (auto simp: seenSame_def live_def)
next
  case (finalizer ss p a)
  with assms(1) show ?thesis
    by (cases a)
      (auto simp: absorb_def declarationLaws_finalizer intro: seenSame_keep intro!: seenSame_object)
next
  case (status ss status a)
  have "seenSame E (h @ [c]) (st\<lparr>rs_object := Some ss'\<rparr>)" if "a = Inr ss'" for ss'
    using assms(1) status that by (intro seenSame_object) simp_all
  with assms(1) status show ?thesis
    by (cases a) (auto simp: seenSame_def)
qed (use assms(1) in \<open>auto intro!: seenSame_keep simp: sawTarget_def split: sum.splits if_splits\<close>)

lemma storedAs_append: "storedAs E h st x \<Longrightarrow> storedAs E (h @ [c]) st x"
  unfolding storedAs_def by fastforce

lemma storedAs_cong:
  "rs_first st' = rs_first st \<Longrightarrow> rs_synced st' = rs_synced st \<Longrightarrow> rs_vault st' = rs_vault st \<Longrightarrow>
   storedAs E h st' x = storedAs E h st x"
  by (simp add: storedAs_def)

lemma seenStored_keep:
  assumes "seenStored E h st" "rs_first st' = rs_first st" "rs_synced st' = rs_synced st"
    "rs_vault st' = rs_vault st" "rs_stored st' = rs_stored st"
  shows "seenStored E (h @ [c]) st'"
  using assms(1,5) storedAs_append [of E h st _ c] storedAs_cong [OF assms(2-4)]
  unfolding seenStored_def by metis

lemma seenStored_step:
  assumes "seenStored E h st" and "seenSame E h st" and "rstep E r ctx req st c st'"
  shows "seenStored E (h @ [c]) st'"
  using assms(3)
proof (cases rule: rstep.cases)
  case (writing ss "value" version synced first t)
  have "storedAs E (h @ [c]) st' x" if x: "acceptedWrite c = Some x" for x
  proof -
    obtain base where base: "stamped E ss (resolveDataKey first) (handedValue first synced value) version base x"
      using accepted_stamped [OF writing(9) x] by blast
    have "sameDeclaration ss first" if "declarationLaws E" "list_all answersSame (h @ [c])"
      using assms(2) writing(3,6) that by (simp add: seenSame_def)
    with base writing x show ?thesis unfolding storedAs_def by fastforce
  qed
  with writing(1) show ?thesis by (simp add: seenStored_def)
next
  case (fetch a)
  with assms(1) show ?thesis by (cases a) (auto simp: seenStored_def storedAs_def)
next
  case (vault ss t a)
  with assms(1) show ?thesis by (auto simp: seenStored_def storedAs_def)
qed (use assms(1) in \<open>auto intro!: seenStored_keep simp: absorb_def sawTarget_def
    split: sum.splits if_splits\<close>)

lemma firstSecretRead_append:
  "firstSecretRead (xs @ ys) = (case firstSecretRead xs of None \<Rightarrow> firstSecretRead ys | Some a \<Rightarrow> Some a)"
  by (induction xs rule: firstSecretRead.induct) auto

lemma seenReads_step:
  assumes "seenReads h st" and "rstep E r ctx req st c st'"
  shows "seenReads (h @ [c]) st'"
  using assms(2)
proof (cases rule: rstep.cases)
  case (target ss items first a)
  with assms(1) show ?thesis
    by (cases "firstSecretRead h"; cases a)
      (auto simp: seenReads_def firstSecretRead_append sawTarget_def live_def split: if_splits)
next
  case (deletionRead ss a)
  with assms(1) show ?thesis
    by (cases "firstSecretRead h"; cases a)
      (auto simp: seenReads_def firstSecretRead_append sawTarget_def live_def dying_def split: if_splits)
next
  case (writing ss "value" version synced first t)
  then have "firstSecretRead h \<noteq> None" using assms(1) by (simp add: seenReads_def)
  with writing assms(1) show ?thesis
    by (auto simp: seenReads_def firstSecretRead_append live_def writerStep_kind)
qed (use assms(1) in \<open>auto simp: seenReads_def firstSecretRead_append absorb_def live_def dying_def
    split: sum.splits if_splits option.splits\<close>)

lemmas seen_defs = seenObject_def seenTarget_def seenVault_def seenFinal_def seenClaims_def seenGone_def seenOnce_def
  seenSame_def seenStored_def seenReads_def

lemma seen_init:
  "seenObject ctx req [] rs_init" "seenTarget [] rs_init" "seenVault ctx [] rs_init"
  "seenFinal ctx [] rs_init" "seenGone E r ctx [] rs_init" "seenClaims ctx [] rs_init"
  "seenOnce [] rs_init" "seenSame E [] rs_init" "seenStored E [] rs_init"
  "seenReads [] rs_init"
  by (simp_all add: seen_defs rs_init_def live_def dying_def)

interpretation object: history_invariant "rstep E r ctx req" rs_init "seenObject ctx req" for E r ctx req
  by unfold_locales (rule seen_init, erule (1) seenObject_step)

interpretation once: history_invariant "rstep E r ctx req" rs_init seenOnce for E r ctx req
  by unfold_locales (rule seen_init, erule (1) seenOnce_step)

interpretation target: history_invariant "rstep E r ctx req" rs_init seenTarget for E r ctx req
  by unfold_locales (rule seen_init, erule (1) seenTarget_step)

interpretation vault: history_invariant "rstep E r ctx req" rs_init "seenVault ctx" for E r ctx req
  by unfold_locales (rule seen_init, erule (1) seenVault_step)

interpretation final: history_invariant "rstep E r ctx req" rs_init "seenFinal ctx" for E r ctx req
  by unfold_locales (rule seen_init, erule (1) seenFinal_step)

interpretation gone: history_invariant "rstep E r ctx req" rs_init "seenGone E r ctx" for E r ctx req
  by unfold_locales (rule seen_init, erule (1) seenGone_step)

interpretation claims: history_invariant "rstep E r ctx req" rs_init
  "\<lambda>h st. seenClaims ctx h st \<and> seenObject ctx req h st" for E r ctx req
  by unfold_locales (simp add: seen_init, metis seenClaims_step seenObject_step)

interpretation reads: history_invariant "rstep E r ctx req" rs_init seenReads for E r ctx req
  by unfold_locales (rule seen_init, erule (1) seenReads_step)

interpretation stored: history_invariant "rstep E r ctx req" rs_init
  "\<lambda>h st. seenStored E h st \<and> seenSame E h st" for E r ctx req
  by unfold_locales (simp add: seen_init, metis seenStored_step seenSame_step)

text \<open>The state of the protocol right before a call of a reconcile.\<close>

lemma reconcile_at_call:
  assumes "run_state (Reconcile E r ctx0 req) s = (res, s')"
    and "calls s' = calls s @ pre @ c # post"
  obtains st st' where "path (rstep E r (WithTimeout ctx0 reconcileTimeout) req) rs_init pre st"
    "rstep E r (WithTimeout ctx0 reconcileTimeout) req st c st'"
proof -
  from sim_run [OF sim_Reconcile assms(1)] assms(2)
  obtain st' where "path (rstep E r (WithTimeout ctx0 reconcileTimeout) req) rs_init (pre @ c # post) st'"
    by auto
  with that show thesis by (auto simp: path_append)
qed

inductive_cases rstep_delete: "rstep E r ctx req st (CDeleteSecret cx x a) st'"
inductive_cases rstep_updateSync: "rstep E r ctx req st (CUpdateSecretSync cx ss a) st'"
inductive_cases rstep_status: "rstep E r ctx req st (CUpdateStatus cx ss a) st'"
inductive_cases rstep_vault: "rstep E r ctx req st (CGetLatest cx v n a) st'"
inductive_cases rstep_create: "rstep E r ctx req st (CCreateSecret cx x a) st'"
inductive_cases rstep_update: "rstep E r ctx req st (CUpdateSecret cx x a) st'"

section \<open>The server keeps the declaration\<close>

lemma declarationLawsD:
  assumes "declarationLaws E"
  shows "env_UpdateStatus E ctx ss w = (a, w') \<Longrightarrow> answersSame (CUpdateStatus ctx ss a)"
    and "env_UpdateSecretSync E ctx ss w = (a, w') \<Longrightarrow> answersSame (CUpdateSecretSync ctx ss a)"
proof -
  note laws = assms [unfolded declarationLaws_def]
  show "env_UpdateStatus E ctx ss w = (a, w') \<Longrightarrow> answersSame (CUpdateStatus ctx ss a)"
    using laws [THEN conjunct1, rule_format] by (cases a) auto
  show "env_UpdateSecretSync E ctx ss w = (a, w') \<Longrightarrow> answersSame (CUpdateSecretSync ctx ss a)"
    using laws [THEN conjunct2, THEN conjunct1, rule_format] by (cases a) auto
qed

lemmas effect_defs = recordSyncOutcome_def recordEvent_def recordSyncResult_def setReadyCondition_def
  terminalWriteStatus_def Let_def

lemma emits_deleteStale: "emits answersSame (deleteStale E ctx ss name items)"
  by (induction items) (auto simp: deleteSecret_def intro!: emits_intros)

lemma emits_Sync: "emits answersSame (Sync E e ctx ss existing)"
  unfolding Sync_def Let_def getLatest_def by (intro emits_intros) simp_all

lemma emits_writer_same: "emits answersSame (CreateOrUpdate E w ctx owner ns name dataKey value version)"
  unfolding writer_defs secret_call_defs by (intro emits_intros) simp_all

lemma emits_finishReconcile:
  assumes "declarationLaws E"
  shows "emits answersSame (finishReconcile E r ctx req previousState targetName ss status)"
  unfolding finishReconcile_def effect_defs deleteStaleManagedSecrets_def listSecrets_def updateStatus_def
  by (intro emits_intros emits_deleteStale) (auto intro: declarationLawsD [OF assms])

lemma emits_Reconcile:
  assumes "declarationLaws E"
  shows "emits answersSame (Reconcile E r ctx req)"
  unfolding Reconcile_def reconcileLive_def reconcileSync_def applyOutcome_def writeTarget_def
    reportWriteFailure_def reconcileConflict_def ensureFinalizer_def persistPending_def
    findConflictingOwner_def reconcileDelete_def dropFinalizer_def effect_defs controller_call_defs
  by (intro emits_intros emits_finishReconcile emits_writer_same emits_Sync)
    (auto intro: declarationLawsD [OF assms] simp: assms)

lemma refEnv_declarationLaws: "declarationLaws refEnv"
  by (auto simp: declarationLaws_def refUpdateStatus_def refUpdateSecretSync_def refPut_def
      refAddFinalizer_def sameDeclaration_def syncAt_def syncKey_def split: option.splits if_splits
      dest!: find_Some_iff [THEN iffD1])

section \<open>Properties\<close>

text \<open>
  (C5) A reconcile deletes only what the declaration owns (FR-012). Whatever the cluster answers, a
  Secret that a reconcile deletes was returned by an earlier read or list of the same reconcile, and
  its controller reference carried the UID of a copy of the declaration the server had returned.
\<close>

theorem reconcile_deletes_only_own:
  assumes "run_state (Reconcile E r ctx0 req) s = (res, s')"
    and "calls s' = calls s @ pre @ CDeleteSecret cx x a # post"
  shows "\<exists>c ss. c \<in> set pre \<and> objectOf c = Some ss \<and> ControllerOwnedBy E x ss
    \<and> (\<exists>c'\<in>set pre. x \<in> set (secretsOf c'))"
proof -
  let ?ctx = "WithTimeout ctx0 reconcileTimeout"
  obtain st st' where st: "path (rstep E r ?ctx req) rs_init pre st"
      "rstep E r ?ctx req st (CDeleteSecret cx x a) st'"
    using assms by (rule reconcile_at_call)
  note seen = object.reached [OF st(1)] target.reached [OF st(1)]
  from st(2) obtain ss where "rs_object st = Some ss" "ownedBy E x ss"
      "x \<in> set (rs_stale st) \<or> rs_target st = Some (Some x)"
    by (cases rule: rstep_delete) (auto simp: writerStep_kind dying_def)
  moreover from this(1) obtain c where "c \<in> set pre" "objectOf c = Some ss"
    using seen(1) unfolding seenObject_def by blast
  moreover have "\<exists>c'\<in>set pre. x \<in> set (secretsOf c')"
    using calculation(3) seen(2) unfolding seenTarget_def by (metis list.set_intros(1))
  ultimately show ?thesis by (auto simp: ownedBy_def)
qed

theorem reconcile_deletes_only_own_witness:
  "\<exists>pre c ss. calls (snd (demoRun demoVault [heldSecret] [dyingSync])) =
      pre @ [CDeleteSecret demoCtx heldSecret None, c]
    \<and> ControllerOwnedBy refEnv heldSecret ss \<and> (\<exists>c'\<in>set pre. objectOf c' = Some ss)"
proof -
  obtain res s' where run: "demoRun demoVault [heldSecret] [dyingSync] = (res, s')" by fastforce
  obtain released ss' where calls: "calls s' =
      [CGetSecretSync demoCtx demoReq (Inr dyingSync),
        CGetSecret ManagerClient demoCtx demoReq (Inr heldSecret),
        CDeleteSecret demoCtx heldSecret None, CUpdateSecretSync demoCtx released (Inr ss')]"
    using run_deletion run by auto
  then have "calls s' = calls (demoSys [heldSecret] [dyingSync]) @
      [CGetSecretSync demoCtx demoReq (Inr dyingSync),
        CGetSecret ManagerClient demoCtx demoReq (Inr heldSecret)] @
      CDeleteSecret demoCtx heldSecret None # [CUpdateSecretSync demoCtx released (Inr ss')]"
    by (simp add: demoSys_def)
  from reconcile_deletes_only_own [OF run this] obtain c ss
    where "c \<in> set [CGetSecretSync demoCtx demoReq (Inr dyingSync),
        CGetSecret ManagerClient demoCtx demoReq (Inr heldSecret)]"
      "objectOf c = Some ss" "ControllerOwnedBy refEnv heldSecret ss" by blast
  with run calls show ?thesis
    by (intro exI [of _ "[CGetSecretSync demoCtx demoReq (Inr dyingSync),
        CGetSecret ManagerClient demoCtx demoReq (Inr heldSecret)]"]) auto
qed

text \<open>
  (C16) Garbage collection never runs before the new target holds the value, and never hits it. In a
  reconcile of a declaration that is not being deleted, a Secret is deleted only after a status
  update with state InSync was accepted by the API server, and the deleted Secret's name is not the
  current target's.
\<close>

theorem reconcile_collects_after_insync:
  assumes "run_state (Reconcile E r ctx0 req) s = (res, s')"
    and "calls s' = calls s @ pre @ CDeleteSecret cx x a # post"
    and "CGetSecretSync cx' key (Inr ss) \<in> set pre"
    and "om_DeletionTimestamp (ss_Meta ss) = 0"
  shows "sec_Name x \<noteq> resolveTargetName ss
    \<and> (\<exists>c\<in>set pre. \<exists>ctx status. persistedStatus c = Some (ctx, status)
        \<and> st_State status = SecretSyncStateInSync)"
proof -
  let ?ctx = "WithTimeout ctx0 reconcileTimeout"
  obtain st st' where st: "path (rstep E r ?ctx req) rs_init pre st"
      "rstep E r ?ctx req st (CDeleteSecret cx x a) st'"
    using assms(1,2) by (rule reconcile_at_call)
  have first: "rs_first st = Some ss"
    using once.reached [OF st(1)] assms(3) unfolding seenOnce_def by blast
  with st(2) assms(4) obtain status where status: "rs_final st = Some status"
      "st_State status = SecretSyncStateInSync" "sec_Name x \<noteq> resolveTargetName ss"
    by (cases rule: rstep_delete) (auto simp: writerStep_kind dying_def)
  with final.reached [OF st(1)] show ?thesis unfolding seenFinal_def using lastStatusUpdate_set by blast
qed

theorem reconcile_collects_after_insync_witness:
  "\<exists>pre x. calls (snd (demoRun demoVault [staleSecret] [demoSync])) = pre @ [CDeleteSecret demoCtx x None]
    \<and> sec_Name x \<noteq> resolveTargetName demoSync
    \<and> (\<exists>c\<in>set pre. \<exists>ctx status. persistedStatus c = Some (ctx, status)
        \<and> st_State status = SecretSyncStateInSync)"
proof -
  obtain res s' where run: "demoRun demoVault [staleSecret] [demoSync] = (res, s')" by fastforce
  obtain rest x where calls: "calls s' = (CGetSecretSync demoCtx demoReq (Inr demoSync) # rest)
      @ [CDeleteSecret demoCtx x None]"
    using run_rename run by fastforce
  then have split: "calls s' = calls (demoSys [staleSecret] [demoSync]) @
      (CGetSecretSync demoCtx demoReq (Inr demoSync) # rest) @ CDeleteSecret demoCtx x None # []"
    by (simp add: demoSys_def)
  have "om_DeletionTimestamp (ss_Meta demoSync) = 0" by (simp add: demo_defs)
  from reconcile_collects_after_insync [OF run split _ this] calls run show ?thesis by fastforce
qed

text \<open>
  (C8) The finalizer is released only after the clean-up. While a declaration is being deleted, the update that
  drops the finalizer removes nothing else and comes only after a read of the target with the
  reconciler's client under the reconcile's deadline, which answered that there is none, or returned a Secret
  that is not the declaration's, or returned one that this reconcile then deleted (or found already gone). After any other
  error of the read or of the deletion the finalizer stays. In the deployed operator that client reads through the label-filtered
  cache: a Secret whose label was stripped is answered as not found (\<open>deletion_misses_stripped\<close> below).
\<close>

theorem reconcile_releases_after_cleanup:
  assumes "run_state (Reconcile E r ctx0 req) s = (res, s')"
    and "calls s' = calls s @ pre @ CUpdateSecretSync cx ss' a # post"
    and "CGetSecretSync cx' key (Inr ss) \<in> set pre"
    and "om_DeletionTimestamp (ss_Meta ss) \<noteq> 0"
  shows "ss' = env_RemoveFinalizer E ss finalizerName
    \<and> (\<exists>got. CGetSecret (rc_Client r) (WithTimeout ctx0 reconcileTimeout) (targetKeyOf ss) got \<in> set pre
        \<and> (case got of Inl e \<Rightarrow> env_IsNotFound E e
             | Inr x \<Rightarrow> \<not> ControllerOwnedBy E x ss \<or> deleteDone E pre x))"
proof -
  let ?ctx = "WithTimeout ctx0 reconcileTimeout"
  obtain st st' where st: "path (rstep E r ?ctx req) rs_init pre st"
      "rstep E r ?ctx req st (CUpdateSecretSync cx ss' a) st'"
    using assms(1,2) by (rule reconcile_at_call)
  have first: "rs_first st = Some ss"
    using once.reached [OF st(1)] assms(3) unfolding seenOnce_def by blast
  with st(2) assms(4) obtain t where t: "dying E st ss" "rs_target st = Some t"
      "\<And>x. t = Some x \<Longrightarrow> \<not> ownedBy E x ss" "ss' = env_RemoveFinalizer E ss finalizerName"
    by (cases rule: rstep_updateSync) (auto simp: writerStep_kind dying_def live_def)
  have "cleanedUp E r ?ctx ss pre"
  proof (cases t)
    case None
    with gone.reached [OF st(1)] t show ?thesis by (simp add: seenGone_def)
  next
    case (Some x)
    with gone.reached [OF st(1)] t show ?thesis
      unfolding seenGone_def cleanedUp_def by (intro exI [of _ "Inr x"]) (simp add: ownedBy_def)
  qed
  with t(4) show ?thesis unfolding cleanedUp_def by blast
qed

theorem reconcile_releases_after_cleanup_witness:
  "\<exists>pre released ss. calls (snd (demoRun demoVault [heldSecret] [dyingSync])) =
      pre @ [CUpdateSecretSync demoCtx released (Inr ss)]
    \<and> released = refRemoveFinalizer dyingSync finalizerName
    \<and> (\<exists>got. CGetSecret ManagerClient demoCtx (targetKeyOf dyingSync) got \<in> set pre
        \<and> (case got of Inl e \<Rightarrow> env_IsNotFound refEnv e
             | Inr x \<Rightarrow> \<not> ControllerOwnedBy refEnv x dyingSync \<or> deleteDone refEnv pre x))"
proof -
  obtain res s' where run: "demoRun demoVault [heldSecret] [dyingSync] = (res, s')" by fastforce
  obtain rest released ss where calls: "calls s' = (CGetSecretSync demoCtx demoReq (Inr dyingSync) # rest)
      @ [CUpdateSecretSync demoCtx released (Inr ss)]"
    using run_deletion run by fastforce
  then have split: "calls s' = calls (demoSys [heldSecret] [dyingSync]) @
      (CGetSecretSync demoCtx demoReq (Inr dyingSync) # rest) @ CUpdateSecretSync demoCtx released (Inr ss) # []"
    by (simp add: demoSys_def)
  have dying: "om_DeletionTimestamp (ss_Meta dyingSync) \<noteq> 0" by (simp add: dyingSync_def)
  have client: "rc_Client (demoReconciler demoVault) = ManagerClient" by (simp add: demoReconciler_def)
  have calls': "calls (snd (demoRun demoVault [heldSecret] [dyingSync])) =
      (CGetSecretSync demoCtx demoReq (Inr dyingSync) # rest) @ [CUpdateSecretSync demoCtx released (Inr ss)]"
    using calls run by simp
  have "CGetSecretSync demoCtx demoReq (Inr dyingSync) \<in> set (CGetSecretSync demoCtx demoReq (Inr dyingSync) # rest)" by simp
  from calls' reconcile_releases_after_cleanup [OF run split this dying, unfolded client, unfolded refEnv_simps(6)]
  show ?thesis by blast
qed

text \<open>What the filtered cache hides: the declaration's own Secret without its label is answered as not found, so the
  finalizer is released while the Secret is still there.\<close>

lemma deletion_misses_stripped:
  "\<exists>e released ss. fst (demoRun demoVault [strippedSecret] [dyingSync]) = (noRequeue, None)
   \<and> calls (snd (demoRun demoVault [strippedSecret] [dyingSync])) =
       [CGetSecretSync demoCtx demoReq (Inr dyingSync),
        CGetSecret ManagerClient demoCtx demoReq (Inl e), CUpdateSecretSync demoCtx released (Inr ss)]
   \<and> cl_Secrets (world (snd (demoRun demoVault [strippedSecret] [dyingSync]))) = [strippedSecret]
   \<and> ControllerOwnedBy refEnv strippedSecret dyingSync"
  by (simp add: reconcile_run_defs demo_run_defs scenario_defs)

text \<open>
  (C3) InSync is never a lie. When a reconcile persists the state InSync, the same reconcile has read
  the declared vault secret and got a value at exactly the version the status reports; and either the
  API server accepted a Secret of the managed shape with that value and version, controlled by the
  declaration, or the Secret it had read at the target already was the declaration's, at that version
  and with exactly that value. This needs the documented behaviour of SetControllerReference and that
  the server answers an update of a declaration with that declaration.
\<close>

theorem reconcile_insync_holds:
  assumes "ownerRefLaws E" and "declarationLaws E"
    and "run_state (Reconcile E r ctx0 req) s = (res, s')"
    and "calls s' = calls s @ pre @ CUpdateStatus cx ss a # post"
    and "st_State (ss_Status ss) = SecretSyncStateInSync"
    and "CGetSecretSync cx' key (Inr first) \<in> set pre"
  shows "\<exists>value. vaultCall (WithTimeout ctx0 reconcileTimeout) first
        (Inr (value, st_SyncedVersion (ss_Status ss))) \<in> set pre
    \<and> ((\<exists>c\<in>set pre. \<exists>x. acceptedWrite c = Some x \<and> ControllerOwnedBy E x first
          \<and> managedShape first (resolveDataKey first) value (st_SyncedVersion (ss_Status ss)) x)
       \<or> (\<exists>c\<in>set pre. \<exists>x. secretsOf c = [x] \<and> upToDate E first value (st_SyncedVersion (ss_Status ss)) x))"
proof -
  let ?ctx = "WithTimeout ctx0 reconcileTimeout"
  obtain st st' where st: "path (rstep E r ?ctx req) rs_init pre st"
      "rstep E r ?ctx req st (CUpdateStatus cx ss a) st'"
    using assms(3,4) by (rule reconcile_at_call)
  have same: "list_all answersSame pre"
    using emits_run [OF emits_Reconcile [OF assms(2)] assms(3,4)] by simp
  have first: "rs_first st = Some first"
    using once.reached [OF st(1)] assms(6) unfolding seenOnce_def by blast
  from st(2) assms(5) obtain ss0 where just: "justified E st ss0 (ss_Status ss)"
    by (cases rule: rstep_status) (auto simp: writerStep_kind)
  then obtain synced "value" where
    v: "rs_vault st = Some (Inr (value, st_SyncedVersion (ss_Status ss)))" "rs_synced st = Some synced"
      "rs_stored st \<noteq> None \<or> (\<exists>x. rs_target st = Some (Some x)
         \<and> upToDate E synced value (st_SyncedVersion (ss_Status ss)) x)"
    using assms(5) by (auto simp: justified_def)
  have inv: "seenStored E pre st" "seenSame E pre st" using stored.reached [OF st(1)] by auto
  have synced: "sameDeclaration synced first"
    using inv(2) assms(2) same first v(2) unfolding seenSame_def by blast
  then have spec: "ss_Spec synced = ss_Spec first" "ss_UID synced = ss_UID first"
    by (simp_all add: sameDeclaration_def)
  have call: "vaultCall ?ctx first (Inr (value, st_SyncedVersion (ss_Status ss))) \<in> set pre"
    using vault.reached [OF st(1)] v spec unfolding seenVault_def by auto
  from v(3) show ?thesis
  proof
    assume "rs_stored st \<noteq> None"
    then obtain x where "storedAs E pre st x" using inv(1) unfolding seenStored_def by blast
    then obtain ssw base c where c: "c \<in> set pre" "acceptedWrite c = Some x"
        "stamped E ssw (resolveDataKey first) (handedValue first synced value)
           (st_SyncedVersion (ss_Status ss)) base x" "sameDeclaration ssw first"
      using first v assms(2) same unfolding storedAs_def by auto
    have "handedValue first synced value = value"
      using spec by (simp add: handedValue_def resolveDataKey_def)
    with stamped_shape [OF assms(1) c(3)] c(4)
    have "managedShape first (resolveDataKey first) value (st_SyncedVersion (ss_Status ss)) x"
      "ControllerOwnedBy E x first"
      by (simp_all add: managedShape_def ControllerOwnedBy_def sameDeclaration_def split: option.splits)
    with c call show ?thesis by blast
  next
    assume "\<exists>x. rs_target st = Some (Some x) \<and> upToDate E synced value (st_SyncedVersion (ss_Status ss)) x"
    then obtain x where "rs_target st = Some (Some x)"
      "upToDate E first value (st_SyncedVersion (ss_Status ss)) x"
      using upToDate_cong [OF spec] by blast
    with target.reached [OF st(1)] call show ?thesis unfolding seenTarget_def by blast
  qed
qed

theorem reconcile_insync_holds_witness:
  "\<exists>pre status ss c' c''. calls (snd (demoRun demoVault [staleSecret] [demoSync])) =
      pre @ [CUpdateStatus (statusWriteContext demoCtx) status (Inr ss), c', c'']
    \<and> (\<exists>value. vaultCall demoCtx demoSync (Inr (value, st_SyncedVersion (ss_Status status))) \<in> set pre)"
proof -
  obtain res s' where run: "demoRun demoVault [staleSecret] [demoSync] = (res, s')" by fastforce
  obtain rest status ss c' c'' where calls: "calls s' = (CGetSecretSync demoCtx demoReq (Inr demoSync) # rest)
      @ [CUpdateStatus (statusWriteContext demoCtx) status (Inr ss), c', c'']"
    and insync: "st_State (ss_Status status) = SecretSyncStateInSync"
    using run_rename run by fastforce
  then have split: "calls s' = calls (demoSys [staleSecret] [demoSync]) @
      (CGetSecretSync demoCtx demoReq (Inr demoSync) # rest) @
      CUpdateStatus (statusWriteContext demoCtx) status (Inr ss) # [c', c'']"
    by (simp add: demoSys_def)
  from reconcile_insync_holds [OF refEnv_ownerRefLaws refEnv_declarationLaws run split insync]
  show ?thesis using calls run by fastforce
qed

text \<open>
  (C9) A conflict loser touches nothing (FR-012). Every vault read and every Secret Create or Update of
  a reconcile comes after the declarations of the namespace were listed and none of them had a
  stronger live claim on the same target than the server's copy of this declaration.
\<close>

theorem reconcile_acts_only_as_winner:
  assumes "run_state (Reconcile E r ctx0 req) s = (res, s')"
    and "calls s' = calls s @ pre @ c # post"
    and "isSecretCreate c \<or> isSecretUpdate c \<or> (\<exists>cx v n a. c = CGetLatest cx v n a)"
  shows "\<exists>cx ns items ss c'. CListSecretSyncs cx ns (Inr items) \<in> set pre
    \<and> c' \<in> set pre \<and> objectOf c' = Some ss \<and> \<not> conflictIn ss (resolveTargetName ss) items"
proof -
  let ?ctx = "WithTimeout ctx0 reconcileTimeout"
  obtain st st' where st: "path (rstep E r ?ctx req) rs_init pre st" "rstep E r ?ctx req st c st'"
    using assms(1,2) by (rule reconcile_at_call)
  from st(2) assms(3) have "live st \<and> rs_target st \<noteq> None"
    by (cases rule: rstep.cases) auto
  with claims.reached [OF st(1)] obtain items ss where "rs_claims st = Some items"
      "\<exists>c\<in>set pre. objectOf c = Some ss" "\<not> conflictIn ss (resolveTargetName ss) items"
    unfolding seenClaims_def by blast
  with claims.reached [OF st(1)] show ?thesis unfolding seenClaims_def by blast
qed

theorem reconcile_acts_only_as_winner_witness:
  "\<exists>pre c post items ss. calls (snd (demoRun demoVault [heldSecret] [syncedSync])) = pre @ c # post
    \<and> c = CGetLatest demoCtx ''kv-prod'' ''db-password'' (Inr (''s3cret'', ''v1''))
    \<and> \<not> conflictIn ss (resolveTargetName ss) items
    \<and> (\<exists>c'\<in>set pre. objectOf c' = Some ss)"
proof -
  obtain res s' where run: "demoRun demoVault [heldSecret] [syncedSync] = (res, s')" by fastforce
  obtain pre post where calls: "calls s' =
      pre @ CGetLatest demoCtx ''kv-prod'' ''db-password'' (Inr (''s3cret'', ''v1'')) # post"
    using run_quiet run by (metis append_Cons append_Nil snd_conv)
  then have "calls s' = calls (demoSys [heldSecret] [syncedSync]) @
      pre @ CGetLatest demoCtx ''kv-prod'' ''db-password'' (Inr (''s3cret'', ''v1'')) # post"
    by (simp add: demoSys_def)
  from reconcile_acts_only_as_winner [OF run this] calls run show ?thesis by auto
qed

text \<open>
  (C15) A pass that has nothing to change writes nothing (FR-005). When the Secret a reconcile first reads
  at the target already is the declaration's, at the version the vault answers and with exactly the
  vault's value, the whole reconcile contains no Create and no Update of a Secret, so it cannot
  retrigger itself through its watch on Secrets.
\<close>

theorem reconcile_quiet:
  assumes "declarationLaws E"
    and "run_state (Reconcile E r ctx0 req) s = (res, s')" and "calls s' = calls s @ new"
    and "CGetSecretSync cx key (Inr first) \<in> set new" and "om_DeletionTimestamp (ss_Meta first) = 0"
    and "firstSecretRead new = Some (Inr x)" and "CGetLatest cx' v n (Inr (value, version)) \<in> set new"
    and "upToDate E first value version x"
  shows "list_all (\<lambda>c. \<not> isSecretCreate c \<and> \<not> isSecretUpdate c) new"
  unfolding list_all_iff
proof (intro ballI, rule ccontr)
  fix c
  assume "c \<in> set new" and "\<not> (\<not> isSecretCreate c \<and> \<not> isSecretUpdate c)"
  then obtain pre post where new: "new = pre @ c # post" and c: "isSecretCreate c \<or> isSecretUpdate c"
    by (auto dest: split_list)
  let ?ctx = "WithTimeout ctx0 reconcileTimeout"
  obtain st st' where st: "path (rstep E r ?ctx req) rs_init pre st" "rstep E r ?ctx req st c st'"
    using assms(2,3) unfolding new by (rule reconcile_at_call)
  obtain end_st where "path (rstep E r ?ctx req) rs_init new end_st"
    using sim_run [OF sim_Reconcile assms(2)] assms(3) by auto
  note fin = reads.reached [OF this] once.reached [OF this]
  from st(2) c obtain value' version' synced t first' where
    v: "live st" "rs_vault st = Some (Inr (value', version'))" "rs_synced st = Some synced"
      "rs_first st = Some first'" "rs_target st = Some t"
      "\<And>x. t = Some x \<Longrightarrow> \<not> upToDate E synced value' version' x"
    by (cases rule: rstep.cases) auto
  have "vaultCall ?ctx synced (Inr (value', version')) \<in> set new"
    using vault.reached [OF st(1)] v(2,3) unfolding seenVault_def new by auto
  then have "Inr (value', version') = (Inr (value, version) :: goerr + string \<times> string)"
    using fin(1) assms(7) unfolding seenReads_def by (metis option.inject)
  moreover have "first' = first"
    using object.reached [OF st(1)] v(4) assms(4) fin(2) unfolding seenObject_def seenOnce_def new
    by (metis UnI1 option.inject set_append)
  moreover have "sameDeclaration synced first'"
    using stored.reached [OF st(1)] emits_run [OF emits_Reconcile [OF assms(1)] assms(2,3)] assms(1) v(3,4)
    unfolding seenSame_def new by simp
  moreover have "t = Some x"
    using reads.reached [OF st(1)] v(1,5) assms(6) unfolding seenReads_def new
    by (auto simp: firstSecretRead_append split: option.splits)
  ultimately have "ss_Spec synced = ss_Spec first" "ss_UID synced = ss_UID first"
      "\<not> upToDate E synced value version x"
    using v(6) by (auto simp: sameDeclaration_def)
  with assms(8) show False using upToDate_cong by metis
qed

theorem reconcile_quiet_witness:
  "list_all (\<lambda>c. \<not> isSecretCreate c \<and> \<not> isSecretUpdate c)
     (calls (snd (demoRun demoVault [heldSecret] [syncedSync])))"
proof -
  obtain res s' where run: "demoRun demoVault [heldSecret] [syncedSync] = (res, s')" by fastforce
  have calls: "calls s' = calls (demoSys [heldSecret] [syncedSync]) @ calls s'" by (simp add: demoSys_def)
  have facts: "CGetSecretSync demoCtx demoReq (Inr syncedSync) \<in> set (calls s')"
    "firstSecretRead (calls s') = Some (Inr heldSecret)"
    "CGetLatest demoCtx ''kv-prod'' ''db-password'' (Inr (''s3cret'', ''v1'')) \<in> set (calls s')"
    using run_quiet run by auto
  have live: "om_DeletionTimestamp (ss_Meta syncedSync) = 0" by (simp add: syncedSync_def demo_defs)
  have "upToDate refEnv syncedSync ''s3cret'' ''v1'' heldSecret"
    unfolding heldSecret_def
    by (subst upToDate_cong [of syncedSync demoSync])
      (simp_all add: syncedSync_def adopted_upToDate refEnv_controllerOfLaw)
  from reconcile_quiet [OF refEnv_declarationLaws run calls facts(1) live facts(2,3) this]
  show ?thesis using run by simp
qed

text \<open>
  (C19) A failure never erases the last known good (FR-013). A Failing status that a reconcile persists
  names a reason, and carries the last sync time and the synced version of the copy of the declaration
  the server had returned; nothing but the status of that copy changes.
\<close>

theorem reconcile_failing_carries:
  assumes "run_state (Reconcile E r ctx0 req) s = (res, s')"
    and "calls s' = calls s @ pre @ CUpdateStatus cx ss a # post"
    and "st_State (ss_Status ss) = SecretSyncStateFailing"
  shows "st_Reason (ss_Status ss) \<noteq> []
    \<and> (\<exists>c ss0. c \<in> set pre \<and> objectOf c = Some ss0 \<and> ss = ss0\<lparr>ss_Status := ss_Status ss\<rparr>
        \<and> st_LastSyncTime (ss_Status ss) = st_LastSyncTime (ss_Status ss0)
        \<and> st_SyncedVersion (ss_Status ss) = st_SyncedVersion (ss_Status ss0))"
proof -
  let ?ctx = "WithTimeout ctx0 reconcileTimeout"
  obtain st st' where st: "path (rstep E r ?ctx req) rs_init pre st"
      "rstep E r ?ctx req st (CUpdateStatus cx ss a) st'"
    using assms(1,2) by (rule reconcile_at_call)
  from st(2) assms(3) obtain ss0 where ss0: "rs_object st = Some ss0" "ss = ss0\<lparr>ss_Status := ss_Status ss\<rparr>"
      "justified E st ss0 (ss_Status ss)"
    by (cases rule: rstep_status) (auto simp: writerStep_kind)
  moreover obtain c where "c \<in> set pre" "objectOf c = Some ss0"
    using object.reached [OF st(1)] ss0(1) unfolding seenObject_def by blast
  ultimately show ?thesis using assms(3) by (auto simp: justified_def)
qed

theorem reconcile_failing_carries_witness:
  "\<exists>pre status ss. calls (snd (demoRun (refusing (Sentinel ErrTransient)) [heldSecret] [syncedSync])) =
      pre @ [CUpdateStatus (statusWriteContext demoCtx) status (Inr ss)]
    \<and> st_Reason (ss_Status status) \<noteq> []"
proof -
  obtain res s' where run: "demoRun (refusing (Sentinel ErrTransient)) [heldSecret] [syncedSync] = (res, s')"
    by fastforce
  obtain pre status ss where calls: "calls s' = pre @ [CUpdateStatus (statusWriteContext demoCtx) status (Inr ss)]"
    and failing: "st_State (ss_Status status) = SecretSyncStateFailing"
    using run_vault_failure run by (metis append_Cons append_Nil snd_conv)
  then have split: "calls s' = calls (demoSys [heldSecret] [syncedSync]) @ pre @
      CUpdateStatus (statusWriteContext demoCtx) status (Inr ss) # []" by (simp add: demoSys_def)
  from reconcile_failing_carries [OF run split failing] calls run show ?thesis by auto
qed

text \<open>
  (C18) Every reconcile is bounded, and its outcome survives the bound (FR-008). Every call a reconcile
  makes runs on a context with a time budget of at most one minute, whatever context it was started
  with; a status update that persists a terminal state runs on a context detached from that deadline
  with exactly its own five seconds; and the vault is read at most once.
\<close>

theorem reconcile_budget:
  assumes "run_state (Reconcile E r ctx0 req) s = (res, s')"
    and "calls s' = calls s @ pre @ c # post"
  shows "(\<exists>b. ctx_budget (callCtx c) = Some b \<and> b \<le> reconcileTimeout)
    \<and> (\<forall>cx ss a. c = CUpdateStatus cx ss a \<and> st_State (ss_Status ss) \<noteq> SecretSyncStatePending \<longrightarrow>
        ctx_budget cx = Some statusPersistTimeout)
    \<and> (\<forall>cx v n a. c = CGetLatest cx v n a \<longrightarrow> list_all (\<lambda>c'. \<forall>cx v n a. c' \<noteq> CGetLatest cx v n a) pre)"
proof -
  let ?ctx = "WithTimeout ctx0 reconcileTimeout"
  obtain st st' where st: "path (rstep E r ?ctx req) rs_init pre st" "rstep E r ?ctx req st c st'"
    using assms by (rule reconcile_at_call)
  have budget: "\<exists>b. ctx_budget ?ctx = Some b \<and> b \<le> reconcileTimeout" by (auto split: option.split)
  have detached: "ctx_budget (statusWriteContext ?ctx) = Some statusPersistTimeout"
    by (simp add: statusWriteContext_def)
  have once: "rs_vault st = None \<Longrightarrow> list_all (\<lambda>c'. \<forall>cx v n a. c' \<noteq> CGetLatest cx v n a) pre"
    using vault.reached [OF st(1)] unfolding seenVault_def by blast
  have "callCtx c = ?ctx \<or> callCtx c = statusWriteContext ?ctx"
    using st(2) by (cases rule: rstep.cases) auto
  with budget detached have bounded: "\<exists>b. ctx_budget (callCtx c) = Some b \<and> b \<le> reconcileTimeout" by auto
  have terminal: "ctx_budget cx = Some statusPersistTimeout"
    if "c = CUpdateStatus cx ss a" "st_State (ss_Status ss) \<noteq> SecretSyncStatePending" for cx ss a
    using st(2) that(2) detached unfolding that(1)
    by (cases rule: rstep_status) (auto simp: writerStep_kind)
  have unread: "rs_vault st = None" if "c = CGetLatest cx v n a" for cx v n a
    using st(2) unfolding that by (cases rule: rstep_vault) (auto simp: writerStep_kind)
  show ?thesis
  proof (intro conjI allI impI)
    show "ctx_budget cx = Some statusPersistTimeout"
      if "c = CUpdateStatus cx ss a \<and> st_State (ss_Status ss) \<noteq> SecretSyncStatePending" for cx ss a
      using that by (elim conjE) (rule terminal)
    show "list_all (\<lambda>c'. \<forall>cx v n a. c' \<noteq> CGetLatest cx v n a) pre" if "c = CGetLatest cx v n a" for cx v n a
      using that by (intro once unread)
  qed (rule bounded)
qed

theorem reconcile_budget_witness:
  "\<exists>pre status ss. calls (snd (demoRun demoVault [] [syncedSync, rivalSync])) =
      pre @ [CUpdateStatus (statusWriteContext demoCtx) status (Inr ss)]
    \<and> ctx_budget (statusWriteContext demoCtx) = Some statusPersistTimeout"
proof -
  obtain res s' where run: "demoRun demoVault [] [syncedSync, rivalSync] = (res, s')" by fastforce
  obtain pre status ss where calls: "calls s' = pre @ [CUpdateStatus (statusWriteContext demoCtx) status (Inr ss)]"
    and failing: "st_State (ss_Status status) = SecretSyncStateFailing"
    using run_conflict run by (metis append_Cons append_Nil snd_conv)
  then have split: "calls s' = calls (demoSys [] [syncedSync, rivalSync]) @ pre @
      CUpdateStatus (statusWriteContext demoCtx) status (Inr ss) # []" by (simp add: demoSys_def)
  have "ctx_budget (statusWriteContext demoCtx) = Some statusPersistTimeout"
    by (rule reconcile_budget [OF run split, THEN conjunct2, THEN conjunct1, rule_format,
          of _ status "Inr ss"]) (use failing in simp)
  with calls run show ?thesis by (metis snd_conv)
qed

text \<open>
  (C17) No outcome is dropped. Without an error, a reconcile either asks to be run again after the
  configured interval, and then the last status update of this run was accepted, on the detached status context,
  and its status is InSync, or Failing with a reason backoff cannot help; or the declaration is gone or being
  deleted. With an error it asks for no requeue, so the workqueue's backoff applies; and the error is not itself a
  panic (the model returns a panic unwrapped, as an error of its own kind): the nil Secret that the write gate would
  dereference cannot occur.
\<close>

theorem reconcile_result:
  assumes "run_state (Reconcile E r ctx0 req) s = ((result, err), s')" and "calls s' = calls s @ new"
  shows "case err of
      Some e \<Rightarrow> result = noRequeue \<and> (\<forall>text. err_kind e \<noteq> KPanic text)
    | None \<Rightarrow>
        (result = \<lparr>res_RequeueAfter = reconcileInterval r\<rparr> \<and> res_RequeueAfter result > 0
         \<and> (\<exists>c status. lastStatusUpdate new = Some c
              \<and> persistedStatus c = Some (statusWriteContext (WithTimeout ctx0 reconcileTimeout), status)
              \<and> (st_State status = SecretSyncStateInSync
                 \<or> st_State status = SecretSyncStateFailing \<and> \<not> retriedWithBackoff (st_Reason status))))
        \<or> (result = noRequeue \<and> (\<forall>cx key ss. CGetSecretSync cx key (Inr ss) \<in> set new \<longrightarrow>
              om_DeletionTimestamp (ss_Meta ss) \<noteq> 0))"
proof -
  from sim_run [OF sim_Reconcile assms(1)] assms(2) obtain st where
    st: "path (rstep E r (WithTimeout ctx0 reconcileTimeout) req) rs_init new st"
    and settled: "settled r (result, err) st" by auto
  have interval: "reconcileInterval r > 0" by (simp add: reconcileInterval_def)
  show ?thesis
  proof (cases err)
    case (Some e)
    with settled show ?thesis by (simp add: settled_def)
  next
    case None
    show ?thesis
    proof (cases "live st")
      case True
      with settled None obtain status where final: "rs_final st = Some status"
        "st_State status = SecretSyncStateInSync \<or> \<not> retriedWithBackoff (st_Reason status)"
        "result = \<lparr>res_RequeueAfter = reconcileInterval r\<rparr>" by (auto simp: settled_def)
      with final.reached [OF st] None interval show ?thesis unfolding seenFinal_def by auto
    next
      case False
      then have "om_DeletionTimestamp (ss_Meta ss) \<noteq> 0" if "CGetSecretSync cx key (Inr ss) \<in> set new"
        for cx key ss
        using once.reached [OF st] that unfolding seenOnce_def live_def by blast
      with settled None False show ?thesis by (auto simp: settled_def)
    qed
  qed
qed

theorem reconcile_result_witness:
  "fst (fst (demoRun demoVault [heldSecret] [syncedSync])) = \<lparr>res_RequeueAfter = 4 * Hour\<rparr>
   \<and> (\<exists>c status. lastStatusUpdate (calls (snd (demoRun demoVault [heldSecret] [syncedSync]))) = Some c
        \<and> persistedStatus c = Some (statusWriteContext demoCtx, status)
        \<and> (st_State status = SecretSyncStateInSync
           \<or> st_State status = SecretSyncStateFailing \<and> \<not> retriedWithBackoff (st_Reason status)))"
proof -
  obtain result err s' where run: "demoRun demoVault [heldSecret] [syncedSync] = ((result, err), s')"
    by (metis prod.collapse)
  then have res: "err = None" "result = \<lparr>res_RequeueAfter = 4 * Hour\<rparr>" using run_quiet by auto
  have "calls s' = calls (demoSys [heldSecret] [syncedSync]) @ calls s'" by (simp add: demoSys_def)
  from reconcile_result [OF run this] res run show ?thesis by auto
qed

end
