(* ===== verification/Status_Types.thy ===== *)
theory Status_Types
  imports Reconcile_Safety
begin

text \<open>
  The type of a status. \<open>SecretSyncState\<close>, \<open>status.reason\<close> and the Ready condition are strings in Go; the API
  documents which strings occur and how the three fit together (\<open>api/v1alpha1/secretsync_types.go\<close>). Here that is
  a predicate on statuses, and every status a reconcile sends satisfies it, for every behaviour of the
  cluster and the vault.
\<close>

section \<open>Vocabulary\<close>

text \<open>The reasons the field's documentation lists.\<close>

definition knownReasons :: "string list" where
  "knownReasons = [ReasonSecretNotFound, ReasonAccessDenied, ReasonAuthenticationFailed, ReasonTargetConflict,
     ReasonTargetImmutable, ReasonSourceDeleted, ReasonSourceDisabled, ReasonSecretWriteFailed, ReasonTransientError]"

definition readyStatus :: "SecretSyncState \<Rightarrow> ConditionStatus" where
  "readyStatus state = (if state = SecretSyncStateInSync then ConditionTrue
     else if state = SecretSyncStateFailing then ConditionFalse else ConditionUnknown)"

text \<open>What the state allows of reason and message, and the Ready condition that goes with it.\<close>

definition typedOutcome :: "SecretSyncStatus \<Rightarrow> bool" where
  "typedOutcome status \<longleftrightarrow>
     st_State status = SecretSyncStatePending
     \<or> st_State status = SecretSyncStateInSync \<and> st_Reason status = [] \<and> st_Message status = []
     \<or> st_State status = SecretSyncStateFailing \<and> st_Reason status \<in> set knownReasons"

definition readyIn :: "SecretSyncStatus \<Rightarrow> bool" where
  "readyIn status \<longleftrightarrow>
     (\<exists>c. find (\<lambda>c. cond_Type c = ConditionReady) (st_Conditions status) = Some c
        \<and> cond_Status c = readyStatus (st_State status) \<and> cond_Reason c \<noteq> []
        \<and> cond_ObservedGeneration c = st_ObservedGeneration status)"

fun statusTyped :: "call \<Rightarrow> bool" where
  "statusTyped (CUpdateStatus _ ss _) = (typedOutcome (ss_Status ss) \<and> readyIn (ss_Status ss))"
| "statusTyped _ = True"

text \<open>\<open>meta.SetStatusCondition\<close> sets the condition of that type, with a transition time of its own.\<close>

definition conditionLaw :: "'w env \<Rightarrow> bool" where
  "conditionLaw E \<longleftrightarrow>
     (\<forall>t cs c. \<exists>t'. find (\<lambda>c'. cond_Type c' = cond_Type c) (env_SetStatusCondition E t cs c) =
        Some (c\<lparr>cond_LastTransitionTime := t'\<rparr>))"

abbreviation typedStep :: "call option \<Rightarrow> call \<Rightarrow> bool" where
  "typedStep prev c \<equiv> statusTyped c"

section \<open>Lemmas\<close>

lemma proto_of_emits:
  assumes "emits Q m" and "\<And>lc c. Q c \<Longrightarrow> P lc c" and "\<And>a lc. R a lc"
  shows "proto P prev m R"
  unfolding proto_def
proof (intro allI)
  fix s
  obtain a s' where run: "run_state m s = (a, s')" by fastforce
  with assms(1) obtain new where new: "calls s' = calls s @ new" "list_all Q new"
    unfolding emits_def by (metis snd_conv)
  have "obeys P lc new" for lc using new(2) by (induction new arbitrary: lc) (auto intro: assms(2))
  with new(1) assms(3) run show "case run_state m s of (a, s') \<Rightarrow>
      \<exists>new. calls s' = calls s @ new \<and> obeys P prev new \<and> R a (lastOf prev new)" by auto
qed

lemma typedOutcome_conditions [simp]: "typedOutcome (status\<lparr>st_Conditions := cs\<rparr>) = typedOutcome status"
  by (simp add: typedOutcome_def)

lemma readyCondition_simps:
  "cond_Type (readyCondition u status) = ConditionReady"
  "cond_Status (readyCondition u status) = readyStatus (st_State status)"
  "cond_Reason (readyCondition u status) \<noteq> []"
  "cond_ObservedGeneration (readyCondition u status) = st_ObservedGeneration status"
  by (auto simp: readyCondition_def readyStatus_def split: prod.split)

lemma readyIn_set:
  assumes "conditionLaw E"
  shows "readyIn (status\<lparr>st_Conditions := env_SetStatusCondition E t cs (readyCondition (env_unicode E) status)\<rparr>)"
proof -
  let ?c = "readyCondition (env_unicode E) status"
  obtain t' where "find (\<lambda>c'. cond_Type c' = ConditionReady) (env_SetStatusCondition E t cs ?c) = Some (?c\<lparr>cond_LastTransitionTime := t'\<rparr>)"
    using assms [unfolded conditionLaw_def, rule_format, of ?c t cs] by (auto simp: readyCondition_simps)
  then show ?thesis by (simp add: readyIn_def readyCondition_simps)
qed

lemma proto_setReadyCondition:
  assumes "conditionLaw E" and "\<And>cs. readyIn (status\<lparr>st_Conditions := cs\<rparr>) \<Longrightarrow> R (status\<lparr>st_Conditions := cs\<rparr>) prev"
  shows "proto P prev (setReadyCondition E ss status) R"
  unfolding setReadyCondition_def by (intro proto_intros assms(2) readyIn_set assms(1))

lemma proto_updateStatus:
  assumes "typedOutcome (ss_Status ss)" and "readyIn (ss_Status ss)" and "\<And>a lc. R a lc"
  shows "proto typedStep prev (updateStatus E ctx ss) R"
  using assms unfolding updateStatus_def by (intro proto_intros) simp_all

lemma typed_failures:
  "reason \<in> set knownReasons \<Longrightarrow> typedOutcome (carriedFailure ss reason message)"
  "reason \<in> set knownReasons \<Longrightarrow> typedOutcome (failingStatus status reason message)"
  by (simp_all add: typedOutcome_def)

lemma classifyReaderError_known: "fst (classifyReaderError u e owner managed) \<in> set knownReasons"
  by (simp add: classifyReaderError_def knownReasons_def Let_def)

lemma typed_inSync: "typedOutcome (inSyncStatus (baseStatus owner) version t)"
  by (simp add: typedOutcome_def)

lemma proto_typedSync:
  "proto typedStep prev (Sync E e ctx owner existing) (\<lambda>a lc. snd (snd a) = None \<longrightarrow> typedOutcome (fst a))"
  unfolding proto_def
proof (intro allI)
  fix s
  obtain status desired err s' where run: "run_state (Sync E e ctx owner existing) s = ((status, desired, err), s')"
    by (metis prod_cases3 surj_pair)
  then have "\<exists>new. calls s' = calls s @ new \<and> obeys typedStep prev new \<and> (err = None \<longrightarrow> typedOutcome status)"
  proof (cases rule: Sync_cases)
    case no_reader
    then show ?thesis by (intro exI [of _ "[]"]) simp
  next
    case (conflict x message)
    then show ?thesis by (intro exI [of _ "[]"]) (simp add: typed_failures knownReasons_def)
  next
    case (failed e')
    then show ?thesis
      using classifyReaderError_known [of "env_unicode E" e' owner "\<exists>x. existing = Some x \<and> managedBy E owner x"]
      by (intro exI [of _ "[vaultCall ctx owner (Inl e')]"]) (auto simp: typed_failures split: prod.splits)
  next
    case (synced v n t)
    then show ?thesis by (intro exI [of _ "[vaultCall ctx owner (Inr (v, n))]"]) (simp add: typed_inSync)
  qed
  with run show "case run_state (Sync E e ctx owner existing) s of (a, s') \<Rightarrow>
      \<exists>new. calls s' = calls s @ new \<and> obeys typedStep prev new
        \<and> (snd (snd a) = None \<longrightarrow> typedOutcome (fst a))" by simp
qed

lemma proto_quietly:
  "(\<And>a lc. R a lc) \<Longrightarrow> proto P prev (recordSyncOutcome E r ss previousState status targetName) R"
  unfolding recordSyncOutcome_def recordEvent_def recordSyncResult_def Let_def by (intro proto_intros)

lemma emits_typed_writer: "emits statusTyped (CreateOrUpdate E w ctx owner ns name dataKey value version)"
  unfolding writer_defs secret_call_defs by (intro emits_intros) simp_all

lemma emits_typed_gc: "emits statusTyped (deleteStaleManagedSecrets E ctx ss targetName)"
proof -
  have "emits statusTyped (deleteStale E ctx ss name items)" for name items
    by (induction items) (auto simp: deleteSecret_def intro!: emits_intros)
  then show ?thesis unfolding deleteStaleManagedSecrets_def listSecrets_def by (intro emits_intros) simp_all
qed

lemma emits_typed_delete: "emits statusTyped (reconcileDelete E r ctx ss targetKey)"
  unfolding reconcileDelete_def dropFinalizer_def controller_call_defs by (intro emits_intros) simp_all

lemmas typed_parts = proto_of_emits [OF emits_typed_writer] proto_of_emits [OF emits_typed_gc]
  proto_of_emits [OF emits_typed_delete]

lemma proto_typed_finish:
  assumes "conditionLaw E" and "typedOutcome status" and "\<And>a lc. R a lc"
  shows "proto typedStep prev (finishReconcile E r ctx req previousState targetName ss status) R"
  unfolding finishReconcile_def
  using assms by (intro proto_intros proto_setReadyCondition proto_updateStatus proto_quietly typed_parts) simp_all

lemma proto_typed_conflict:
  assumes "conditionLaw E" and "\<And>a lc. R a lc"
  shows "proto typedStep prev (reconcileConflict E r ctx req previousState targetName ss) R"
  unfolding reconcileConflict_def Let_def
  using assms
  by (intro proto_intros proto_setReadyCondition proto_updateStatus proto_quietly) (simp_all add: typed_failures knownReasons_def)

lemma proto_typed_failure:
  assumes "conditionLaw E" and "\<And>a lc. R a lc"
  shows "proto typedStep prev (reportWriteFailure E r ctx previousState targetName targetKey ss writeErr) R"
  unfolding reportWriteFailure_def Let_def
  using assms
  by (intro proto_intros proto_setReadyCondition proto_updateStatus proto_quietly) (simp_all add: typed_failures knownReasons_def)

lemma proto_typed_write:
  assumes "conditionLaw E" and "typedOutcome status"
  shows "proto typedStep prev (writeTarget E r ctx previousState targetName targetKey dataKey ss existing prior status desired)
    (\<lambda>w lc. \<forall>status. w = Inr status \<longrightarrow> typedOutcome status)"
  unfolding writeTarget_def terminalWriteStatus_def Let_def
  using assms
  by (intro proto_intros typed_parts proto_typed_failure) (simp_all add: typed_failures knownReasons_def)

lemma proto_typed_outcome:
  assumes "conditionLaw E" and "typedOutcome status" and "\<And>a lc. R a lc"
  shows "proto typedStep prev (applyOutcome E r ctx req previousState targetName targetKey dataKey ss existing prior status desired) R"
  unfolding applyOutcome_def ensureFinalizer_def updateSecretSync_def
  using assms
  by (intro proto_intros proto_typed_finish proto_mono [OF proto_typed_write]) (auto intro!: proto_intros proto_typed_finish)

lemma proto_typed_Reconcile:
  assumes "conditionLaw E"
  shows "proto typedStep prev (Reconcile E r ctx req) (\<lambda>_ _. True)"
  unfolding Reconcile_def persistPending_def reconcileLive_def reconcileSync_def findConflictingOwner_def Let_def
    getSecretSync_def listSecretSyncs_def getSecret_def
  using assms
  by (intro proto_intros proto_setReadyCondition proto_updateStatus proto_typed_conflict typed_parts
      proto_mono [OF proto_typedSync])
    (auto simp: typedOutcome_def intro!: proto_intros proto_typed_outcome)

lemma obeys_typed: "obeys typedStep prev cs \<Longrightarrow> c \<in> set cs \<Longrightarrow> statusTyped c"
  by (induction cs arbitrary: prev) auto

lemma find_append_new: "find P xs = None \<Longrightarrow> P y \<Longrightarrow> find P (xs @ [y]) = Some y"
  by (induction xs) (auto split: if_splits)

lemma find_map_replace:
  "find P xs = Some x \<Longrightarrow> P y \<Longrightarrow> find P (map (\<lambda>x. if P x then y else x) xs) = Some y"
  by (induction xs) (auto split: if_splits)

lemma refEnv_conditionLaw: "conditionLaw refEnv"
  by (auto simp: conditionLaw_def refSetStatusCondition_def find_append_new find_map_replace split: option.split)

section \<open>Properties\<close>

text \<open>
  (C13) Every status a reconcile persists is well-typed. The state is Pending, InSync or Failing; a Failing status has
  one of the documented reasons, an InSync status has neither reason nor message; and its Ready condition is
  True, False or Unknown as the state says, with a reason (which the API server requires) and with the generation
  the status was computed for.
\<close>

theorem reconcile_status_typed:
  assumes "conditionLaw E" and "run_state (Reconcile E r ctx req) s = (res, s')"
    and "calls s' = calls s @ new" and "CUpdateStatus cx ss a \<in> set new"
  shows "typedOutcome (ss_Status ss) \<and> readyIn (ss_Status ss)"
proof -
  obtain new' where "calls s' = calls s @ new'" "obeys typedStep None new'"
    using proto_run [OF proto_typed_Reconcile [OF assms(1)] assms(2)] by blast
  with assms(3,4) obeys_typed [of None new "CUpdateStatus cx ss a"] show ?thesis by simp
qed

theorem reconcile_status_typed_witness:
  "\<exists>pre status ss. calls (snd (demoRun (refusing (Sentinel ErrTransient)) [heldSecret] [syncedSync])) =
      pre @ [CUpdateStatus (statusWriteContext demoCtx) status (Inr ss)]
    \<and> typedOutcome (ss_Status status) \<and> readyIn (ss_Status status)"
proof -
  obtain res s' where run: "demoRun (refusing (Sentinel ErrTransient)) [heldSecret] [syncedSync] = (res, s')"
    by fastforce
  obtain pre status ss where calls: "calls s' = pre @ [CUpdateStatus (statusWriteContext demoCtx) status (Inr ss)]"
    using run_vault_failure run by (metis append_Cons append_Nil snd_conv)
  then have split: "calls s' = calls (demoSys [heldSecret] [syncedSync]) @ calls s'" by (simp add: demoSys_def)
  have "CUpdateStatus (statusWriteContext demoCtx) status (Inr ss) \<in> set (calls s')" using calls by simp
  from reconcile_status_typed [OF refEnv_conditionLaw run split this] calls run show ?thesis by auto
qed

end
