(* ===== verification/Kube_Api.thy ===== *)
theory Kube_Api
  imports Status_Types
begin

text \<open>
  The interface to a Kubernetes API server that works: the locale \<open>kube_server\<close>. Over the environment of
  the operator it fixes what the server stores (\<open>secretOf\<close>, \<open>syncOf\<close>, and an invariant of its own) and
  assumes what a server without faults does with each call: a read of an object returns what is stored (for the
  declarations this includes the manager's cache, which is taken to be up to date); a Secret that the server
  admits is stored when it is new, or when it revises the stored one in the fields an update may change; a Secret without
  finalizers is removed by a delete; a status of the documented type is stored, with its times at the server's precision.
  What the server admits (\<open>admits\<close>: names, keys, sizes, admission control) is a parameter; nothing is assumed
  of a write it does not admit, of an update of other fields (the type of a Secret, the data of an immutable one) and of the
  deletion of a Secret with finalizers. \<open>kube_api\<close> extends it by a cache of Secrets
  that is up to date: the cached client sees the labelled ones, as they are stored. The safety properties hold for every
  environment; what the operator achieves, and not only avoids, is proved from these laws. The reference cluster is an
  instance, with its own validation.
\<close>

section \<open>Vocabulary\<close>

text \<open>What the server returns for an object that was written: the same but for the fields it sets itself.\<close>

definition sameContent :: "Secret \<Rightarrow> Secret \<Rightarrow> bool" where
  "sameContent x' x \<longleftrightarrow>
     x' = x\<lparr>sec_Meta := (sec_Meta x)\<lparr>om_UID := om_UID (sec_Meta x'),
         om_ResourceVersion := om_ResourceVersion (sec_Meta x'), om_Generation := om_Generation (sec_Meta x'),
         om_CreationTimestamp := om_CreationTimestamp (sec_Meta x')\<rparr>\<rparr>"

definition sameSync :: "SecretSync \<Rightarrow> SecretSync \<Rightarrow> bool" where
  "sameSync ss' ss \<longleftrightarrow>
     ss' = ss\<lparr>ss_Meta := (ss_Meta ss)\<lparr>om_ResourceVersion := om_ResourceVersion (ss_Meta ss')\<rparr>\<rparr>"

text \<open>The times of a status are stored in whole seconds: two statuses that agree in all else.\<close>

definition sameCondition :: "Condition \<Rightarrow> Condition \<Rightarrow> bool" where
  "sameCondition c' c \<longleftrightarrow> c' = c\<lparr>cond_LastTransitionTime := cond_LastTransitionTime c'\<rparr>"

definition sameStatus :: "SecretSyncStatus \<Rightarrow> SecretSyncStatus \<Rightarrow> bool" where
  "sameStatus st' st \<longleftrightarrow>
     st' = st\<lparr>st_LastSyncTime := st_LastSyncTime st', st_Conditions := st_Conditions st'\<rparr>
     \<and> list_all2 sameCondition (st_Conditions st') (st_Conditions st)"

text \<open>An update of a stored Secret that changes only what an update may change: labels, annotations, owner references
  and, unless the Secret is immutable, the data. The type stays, and the version is the stored one.\<close>

definition revises :: "Secret \<Rightarrow> Secret \<Rightarrow> bool" where
  "revises x old \<longleftrightarrow>
     sec_Meta x = (sec_Meta old)\<lparr>om_Labels := om_Labels (sec_Meta x), om_Annotations := om_Annotations (sec_Meta x),
         om_OwnerReferences := om_OwnerReferences (sec_Meta x)\<rparr>
     \<and> sec_Type x = sec_Type old \<and> sec_Immutable x = sec_Immutable old
     \<and> (sec_Immutable old = Some True \<longrightarrow> sec_Data x = sec_Data old)"

definition labelled :: "Secret \<Rightarrow> bool" where
  "labelled x \<longleftrightarrow> sec_Label x LabelManagedBy = LabelManagedByValue"

section \<open>A server without faults\<close>

locale kube_server =
  fixes E :: "'w env"
    and inv :: "'w \<Rightarrow> bool"
    and secretOf :: "'w \<Rightarrow> NamespacedName \<Rightarrow> Secret option"
    and syncOf :: "'w \<Rightarrow> NamespacedName \<Rightarrow> SecretSync option"
    and admits :: "Secret \<Rightarrow> bool"
  assumes owner_laws: "ownerRefLaws E"
    and set_reference: "sec_Namespace x = ss_Namespace owner \<Longrightarrow> (\<And>ref. env_GetControllerOf E x = Some ref \<Longrightarrow>
        or_Kind ref = secretSyncKind \<and> or_Name ref = ss_Name owner) \<Longrightarrow>
      \<exists>x'. env_SetControllerReference E owner x = Inr x'"
    and unowned: "om_OwnerReferences (sec_Meta x) = [] \<Longrightarrow> env_GetControllerOf E x = None"
    and add_finalizer: "\<exists>fs. env_AddFinalizer E ss f = ss\<lparr>ss_Meta := (ss_Meta ss)\<lparr>om_Finalizers := fs\<rparr>\<rparr>"
    and condition_law: "conditionLaw E"
    and remove_finalizer: "\<exists>fs. env_RemoveFinalizer E ss f = ss\<lparr>ss_Meta := (ss_Meta ss)\<lparr>om_Finalizers := fs\<rparr>\<rparr>
        \<and> \<not> env_ContainsFinalizer E (env_RemoveFinalizer E ss f) f"
    and contains_finalizer: "om_Finalizers (ss_Meta ss) = om_Finalizers (ss_Meta cur) \<Longrightarrow>
        env_ContainsFinalizer E ss f = env_ContainsFinalizer E cur f"
    and secret_key: "inv w \<Longrightarrow> secretOf w key = Some x \<Longrightarrow> secretKey x = key"
    and sync_key: "inv w \<Longrightarrow> syncOf w key = Some ss \<Longrightarrow> syncKey ss = key"
    and get_sync: "inv w \<Longrightarrow> syncOf w key = Some ss \<Longrightarrow> env_GetSecretSync E ctx key w = (Inr ss, w)"
    and list_syncs: "inv w \<Longrightarrow> \<exists>items. env_ListSecretSyncs E ctx ns w = (Inr items, w)
        \<and> set items = {ss. \<exists>key. syncOf w key = Some ss \<and> (ns = [] \<or> nn_Namespace key = ns)}"
    and api_get: "inv w \<Longrightarrow> secretOf w key = Some x \<Longrightarrow> env_GetSecret E APIReader ctx key w = (Inr x, w)"
    and api_missing: "inv w \<Longrightarrow> secretOf w key = None \<Longrightarrow>
        \<exists>e. env_GetSecret E APIReader ctx key w = (Inl e, w) \<and> env_IsNotFound E e"
    and create_secret: "inv w \<Longrightarrow> secretOf w (secretKey x) = None \<Longrightarrow> admits x \<Longrightarrow>
        \<exists>x' w'. env_CreateSecret E ctx x w = (None, w') \<and> sameContent x' x \<and> inv w'
          \<and> secretOf w' = (secretOf w)(secretKey x \<mapsto> x') \<and> syncOf w' = syncOf w"
    and create_exists: "inv w \<Longrightarrow> secretOf w (secretKey x) = Some old \<Longrightarrow>
        \<exists>e. env_CreateSecret E ctx x w = (Some e, w) \<and> env_IsAlreadyExists E e"
    and update_secret: "inv w \<Longrightarrow> secretOf w (secretKey x) = Some old \<Longrightarrow> revises x old \<Longrightarrow> admits x \<Longrightarrow>
        \<exists>x' w'. env_UpdateSecret E ctx x w = (None, w') \<and> sameContent x' x \<and> inv w'
          \<and> secretOf w' = (secretOf w)(secretKey x \<mapsto> x') \<and> syncOf w' = syncOf w"
    and delete_secret: "inv w \<Longrightarrow> secretOf w (secretKey x) = Some old \<Longrightarrow> om_Finalizers (sec_Meta old) = [] \<Longrightarrow>
        \<exists>w'. env_DeleteSecret E ctx x w = (None, w') \<and> inv w'
          \<and> secretOf w' = (secretOf w)(secretKey x := None) \<and> syncOf w' = syncOf w"
    and delete_missing: "inv w \<Longrightarrow> secretOf w (secretKey x) = None \<Longrightarrow>
        \<exists>e. env_DeleteSecret E ctx x w = (Some e, w) \<and> env_IsNotFound E e"
    and update_sync: "inv w \<Longrightarrow> syncOf w (syncKey ss) = Some cur \<Longrightarrow>
        ss = cur\<lparr>ss_Meta := (ss_Meta cur)\<lparr>om_Finalizers := fs\<rparr>\<rparr> \<Longrightarrow> om_DeletionTimestamp (ss_Meta cur) = 0 \<Longrightarrow>
        \<exists>ss' w'. env_UpdateSecretSync E ctx ss w = (Inr ss', w') \<and> sameSync ss' ss \<and> inv w'
          \<and> syncOf w' = (syncOf w)(syncKey ss \<mapsto> ss') \<and> secretOf w' = secretOf w"
    and release_sync: "inv w \<Longrightarrow> syncOf w (syncKey ss) = Some cur \<Longrightarrow>
        ss = cur\<lparr>ss_Meta := (ss_Meta cur)\<lparr>om_Finalizers := fs\<rparr>\<rparr> \<Longrightarrow> om_DeletionTimestamp (ss_Meta cur) \<noteq> 0 \<Longrightarrow>
        \<exists>ss' w'. env_UpdateSecretSync E ctx ss w = (Inr ss', w') \<and> sameSync ss' ss \<and> inv w' \<and> secretOf w' = secretOf w
          \<and> syncOf w' \<in> {(syncOf w)(syncKey ss := None), (syncOf w)(syncKey ss \<mapsto> ss')}"
    and update_status: "inv w \<Longrightarrow> syncOf w (syncKey ss) = Some cur \<Longrightarrow>
        ss = cur\<lparr>ss_Status := status\<rparr> \<Longrightarrow> typedOutcome status \<Longrightarrow> readyIn status \<Longrightarrow>
        \<exists>ss' w'. env_UpdateStatus E ctx ss w = (Inr ss', w') \<and> sameStatus (ss_Status ss') status
          \<and> sameSync ss' (ss\<lparr>ss_Status := ss_Status ss'\<rparr>) \<and> inv w'
          \<and> syncOf w' = (syncOf w)(syncKey ss \<mapsto> ss') \<and> secretOf w' = secretOf w"
    and clock: "inv w \<Longrightarrow> \<exists>t w'. env_Now E w = (t, w') \<and> inv w' \<and> secretOf w' = secretOf w \<and> syncOf w' = syncOf w"
begin

text \<open>The laws as rules for the calls of the operator.\<close>

lemma perform_wp:
  "f (world s) = (a, w') \<Longrightarrow> Q a (s\<lparr>world := w', calls := calls s @ [c a]\<rparr>) \<Longrightarrow> wp (perform c f) Q s"
  by (simp add: wp_perform)

lemma now_wp:
  assumes "inv (world s)"
    and "\<And>t s'. inv (world s') \<Longrightarrow> secretOf (world s') = secretOf (world s) \<Longrightarrow> syncOf (world s') = syncOf (world s) \<Longrightarrow> Q t s'"
  shows "wp (now E) Q s"
  using clock [OF assms(1)] assms(2) by (auto simp: wp_def now_def)

end

locale kube_api = kube_server E inv secretOf syncOf admits
  for E :: "'w env" and inv :: "'w \<Rightarrow> bool" and secretOf :: "'w \<Rightarrow> NamespacedName \<Rightarrow> Secret option"
    and syncOf :: "'w \<Rightarrow> NamespacedName \<Rightarrow> SecretSync option" and admits :: "Secret \<Rightarrow> bool" +
  assumes cached_get: "inv w \<Longrightarrow> secretOf w key = Some x \<Longrightarrow> labelled x \<Longrightarrow>
        env_GetSecret E ManagerClient ctx key w = (Inr x, w)"
    and cached_missing: "inv w \<Longrightarrow> secretOf w key = None \<or> (\<exists>x. secretOf w key = Some x \<and> \<not> labelled x) \<Longrightarrow>
        \<exists>e. env_GetSecret E ManagerClient ctx key w = (Inl e, w) \<and> env_IsNotFound E e"
    and list_secrets: "inv w \<Longrightarrow> \<exists>items. env_ListSecrets E ctx ns LabelManagedBy LabelManagedByValue w = (Inr items, w)
        \<and> set items = {x. \<exists>key. secretOf w key = Some x \<and> nn_Namespace key = ns \<and> labelled x}"

section \<open>The reference cluster\<close>

definition refInv :: "cluster \<Rightarrow> bool" where
  "refInv w \<longleftrightarrow> distinct (map secretKey (cl_Secrets w)) \<and> distinct (map syncKey (cl_Syncs w))"

definition refSecret :: "cluster \<Rightarrow> NamespacedName \<Rightarrow> Secret option" where
  "refSecret w key = find (secretAt key) (cl_Secrets w)"

definition refSync :: "cluster \<Rightarrow> NamespacedName \<Rightarrow> SecretSync option" where
  "refSync w key = find (syncAt key) (cl_Syncs w)"

lemma secretAt_iff: "secretAt key x \<longleftrightarrow> secretKey x = key"
  by (cases key) (simp add: secretAt_def secretKey_def)

lemma syncAt_iff: "syncAt key x \<longleftrightarrow> syncKey x = key"
  by (cases key) (simp add: syncAt_def syncKey_def)

text \<open>A list without duplicate keys as a map, and the effect of the three updates.\<close>

lemma find_key_iff:
  assumes "distinct (map k xs)"
  shows "find (\<lambda>x. k x = key) xs = Some x \<longleftrightarrow> x \<in> set xs \<and> k x = key"
  using assms by (induction xs) auto

lemma find_key_replace:
  assumes "k y = key'"
  shows "find (\<lambda>x. k x = key) (map (\<lambda>x. if k x = key' then y else x) xs) =
    (if key = key' then map_option (\<lambda>_. y) (find (\<lambda>x. k x = key) xs) else find (\<lambda>x. k x = key) xs)"
  using assms by (induction xs) auto

lemma map_key_replace: "k y = key' \<Longrightarrow> map (k \<circ> (\<lambda>x. if k x = key' then y else x)) xs = map k xs"
  by (induction xs) auto

lemma find_key_filter:
  "find (\<lambda>x. k x = key) (filter (\<lambda>x. k x \<noteq> key') xs) =
    (if key = key' then None else find (\<lambda>x. k x = key) xs)"
  by (induction xs) auto

lemma find_key_append:
  "find P (xs @ [y]) = (case find P xs of None \<Rightarrow> if P y then Some y else None | Some x \<Rightarrow> Some x)"
  by (induction xs) auto

lemmas ref_at = secretAt_iff [abs_def] syncAt_iff [abs_def]

lemma secretKey_bumped [simp]: "secretKey (bumped x w) = secretKey x"
  by (simp add: bumped_def secretKey_def)

lemma sameContent_bumped: "sameContent (bumped x w) x"
  by (simp add: sameContent_def bumped_def)

lemma refSecret_iff: "refInv w \<Longrightarrow> refSecret w key = Some x \<longleftrightarrow> x \<in> set (cl_Secrets w) \<and> secretKey x = key"
  by (simp add: refSecret_def refInv_def ref_at find_key_iff)

lemma refSync_iff: "refInv w \<Longrightarrow> refSync w key = Some ss \<longleftrightarrow> ss \<in> set (cl_Syncs w) \<and> syncKey ss = key"
  by (simp add: refSync_def refInv_def ref_at find_key_iff)

lemma key_namespace [simp]:
  "nn_Namespace (secretKey x) = sec_Namespace x" "nn_Namespace (syncKey ss) = ss_Namespace ss"
  by (simp_all add: secretKey_def syncKey_def)

lemma ref_notFound: "env_IsNotFound refEnv (apiError ''NotFound'')"
  by (simp add: hasReason_def apiError_def)

lemma ref_refPut:
  assumes "refInv w" and "refSync w (syncKey ss) = Some cur" and "ss_Spec ss = ss_Spec cur" and "ss_UID ss = ss_UID cur"
    and "f cur = ss'" and "syncKey ss' = syncKey ss"
  shows "\<exists>w'. refPut f ss w = (Inr ss', w') \<and> refInv w'
      \<and> refSync w' = (refSync w)(syncKey ss \<mapsto> ss') \<and> refSecret w' = refSecret w"
  using assms
  by (auto simp: refPut_def refInv_def refSync_def refSecret_def ref_at map_key_replace find_key_replace fun_eq_iff)

lemma ref_set_reference:
  assumes "sec_Namespace x = ss_Namespace owner" and "\<And>ref. refGetControllerOf x = Some ref \<Longrightarrow> or_Kind ref = secretSyncKind \<and> or_Name ref = ss_Name owner"
  shows "\<exists>x'. refSetControllerReference owner x = Inr x'"
  using assms by (auto simp: refSetControllerReference_def split: option.split)

text \<open>The laws one by one: finalizers, reads, Secrets written, declarations written.\<close>

lemma ref_finalizers:
  "\<exists>fs. env_AddFinalizer refEnv ss f = ss\<lparr>ss_Meta := (ss_Meta ss)\<lparr>om_Finalizers := fs\<rparr>\<rparr>"
  "\<exists>fs. env_RemoveFinalizer refEnv ss f = ss\<lparr>ss_Meta := (ss_Meta ss)\<lparr>om_Finalizers := fs\<rparr>\<rparr>
     \<and> \<not> env_ContainsFinalizer refEnv (env_RemoveFinalizer refEnv ss f) f"
  "om_Finalizers (ss_Meta ss) = om_Finalizers (ss_Meta cur) \<Longrightarrow>
   env_ContainsFinalizer refEnv ss f = env_ContainsFinalizer refEnv cur f"
  by (auto simp: refAddFinalizer_def refRemoveFinalizer_def refContainsFinalizer_def
      intro: exI [of _ "om_Finalizers (ss_Meta ss)"])

lemma ref_keys:
  "refSecret w key = Some x \<Longrightarrow> secretKey x = key" "refSync w key = Some ss \<Longrightarrow> syncKey ss = key"
  by (auto simp: refSecret_def refSync_def ref_at find_Some_iff)

lemma ref_reads:
  "refSync w key = Some ss \<Longrightarrow> env_GetSecretSync refEnv ctx key w = (Inr ss, w)"
  "refSecret w key = Some x \<Longrightarrow> env_GetSecret refEnv APIReader ctx key w = (Inr x, w)"
  "refSecret w key = None \<Longrightarrow> \<exists>e. env_GetSecret refEnv APIReader ctx key w = (Inl e, w) \<and> env_IsNotFound refEnv e"
  "refSecret w key = Some x \<Longrightarrow> labelled x \<Longrightarrow> env_GetSecret refEnv ManagerClient ctx key w = (Inr x, w)"
  "refSecret w key = None \<or> (\<exists>x. refSecret w key = Some x \<and> \<not> labelled x) \<Longrightarrow>
   \<exists>e. env_GetSecret refEnv ManagerClient ctx key w = (Inl e, w) \<and> env_IsNotFound refEnv e"
  using ref_notFound
  by (auto simp: refGetSecretSync_def refSync_def refGetSecret_def refSecret_def labelled_def hasLabel_def)

lemma ref_lists:
  assumes "refInv w"
  shows "\<exists>items. env_ListSecretSyncs refEnv ctx ns w = (Inr items, w)
      \<and> set items = {ss. \<exists>key. refSync w key = Some ss \<and> (ns = [] \<or> nn_Namespace key = ns)}"
    and "\<exists>items. env_ListSecrets refEnv ctx ns LabelManagedBy LabelManagedByValue w = (Inr items, w)
      \<and> set items = {x. \<exists>key. refSecret w key = Some x \<and> nn_Namespace key = ns \<and> labelled x}"
  using assms
  by (auto simp: refListSecretSyncs_def refSync_iff refListSecrets_def refSecret_iff labelled_def hasLabel_def)

lemma ref_create:
  assumes "refInv w" and "refSecret w (secretKey x) = None" and "refAdmits x"
  shows "\<exists>x' w'. env_CreateSecret refEnv ctx x w = (None, w') \<and> sameContent x' x \<and> refInv w'
    \<and> refSecret w' = (refSecret w)(secretKey x \<mapsto> x') \<and> refSync w' = refSync w"
proof -
  have none: "find (\<lambda>y. secretKey y = secretKey x) (cl_Secrets w) = None"
    using assms(2) by (simp add: refSecret_def ref_at)
  then have "secretKey x \<notin> secretKey ` set (cl_Secrets w)" by (auto simp: find_None_iff)
  moreover have "find (\<lambda>y. secretKey y = key) (cl_Secrets w @ [bumped x w]) =
      ((\<lambda>key. find (\<lambda>y. secretKey y = key) (cl_Secrets w))(secretKey x \<mapsto> bumped x w)) key" for key
    using none by (auto simp: find_key_append split: option.split)
  ultimately show ?thesis
    using assms(1,3) none sameContent_bumped [of x w]
    by (intro exI [of _ "bumped x w"])
      (simp add: refCreateSecret_def refInv_def refSecret_def refSync_def ref_at fun_eq_iff)
qed

lemma ref_create_exists:
  "refSecret w (secretKey x) = Some old \<Longrightarrow>
   \<exists>e. env_CreateSecret refEnv ctx x w = (Some e, w) \<and> env_IsAlreadyExists refEnv e"
  by (auto simp: refCreateSecret_def refSecret_def hasReason_def apiError_def)

lemma revises_version:
  assumes "revises x old"
  shows "om_ResourceVersion (sec_Meta x) = om_ResourceVersion (sec_Meta old)" "secretKey x = secretKey old"
    "om_Finalizers (sec_Meta x) = om_Finalizers (sec_Meta old)"
proof -
  obtain ls as refs where "sec_Meta x = (sec_Meta old)\<lparr>om_Labels := ls, om_Annotations := as, om_OwnerReferences := refs\<rparr>"
    using assms unfolding revises_def by blast
  then show "om_ResourceVersion (sec_Meta x) = om_ResourceVersion (sec_Meta old)" "secretKey x = secretKey old"
    "om_Finalizers (sec_Meta x) = om_Finalizers (sec_Meta old)"
    by (simp_all add: secretKey_def)
qed

lemma ref_update:
  assumes "refInv w" and "refSecret w (secretKey x) = Some old" and "revises x old" and "refAdmits x"
  shows "\<exists>x' w'. env_UpdateSecret refEnv ctx x w = (None, w') \<and> sameContent x' x \<and> refInv w'
    \<and> refSecret w' = (refSecret w)(secretKey x \<mapsto> x') \<and> refSync w' = refSync w"
proof -
  have "sec_Type x = sec_Type old" "\<not> (sec_Immutable old = Some True \<and> sec_Data x \<noteq> sec_Data old)"
    using assms(3) by (auto simp: revises_def)
  with assms(1,2,4) revises_version(1) [OF assms(3)] sameContent_bumped [of x w] show ?thesis
    by (auto simp: refUpdateSecret_def refSecret_def refSync_def refInv_def ref_at map_key_replace find_key_replace fun_eq_iff)
qed

lemma ref_delete:
  assumes "refInv w" and "refSecret w (secretKey x) = Some old" and "om_Finalizers (sec_Meta old) = []"
  shows "\<exists>w'. env_DeleteSecret refEnv ctx x w = (None, w') \<and> refInv w'
    \<and> refSecret w' = (refSecret w)(secretKey x := None) \<and> refSync w' = refSync w"
  using assms
  by (auto simp: refDeleteSecret_def refSecret_def refSync_def refInv_def ref_at find_key_filter distinct_map_filter
      fun_eq_iff)

lemma ref_delete_missing:
  "refSecret w (secretKey x) = None \<Longrightarrow> \<exists>e. env_DeleteSecret refEnv ctx x w = (Some e, w) \<and> env_IsNotFound refEnv e"
  using ref_notFound by (auto simp: refDeleteSecret_def refSecret_def)

lemma ref_update_sync:
  assumes "refInv w" and "refSync w (syncKey ss) = Some cur" and "ss = cur\<lparr>ss_Meta := (ss_Meta cur)\<lparr>om_Finalizers := fs\<rparr>\<rparr>"
  shows "\<exists>ss' w'. env_UpdateSecretSync refEnv ctx ss w = (Inr ss', w') \<and> sameSync ss' ss \<and> refInv w'
    \<and> refSync w' = (refSync w)(syncKey ss \<mapsto> ss') \<and> refSecret w' = refSecret w"
  using ref_refPut [OF assms(1,2), of "\<lambda>old. ss\<lparr>ss_Status := ss_Status old\<rparr>" ss] assms(3)
  by (auto simp: refUpdateSecretSync_def sameSync_def)

lemma sameStatus_stored: "sameStatus (stored_status status) status"
  by (simp add: sameStatus_def stored_status_def sameCondition_def list_all2_map1 list_all2_same)

lemma ref_update_status:
  assumes "refInv w" and "refSync w (syncKey ss) = Some cur" and "ss = cur\<lparr>ss_Status := status\<rparr>"
  shows "\<exists>ss' w'. env_UpdateStatus refEnv ctx ss w = (Inr ss', w') \<and> sameStatus (ss_Status ss') status
    \<and> sameSync ss' (ss\<lparr>ss_Status := ss_Status ss'\<rparr>) \<and> refInv w'
    \<and> refSync w' = (refSync w)(syncKey ss \<mapsto> ss') \<and> refSecret w' = refSecret w"
  using ref_refPut [OF assms(1,2), of "\<lambda>old. old\<lparr>ss_Status := stored_status (ss_Status ss)\<rparr>"
      "cur\<lparr>ss_Status := stored_status status\<rparr>"] assms(3)
  by (auto simp: refUpdateStatus_def sameSync_def sameStatus_stored syncKey_def)

lemma ref_clock:
  "refInv w \<Longrightarrow> \<exists>t w'. env_Now refEnv w = (t, w') \<and> refInv w' \<and> refSecret w' = refSecret w \<and> refSync w' = refSync w"
  by (auto simp: refNow_def refInv_def refSecret_def refSync_def fun_eq_iff)

lemmas ref_laws = refEnv_ownerRefLaws refEnv_conditionLaw ref_finalizers ref_keys ref_reads ref_lists ref_create
  ref_create_exists ref_update ref_delete ref_delete_missing ref_update_sync ref_update_status ref_clock

interpretation reference: kube_api refEnv refInv refSecret refSync refAdmits
proof
  fix owner x
  show "\<exists>x'. env_SetControllerReference refEnv owner x = Inr x'"
    if "sec_Namespace x = ss_Namespace owner"
      "\<And>ref. env_GetControllerOf refEnv x = Some ref \<Longrightarrow> or_Kind ref = secretSyncKind \<and> or_Name ref = ss_Name owner"
    using that ref_set_reference [of x owner] by simp
  show "env_GetControllerOf refEnv x = None" if "om_OwnerReferences (sec_Meta x) = []"
    using that by (simp add: refGetControllerOf_def)
next
  fix w ss cur status and ctx :: goctx
  assume "refInv w" "refSync w (syncKey ss) = Some cur" "ss = cur\<lparr>ss_Status := status\<rparr>"
  then show "\<exists>ss' w'. env_UpdateStatus refEnv ctx ss w = (Inr ss', w') \<and> sameStatus (ss_Status ss') status
      \<and> sameSync ss' (ss\<lparr>ss_Status := ss_Status ss'\<rparr>) \<and> refInv w'
      \<and> refSync w' = (refSync w)(syncKey ss \<mapsto> ss') \<and> refSecret w' = refSecret w"
    by (rule ref_update_status)
next
  fix w ss cur fs and ctx :: goctx
  assume "refInv w" "refSync w (syncKey ss) = Some cur" "ss = cur\<lparr>ss_Meta := (ss_Meta cur)\<lparr>om_Finalizers := fs\<rparr>\<rparr>"
  from ref_update_sync [OF this]
  show "\<exists>ss' w'. env_UpdateSecretSync refEnv ctx ss w = (Inr ss', w') \<and> sameSync ss' ss \<and> refInv w' \<and> refSecret w' = refSecret w
      \<and> refSync w' \<in> {(refSync w)(syncKey ss := None), (refSync w)(syncKey ss \<mapsto> ss')}" by blast
qed (rule ref_laws; assumption)+

end
