(* ===== verification/Target_Claims.thy ===== *)
theory Target_Claims
  imports Secretsync_Controller
begin

text \<open>
  Who may write a target Secret: \<open>takesPrecedence\<close> and the conflict scan of \<open>findConflictingOwner\<close>.
  A locale states what the scan relies on, a strict order that is total between declarations of
  different names, and proves once that such an order has exactly one unbeaten member in every
  non-empty finite collection; its interpretation discharges the laws for \<open>takesPrecedence\<close>, that is
  for creation times compared first and Go's byte-wise string order second.
\<close>

section \<open>Strict orders that break every tie\<close>

locale precedence =
  fixes before :: "'a \<Rightarrow> 'a \<Rightarrow> bool"
    and name :: "'a \<Rightarrow> 'k"
  assumes irrefl: "\<not> before a a"
    and trans: "before a b \<Longrightarrow> before b c \<Longrightarrow> before a c"
    and total: "name a \<noteq> name b \<Longrightarrow> before a b \<or> before b a"
begin

lemma asym: "before a b \<Longrightarrow> \<not> before b a"
  using irrefl trans by blast

lemma unbeaten: "xs \<noteq> [] \<Longrightarrow> \<exists>a\<in>set xs. \<forall>b\<in>set xs. \<not> before b a"
proof (induction xs rule: list_nonempty_induct)
  case (single x)
  then show ?case by (simp add: irrefl)
next
  case (cons x xs)
  then obtain a where a: "a \<in> set xs" "\<forall>b\<in>set xs. \<not> before b a" by blast
  show ?case
  proof (cases "before x a")
    case True
    with a have "\<forall>b\<in>set (x # xs). \<not> before b x" using irrefl trans by auto
    then show ?thesis by auto
  next
    case False
    with a show ?thesis by auto
  qed
qed

lemma unbeaten_unique:
  assumes "a \<in> S" "\<forall>b\<in>S. \<not> before b a" "a' \<in> S" "\<forall>b\<in>S. \<not> before b a'"
  shows "name a = name a'"
  using assms total [of a a'] by blast

end

section \<open>Vocabulary\<close>

text \<open>A declaration that has already been told it lost.\<close>

definition defeated :: "SecretSync \<Rightarrow> bool" where
  "defeated ss \<longleftrightarrow> st_State (ss_Status ss) = SecretSyncStateFailing
     \<and> st_Reason (ss_Status ss) = ReasonTargetConflict"

definition claimants :: "string \<Rightarrow> SecretSync list \<Rightarrow> bool" where
  "claimants targetName xs \<longleftrightarrow>
     list_all (\<lambda>ss. resolveTargetName ss = targetName) xs \<and> distinct (map (\<lambda>ss. ss_Name ss) xs)"

section \<open>Lemmas\<close>

lemma stringLess_irrefl: "\<not> stringLess xs xs"
  by (induction xs) auto

lemma stringLess_trans: "stringLess xs ys \<Longrightarrow> stringLess ys zs \<Longrightarrow> stringLess xs zs"
proof (induction xs zs arbitrary: ys rule: stringLess.induct)
  case (2 z zs)
  then show ?case by (cases ys) auto
next
  case (3 x xs z zs)
  then show ?case by (cases ys) (auto split: if_splits)
qed auto

lemma byte_inject: "byte x = byte y \<longleftrightarrow> x = y"
  by (simp add: byte_def)

lemma stringLess_total: "xs \<noteq> ys \<Longrightarrow> stringLess xs ys \<or> stringLess ys xs"
proof (induction xs ys rule: stringLess.induct)
  case (3 x xs y ys)
  then show ?case using byte_inject [of x y] by (cases "byte x" "byte y" rule: linorder_cases) auto
qed (auto simp: neq_Nil_conv)

interpretation claim: precedence takesPrecedence "\<lambda>ss. ss_Name ss"
proof
  show "\<not> takesPrecedence a a" for a
    by (simp add: takesPrecedence_def stringLess_irrefl)
  show "takesPrecedence a c" if "takesPrecedence a b" "takesPrecedence b c" for a b c
    using that by (auto simp: takesPrecedence_def Let_def intro: stringLess_trans split: if_splits)
  show "takesPrecedence a b \<or> takesPrecedence b a" if "ss_Name a \<noteq> ss_Name b" for a b
    using stringLess_total [OF that] by (auto simp: takesPrecedence_def Let_def)
qed

lemma conflictIn_iff:
  "conflictIn owner targetName items \<longleftrightarrow>
     (\<exists>other\<in>set items. ss_Name other \<noteq> ss_Name owner \<and> resolveTargetName other = targetName
        \<and> \<not> defeated other \<and> takesPrecedence other owner)"
  by (induction items) (auto simp: defeated_def)

section \<open>Properties\<close>

text \<open>
  (C21) There is exactly one first writer. Among any declarations of a namespace with different names
  that claim one target and have not been defeated yet, exactly one finds no stronger claim when it
  scans the others, so of all of them exactly one goes on to read the vault and write.
\<close>

theorem conflict_unique_winner:
  assumes "claimants targetName items" and "items \<noteq> []" and "list_all (\<lambda>ss. \<not> defeated ss) items"
  shows "\<exists>!ss. ss \<in> set items \<and> \<not> conflictIn ss (resolveTargetName ss) items"
proof -
  have same: "resolveTargetName ss = targetName" if "ss \<in> set items" for ss
    using assms(1) that by (auto simp: claimants_def list_all_iff)
  have live: "\<not> defeated ss" if "ss \<in> set items" for ss
    using assms(3) that by (auto simp: list_all_iff)
  have name: "a = b" if "a \<in> set items" "b \<in> set items" "ss_Name a = ss_Name b" for a b
    using assms(1) that by (auto simp: claimants_def distinct_map inj_on_def)
  have free: "\<not> conflictIn ss (resolveTargetName ss) items \<longleftrightarrow> (\<forall>b\<in>set items. \<not> takesPrecedence b ss)"
    if "ss \<in> set items" for ss
    using that same live name claim.irrefl by (metis conflictIn_iff)
  obtain a where "a \<in> set items" "\<forall>b\<in>set items. \<not> takesPrecedence b a"
    using claim.unbeaten [OF assms(2)] by blast
  then show ?thesis
    using claim.unbeaten_unique [of _ "set items"] name free by (metis (no_types, lifting))
qed

theorem conflict_unique_winner_witness:
  "\<exists>!ss. ss \<in> set [demoSync, demoSync\<lparr>ss_Meta := (ss_Meta demoSync)\<lparr>om_Name := ''x'',
         om_CreationTimestamp := 5\<rparr>,
       ss_Spec := (ss_Spec demoSync)\<lparr>spec_Target := \<lparr>target_SecretName = ''db'', target_DataKey = []\<rparr>\<rparr>\<rparr>]
     \<and> \<not> conflictIn ss (resolveTargetName ss) [demoSync, demoSync\<lparr>ss_Meta := (ss_Meta demoSync)\<lparr>om_Name := ''x'',
         om_CreationTimestamp := 5\<rparr>,
       ss_Spec := (ss_Spec demoSync)\<lparr>spec_Target := \<lparr>target_SecretName = ''db'', target_DataKey = []\<rparr>\<rparr>\<rparr>]"
  by (rule conflict_unique_winner [of "''db''"])
    (simp_all add: claimants_def resolveTargetName_def defeated_def demo_defs)

text \<open>
  Losers cannot deadlock each other. In any non-empty collection of declarations, whatever each has
  been told before, at least one finds no stronger live claim on its target.
\<close>

lemma conflict_no_deadlock:
  assumes "items \<noteq> []"
  shows "\<exists>ss\<in>set items. \<not> conflictIn ss (resolveTargetName ss) items"
  using claim.unbeaten [OF assms] by (auto simp: conflictIn_iff)

end
