(* ===== verification/Reconcile_Converges.thy ===== *)
theory Reconcile_Converges
  imports Kube_Api Target_Claims
begin

text \<open>
  What a reconcile achieves. The locale \<open>kube_vault\<close> extends the API server without faults by a vault
  that answers. In it, one reconcile of a declaration that nothing stands against brings the target
  Secret to the vault's value and the status to InSync, from whatever reclaimable state the two were in: no Secret
  yet, or an Opaque Secret with another value or version, or one whose label was stripped; the server must
  admit what is to be stored. A Secret of another type is not reclaimable, since its type is fixed by the server.

  Each rule below is the effect of one part of a reconcile on what the server stores: from a state that
  holds \<open>secs\<close> and \<open>syncs\<close>, the part ends in a state that holds the changed maps.
\<close>

section \<open>Vocabulary\<close>

definition stores ::
    "('w \<Rightarrow> bool) \<Rightarrow> ('w \<Rightarrow> NamespacedName \<Rightarrow> Secret option) \<Rightarrow> ('w \<Rightarrow> NamespacedName \<Rightarrow> SecretSync option)
     \<Rightarrow> 'w sys \<Rightarrow> (NamespacedName \<Rightarrow> Secret option) \<Rightarrow> (NamespacedName \<Rightarrow> SecretSync option) \<Rightarrow> bool" where
  "stores ok secretOf syncOf s secs syncs \<longleftrightarrow>
     ok (world s) \<and> secretOf (world s) = secs \<and> syncOf (world s) = syncs"

text \<open>A Secret the declaration may take over: no other object controls it, it is labelled or already
  controlled by the declaration, it is of the type the writer writes (the type of a Secret cannot be changed), and it is not
  an immutable one with another value.\<close>

definition reclaimable :: "'w env \<Rightarrow> SecretSync \<Rightarrow> string \<Rightarrow> Secret \<Rightarrow> bool" where
  "reclaimable E ss value x \<longleftrightarrow>
     (\<forall>ref. env_GetControllerOf E x = Some ref \<longrightarrow>
        or_UID ref = ss_UID ss \<and> or_Kind ref = secretSyncKind \<and> or_Name ref = ss_Name ss)
     \<and> (labelled x \<or> env_GetControllerOf E x \<noteq> None) \<and> sec_Type x = SecretTypeOpaque
     \<and> \<not> immutableBlocksWrite x (resolveDataKey ss) value"

text \<open>Two copies of one object: what a reconcile itself changes of it is the status, the finalizers and
  the resource version.\<close>

definition copyOf :: "SecretSync \<Rightarrow> SecretSync \<Rightarrow> bool" where
  "copyOf ss' ss \<longleftrightarrow> ss_Spec ss' = ss_Spec ss
     \<and> (\<exists>rv fs. ss_Meta ss' = (ss_Meta ss)\<lparr>om_ResourceVersion := rv, om_Finalizers := fs\<rparr>)"

text \<open>What the writer makes of \<open>base\<close> is an object the server admits, whatever resource version, finalizers and status
  the copy of the declaration has by then.\<close>

definition storable :: "'w env \<Rightarrow> (Secret \<Rightarrow> bool) \<Rightarrow> SecretSync \<Rightarrow> string \<Rightarrow> string \<Rightarrow> Secret \<Rightarrow> bool" where
  "storable E admits ss value version base \<longleftrightarrow>
     (\<forall>ss' y. copyOf ss' ss \<and> stamped E ss' (resolveDataKey ss) value version base y \<longrightarrow> admits y)"

text \<open>What a write starts from: the stored Secret, or a new one.\<close>

definition startingAt :: "(NamespacedName \<Rightarrow> Secret option) \<Rightarrow> NamespacedName \<Rightarrow> Secret" where
  "startingAt secs key =
     (case secs key of None \<Rightarrow> newSecret (nn_Namespace key) (nn_Name key) | Some x \<Rightarrow> x)"

text \<open>Nothing the server stores has a stronger live claim on the target of \<open>ss\<close>.\<close>

definition unopposed :: "(NamespacedName \<Rightarrow> SecretSync option) \<Rightarrow> SecretSync \<Rightarrow> bool" where
  "unopposed syncs ss \<longleftrightarrow>
     (\<forall>key other. syncs key = Some other \<and> (ss_Namespace ss = [] \<or> nn_Namespace key = ss_Namespace ss)
        \<and> ss_Name other \<noteq> ss_Name ss \<and> resolveTargetName other = resolveTargetName ss \<and> \<not> defeated other \<longrightarrow>
        \<not> takesPrecedence other ss)"

text \<open>A Secret the declaration left behind under another name, and what is stored once those are gone.\<close>

definition leftover :: "'w env \<Rightarrow> SecretSync \<Rightarrow> Secret \<Rightarrow> bool" where
  "leftover E ss x \<longleftrightarrow> sec_Namespace x = ss_Namespace ss \<and> sec_Name x \<noteq> resolveTargetName ss
     \<and> labelled x \<and> ControllerOwnedBy E x ss"

definition collected :: "'w env \<Rightarrow> SecretSync \<Rightarrow> (NamespacedName \<Rightarrow> Secret option) \<Rightarrow> NamespacedName \<Rightarrow> Secret option" where
  "collected E ss secs key = (case secs key of None \<Rightarrow> None | Some x \<Rightarrow> if leftover E ss x then None else Some x)"

text \<open>No finalizer of another controller keeps one of them.\<close>

definition sweepable :: "'w env \<Rightarrow> SecretSync \<Rightarrow> (NamespacedName \<Rightarrow> Secret option) \<Rightarrow> bool" where
  "sweepable E ss secs \<longleftrightarrow> (\<forall>key x. secs key = Some x \<and> leftover E ss x \<longrightarrow> om_Finalizers (sec_Meta x) = [])"

text \<open>What is stored once the declaration has let go: its target is deleted if it is its own, and
  its own entry is gone or no longer carries the operator's finalizer.\<close>

definition surrendered :: "'w env \<Rightarrow> SecretSync \<Rightarrow> (NamespacedName \<Rightarrow> Secret option) \<Rightarrow> NamespacedName \<Rightarrow> Secret option" where
  "surrendered E ss secs key = (case secs key of None \<Rightarrow> None
     | Some x \<Rightarrow> if key = targetKeyOf ss \<and> ControllerOwnedBy E x ss then None else Some x)"

definition released :: "'w env \<Rightarrow> SecretSync \<Rightarrow> SecretSync option \<Rightarrow> bool" where
  "released E ss entry \<longleftrightarrow>
     (case entry of None \<Rightarrow> True | Some ss' \<Rightarrow> copyOf ss' ss \<and> \<not> env_ContainsFinalizer E ss' finalizerName)"

text \<open>The condition \<open>kubectl wait --for=condition=Ready\<close> reads.\<close>

definition isReady :: "SecretSync \<Rightarrow> bool" where
  "isReady ss \<longleftrightarrow>
     (\<exists>c. find (\<lambda>c. cond_Type c = ConditionReady) (st_Conditions (ss_Status ss)) = Some c \<and> cond_Status c = ConditionTrue)"

text \<open>A copy of the declaration whose status says it is in sync at a version, for its current generation.\<close>

definition syncedAt :: "SecretSync \<Rightarrow> string \<Rightarrow> SecretSync \<Rightarrow> bool" where
  "syncedAt ss version ss' \<longleftrightarrow> copyOf ss' ss \<and> st_State (ss_Status ss') = SecretSyncStateInSync
     \<and> st_SyncedVersion (ss_Status ss') = version
     \<and> st_ObservedGeneration (ss_Status ss') = om_Generation (ss_Meta ss) \<and> isReady ss'"

section \<open>Copies\<close>

lemma namespaced_name: "\<lparr>nn_Namespace = nn_Namespace key, nn_Name = nn_Name key\<rparr> = key" for key :: NamespacedName
  by simp

lemma copyOf_refl [simp]: "copyOf ss ss"
  unfolding copyOf_def
  by (intro conjI exI [of _ "om_ResourceVersion (ss_Meta ss)"] exI [of _ "om_Finalizers (ss_Meta ss)"]) simp_all

lemma copyOf_trans:
  assumes "copyOf a b" and "copyOf b c"
  shows "copyOf a c"
proof -
  obtain rv fs where "ss_Meta a = (ss_Meta b)\<lparr>om_ResourceVersion := rv, om_Finalizers := fs\<rparr>"
    using assms(1) by (auto simp: copyOf_def)
  moreover obtain rv' fs' where "ss_Meta b = (ss_Meta c)\<lparr>om_ResourceVersion := rv', om_Finalizers := fs'\<rparr>"
    using assms(2) by (auto simp: copyOf_def)
  ultimately have "ss_Meta a = (ss_Meta c)\<lparr>om_ResourceVersion := rv, om_Finalizers := fs\<rparr>" by simp
  with assms show ?thesis unfolding copyOf_def by auto
qed

lemma sameSyncE:
  assumes "sameSync ss' ss"
  obtains rv where "ss' = ss\<lparr>ss_Meta := (ss_Meta ss)\<lparr>om_ResourceVersion := rv\<rparr>\<rparr>"
  using assms unfolding sameSync_def by blast

lemma copyOf_sameSync:
  assumes "sameSync ss' ss"
  shows "copyOf ss' ss"
proof -
  obtain rv where "ss' = ss\<lparr>ss_Meta := (ss_Meta ss)\<lparr>om_ResourceVersion := rv\<rparr>\<rparr>"
    using assms by (rule sameSyncE)
  then show ?thesis
    by (auto simp: copyOf_def intro!: exI [of _ rv] exI [of _ "om_Finalizers (ss_Meta ss)"])
qed

lemma copyOf_updates [simp]:
  "copyOf (ss\<lparr>ss_Status := status\<rparr>) ss'' = copyOf ss ss''" "copyOf ss'' (ss\<lparr>ss_Status := status\<rparr>) = copyOf ss'' ss"
  by (simp_all add: copyOf_def)

lemma copyOf_finalizers: "copyOf (ss\<lparr>ss_Meta := (ss_Meta ss)\<lparr>om_Finalizers := fs\<rparr>\<rparr>) ss"
  by (auto simp: copyOf_def intro!: exI [of _ "om_ResourceVersion (ss_Meta ss)"] exI [of _ fs])

lemma copyOfD:
  assumes "copyOf ss' ss"
  shows "ss_Spec ss' = ss_Spec ss" "ss_Name ss' = ss_Name ss" "ss_Namespace ss' = ss_Namespace ss"
    "ss_UID ss' = ss_UID ss" "om_Generation (ss_Meta ss') = om_Generation (ss_Meta ss)"
    "om_DeletionTimestamp (ss_Meta ss') = om_DeletionTimestamp (ss_Meta ss)"
    "om_CreationTimestamp (ss_Meta ss') = om_CreationTimestamp (ss_Meta ss)"
    "syncKey ss' = syncKey ss" "resolveTargetName ss' = resolveTargetName ss" "resolveDataKey ss' = resolveDataKey ss"
    "targetKeyOf ss' = targetKeyOf ss"
  using assms by (auto simp: copyOf_def syncKey_def resolveTargetName_def resolveDataKey_def targetKeyOf_def)

lemma copyOf_cong:
  assumes "copyOf ss' ss"
  shows "upToDate E ss' value version x = upToDate E ss value version x"
    and "reclaimable E ss' value x = reclaimable E ss value x"
    and "leftover E ss' x = leftover E ss x"
    and "takesPrecedence other ss' = takesPrecedence other ss"
  using copyOfD [OF assms]
  by (simp_all add: upToDate_def managedBy_def reclaimable_def leftover_def ControllerOwnedBy_def takesPrecedence_def
      cong: option.case_cong)

lemma storable_copy: "storable E admits ss value version base \<Longrightarrow> copyOf ss' ss \<Longrightarrow> storable E admits ss' value version base"
  using copyOf_trans copyOfD(10) unfolding storable_def by metis

lemma sweepable_copy: "copyOf ss' ss \<Longrightarrow> sweepable E ss' secs = sweepable E ss secs"
  by (simp add: sweepable_def copyOf_cong(3))

lemma sameStatusD:
  assumes "sameStatus st' st"
  shows "st_State st' = st_State st" "st_SyncedVersion st' = st_SyncedVersion st"
    "st_ObservedGeneration st' = st_ObservedGeneration st"
proof -
  obtain t cs where "st' = st\<lparr>st_LastSyncTime := t, st_Conditions := cs\<rparr>" using assms unfolding sameStatus_def by blast
  then show "st_State st' = st_State st" "st_SyncedVersion st' = st_SyncedVersion st"
    "st_ObservedGeneration st' = st_ObservedGeneration st" by simp_all
qed

lemma sameCondition_fields:
  assumes "sameCondition c' c"
  shows "cond_Type c' = cond_Type c" "cond_Status c' = cond_Status c"
proof -
  obtain t where "c' = c\<lparr>cond_LastTransitionTime := t\<rparr>" using assms unfolding sameCondition_def by blast
  then show "cond_Type c' = cond_Type c" "cond_Status c' = cond_Status c" by simp_all
qed

lemma sameStatus_ready:
  assumes "sameStatus (ss_Status ss) status" and "readyIn status" and "st_State status = SecretSyncStateInSync"
  shows "isReady ss"
proof -
  have "\<exists>c'. find (\<lambda>c. cond_Type c = ConditionReady) cs' = Some c' \<and> cond_Status c' = cond_Status c"
    if "list_all2 sameCondition cs' cs" "find (\<lambda>c. cond_Type c = ConditionReady) cs = Some c" for cs' cs c
    using that by (induction rule: list_all2_induct) (auto simp: sameCondition_fields split: if_splits)
  moreover have "list_all2 sameCondition (st_Conditions (ss_Status ss)) (st_Conditions status)"
    using assms(1) by (simp add: sameStatus_def)
  ultimately show ?thesis using assms(2,3) unfolding readyIn_def isReady_def readyStatus_def by fastforce
qed

lemma conflictIn_unopposed:
  assumes "unopposed syncs ss" and "copyOf ss' ss"
    and "\<And>other. other \<in> set items \<Longrightarrow> \<exists>key. (syncs(syncKey ss \<mapsto> ss')) key = Some other
      \<and> (ss_Namespace ss = [] \<or> nn_Namespace key = ss_Namespace ss)"
  shows "\<not> conflictIn ss' (resolveTargetName ss') items"
proof
  assume "conflictIn ss' (resolveTargetName ss') items"
  then obtain other where other: "other \<in> set items" "ss_Name other \<noteq> ss_Name ss"
      "resolveTargetName other = resolveTargetName ss" "\<not> defeated other" "takesPrecedence other ss"
    using copyOfD(2,9) [OF assms(2)] copyOf_cong(4) [OF assms(2)] by (auto simp: conflictIn_iff)
  obtain key where key: "(syncs(syncKey ss \<mapsto> ss')) key = Some other"
      "ss_Namespace ss = [] \<or> nn_Namespace key = ss_Namespace ss"
    using assms(3) [OF other(1)] by blast
  have "other \<noteq> ss'" using other(2) copyOfD(2) [OF assms(2)] by auto
  then have "syncs key = Some other" using key(1) by (auto split: if_splits)
  with assms(1) key(2) other show False unfolding unopposed_def by blast
qed

section \<open>The calls\<close>

context kube_server
begin

abbreviation holds where "holds \<equiv> stores inv secretOf syncOf"

lemma holdsD: "holds s secs syncs \<Longrightarrow> inv (world s)" "holds s secs syncs \<Longrightarrow> secretOf (world s) = secs"
  "holds s secs syncs \<Longrightarrow> syncOf (world s) = syncs"
  by (simp_all add: stores_def)

lemma holds_upd [simp]:
  "holds (s\<lparr>calls := cs\<rparr>) = holds s" "holds (s\<lparr>emitted := es\<rparr>) = holds s" "holds (s\<lparr>syncTotal := n\<rparr>) = holds s"
  "holds (s\<lparr>logs := ls\<rparr>) = holds s"
  by (simp_all add: stores_def fun_eq_iff)

lemma getSecretSync_wp:
  assumes "holds s secs syncs" and "syncs key = Some ss" and "\<And>s'. holds s' secs syncs \<Longrightarrow> Q (Inr ss) s'"
  shows "wp (getSecretSync E ctx key) Q s"
  using assms by (auto simp: getSecretSync_def wp_perform get_sync stores_def)

lemma listSecretSyncs_wp:
  assumes "holds s secs syncs"
    and "\<And>items s'. holds s' secs syncs \<Longrightarrow>
      set items = {ss. \<exists>key. syncs key = Some ss \<and> (ns = [] \<or> nn_Namespace key = ns)} \<Longrightarrow> Q (Inr items) s'"
  shows "wp (listSecretSyncs E ctx ns) Q s"
proof -
  obtain items where "env_ListSecretSyncs E ctx ns (world s) = (Inr items, world s)"
    "set items = {ss. \<exists>key. syncs key = Some ss \<and> (ns = [] \<or> nn_Namespace key = ns)}"
    using list_syncs [OF holdsD(1) [OF assms(1)], of ctx ns] holdsD(3) [OF assms(1)] by auto
  with assms show ?thesis by (simp add: listSecretSyncs_def wp_perform)
qed

lemma apiGet_wp:
  assumes "holds s secs syncs" and "secs key = Some x" and "\<And>s'. holds s' secs syncs \<Longrightarrow> Q (Inr x) s'"
  shows "wp (getSecret E APIReader ctx key) Q s"
  using assms by (auto simp: getSecret_def wp_perform api_get stores_def)

lemma createSecret_wp:
  assumes "holds s secs syncs" and "secs (secretKey x) = None" and "admits x"
    and "\<And>x' s'. sameContent x' x \<Longrightarrow> holds s' (secs(secretKey x \<mapsto> x')) syncs \<Longrightarrow> Q None s'"
  shows "wp (createSecret E ctx x) Q s"
proof -
  obtain x' w' where "env_CreateSecret E ctx x (world s) = (None, w')" "sameContent x' x" "inv w'"
    "secretOf w' = (secretOf (world s))(secretKey x \<mapsto> x')" "syncOf w' = syncOf (world s)"
    using create_secret [OF holdsD(1) [OF assms(1)], of x ctx] assms(2,3) holdsD(2) [OF assms(1)] by auto
  with assms show ?thesis by (simp add: createSecret_def wp_perform stores_def)
qed

lemma createSecret_exists_wp:
  assumes "holds s secs syncs" and "secs (secretKey x) = Some old"
    and "\<And>e s'. holds s' secs syncs \<Longrightarrow> env_IsAlreadyExists E e \<Longrightarrow> Q (Some e) s'"
  shows "wp (createSecret E ctx x) Q s"
proof -
  obtain e where "env_CreateSecret E ctx x (world s) = (Some e, world s)" "env_IsAlreadyExists E e"
    using create_exists [OF holdsD(1) [OF assms(1)], of x old ctx] assms(2) holdsD(2) [OF assms(1)] by auto
  with assms show ?thesis by (simp add: createSecret_def wp_perform)
qed

lemma updateSecret_wp:
  assumes "holds s secs syncs" and "secs (secretKey x) = Some old"
    and "revises x old" and "admits x"
    and "\<And>x' s'. sameContent x' x \<Longrightarrow> holds s' (secs(secretKey x \<mapsto> x')) syncs \<Longrightarrow> Q None s'"
  shows "wp (updateSecret E ctx x) Q s"
proof -
  obtain x' w' where "env_UpdateSecret E ctx x (world s) = (None, w')" "sameContent x' x" "inv w'"
    "secretOf w' = (secretOf (world s))(secretKey x \<mapsto> x')" "syncOf w' = syncOf (world s)"
    using update_secret [OF holdsD(1) [OF assms(1)], of x old ctx] assms(2-4) holdsD(2) [OF assms(1)] by auto
  with assms show ?thesis by (simp add: updateSecret_def wp_perform stores_def)
qed

lemma deleteSecret_wp:
  assumes "holds s secs syncs" and "\<And>old. secs (secretKey x) = Some old \<Longrightarrow> om_Finalizers (sec_Meta old) = []"
    and "\<And>r s'. r = None \<or> env_IsNotFound E (the r) \<Longrightarrow> holds s' (secs(secretKey x := None)) syncs \<Longrightarrow> Q r s'"
  shows "wp (deleteSecret E ctx x) Q s"
proof (cases "secs (secretKey x)")
  case None
  then obtain e where e: "env_DeleteSecret E ctx x (world s) = (Some e, world s)" "env_IsNotFound E e"
    using delete_missing [OF holdsD(1) [OF assms(1)], of x ctx] holdsD(2) [OF assms(1)] by auto
  have "secs(secretKey x := None) = secs" using None by auto
  with e assms(1,3) show ?thesis by (simp add: deleteSecret_def wp_perform)
next
  case (Some old)
  then obtain w' where "env_DeleteSecret E ctx x (world s) = (None, w')" "inv w'"
    "secretOf w' = (secretOf (world s))(secretKey x := None)" "syncOf w' = syncOf (world s)"
    using delete_secret [OF holdsD(1) [OF assms(1)], of x old ctx] assms(2) holdsD(2) [OF assms(1)] by auto
  with assms(1,3) show ?thesis by (simp add: deleteSecret_def wp_perform stores_def)
qed

lemma updateStatus_wp:
  assumes "holds s secs syncs" and "syncs (syncKey cur) = Some cur" and "typedOutcome status" and "readyIn status"
    and "\<And>ss' s'. copyOf ss' cur \<Longrightarrow> sameStatus (ss_Status ss') status \<Longrightarrow>
      holds s' secs (syncs(syncKey cur \<mapsto> ss')) \<Longrightarrow> Q (Inr ss') s'"
  shows "wp (updateStatus E ctx (cur\<lparr>ss_Status := status\<rparr>)) Q s"
proof -
  have key: "syncKey (cur\<lparr>ss_Status := status\<rparr>) = syncKey cur" by (simp add: syncKey_def)
  obtain ss' w' where w': "env_UpdateStatus E ctx (cur\<lparr>ss_Status := status\<rparr>) (world s) = (Inr ss', w')"
    "sameStatus (ss_Status ss') status" "sameSync ss' (cur\<lparr>ss_Status := ss_Status ss'\<rparr>)" "inv w'"
    "syncOf w' = (syncOf (world s))(syncKey cur \<mapsto> ss')" "secretOf w' = secretOf (world s)"
    using update_status [OF holdsD(1) [OF assms(1)], of "cur\<lparr>ss_Status := status\<rparr>" cur status ctx] key
      assms(2-4) holdsD(3) [OF assms(1)] by auto
  have "copyOf ss' cur" using copyOf_sameSync [OF w'(3)] by simp
  with w' assms(1,5) show ?thesis by (simp add: updateStatus_def wp_perform stores_def)
qed

end

section \<open>The steps of a reconcile\<close>

context kube_server
begin

lemma updateSecretSync_wp:
  assumes "holds s secs syncs" and "syncs (syncKey cur) = Some cur" and "om_DeletionTimestamp (ss_Meta cur) = 0"
    and "\<And>ss' s'. copyOf ss' cur \<Longrightarrow> holds s' secs (syncs(syncKey cur \<mapsto> ss')) \<Longrightarrow> Q (Inr ss') s'"
  shows "wp (updateSecretSync E ctx (env_AddFinalizer E cur f)) Q s"
proof -
  obtain fs where ss: "env_AddFinalizer E cur f = cur\<lparr>ss_Meta := (ss_Meta cur)\<lparr>om_Finalizers := fs\<rparr>\<rparr>"
    using add_finalizer [of cur f] by blast
  let ?ss = "cur\<lparr>ss_Meta := (ss_Meta cur)\<lparr>om_Finalizers := fs\<rparr>\<rparr>"
  have key: "syncKey ?ss = syncKey cur" by (simp add: syncKey_def)
  obtain ss' w' where "env_UpdateSecretSync E ctx ?ss (world s) = (Inr ss', w')" "sameSync ss' ?ss" "inv w'"
    "syncOf w' = (syncOf (world s))(syncKey cur \<mapsto> ss')" "secretOf w' = secretOf (world s)"
    using update_sync [OF holdsD(1) [OF assms(1)], of ?ss cur fs ctx] key assms(2,3) holdsD(3) [OF assms(1)] by auto
  moreover from this(2) have "copyOf ss' cur" using copyOf_sameSync copyOf_finalizers copyOf_trans by blast
  ultimately show ?thesis using assms(1,4) by (simp add: ss updateSecretSync_def wp_perform stores_def)
qed

lemma setReadyCondition_wp:
  assumes "holds s secs syncs"
    and "\<And>cs s'. holds s' secs syncs \<Longrightarrow> readyIn (status\<lparr>st_Conditions := cs\<rparr>) \<Longrightarrow> Q (status\<lparr>st_Conditions := cs\<rparr>) s'"
  shows "wp (setReadyCondition E ss status) Q s"
  unfolding setReadyCondition_def wp_bind
proof (rule now_wp [OF holdsD(1) [OF assms(1)]])
  fix t and s' :: "'w sys"
  assume "inv (world s')" "secretOf (world s') = secretOf (world s)" "syncOf (world s') = syncOf (world s)"
  with assms(1) have "holds s' secs syncs" by (simp add: stores_def)
  with assms(2) readyIn_set [OF condition_law] show "wp (State_Monad.return (status\<lparr>st_Conditions :=
      env_SetStatusCondition E t (st_Conditions (ss_Status ss)) (readyCondition (env_unicode E) status)\<rparr>)) Q s'"
    by (simp add: wp_return)
qed

lemma recordSyncOutcome_wp:
  assumes "holds s secs syncs" and "\<And>s'. holds s' secs syncs \<Longrightarrow> Q () s'"
  shows "wp (recordSyncOutcome E r ss previousState status targetName) Q s"
  using assms
  by (simp add: recordSyncOutcome_def recordEvent_def recordSyncResult_def Let_def wp_simps)

lemma persistPending_wp:
  assumes "holds s secs syncs" and "syncs (syncKey ss) = Some ss"
    and "\<And>ss' s'. copyOf ss' ss \<Longrightarrow> holds s' secs (syncs(syncKey ss \<mapsto> ss')) \<Longrightarrow> Q (Inr ss') s'"
  shows "wp (persistPending E ctx req ss) Q s"
proof (cases "st_State (ss_Status ss) = []")
  case False
  have "syncs(syncKey ss \<mapsto> ss) = syncs" using assms(2) by auto
  with False assms(1,3) show ?thesis by (simp add: persistPending_def wp_simps)
next
  case True
  show ?thesis
    unfolding persistPending_def
    using True assms
    by (auto simp: wp_bind Let_def wp_return typedOutcome_def intro!: setReadyCondition_wp updateStatus_wp)
qed

lemma ensureFinalizer_wp:
  assumes "holds s secs syncs" and "syncs (syncKey ss) = Some ss" and "om_DeletionTimestamp (ss_Meta ss) = 0"
    and "\<And>ss' s'. copyOf ss' ss \<Longrightarrow> holds s' secs (syncs(syncKey ss \<mapsto> ss')) \<Longrightarrow> Q (Inr ss') s'"
  shows "wp (ensureFinalizer E ctx req ss) Q s"
proof (cases "env_ContainsFinalizer E ss finalizerName")
  case True
  have "syncs(syncKey ss \<mapsto> ss) = syncs" using assms(2) by auto
  with True assms(1,4) show ?thesis by (simp add: ensureFinalizer_def wp_simps)
next
  case False
  with assms show ?thesis
    by (auto simp: ensureFinalizer_def wp_bind wp_return intro!: updateSecretSync_wp)
qed

lemma findConflictingOwner_wp:
  assumes "holds s secs (syncs(syncKey ss \<mapsto> ss'))" and "unopposed syncs ss" and "copyOf ss' ss"
    and "\<And>s'. holds s' secs (syncs(syncKey ss \<mapsto> ss')) \<Longrightarrow> Q (Inr False) s'"
  shows "wp (findConflictingOwner E ctx ss') Q s"
  unfolding findConflictingOwner_def wp_bind
proof (rule listSecretSyncs_wp [OF assms(1)])
  fix items s'
  assume s': "holds s' secs (syncs(syncKey ss \<mapsto> ss'))"
    and items: "set items = {other. \<exists>key. (syncs(syncKey ss \<mapsto> ss')) key = Some other
      \<and> (ss_Namespace ss' = [] \<or> nn_Namespace key = ss_Namespace ss')}"
  have "\<not> conflictIn ss' (resolveTargetName ss') items"
    using assms(2,3)
    by (rule conflictIn_unopposed) (use items copyOfD(3) [OF assms(3)] in auto)
  with s' assms(4) show "wp (case Inr items of
      Inl err \<Rightarrow> State_Monad.return (Inl (Errorf (''kvsynk8s: list secretsyncs in namespace '' @ ss_Namespace ss') [err]))
    | Inr items \<Rightarrow> State_Monad.return (Inr (conflictIn ss' (resolveTargetName ss') items))) Q s'"
    by (simp add: wp_return)
qed

end

section \<open>The writer reaches the value\<close>

lemma sameContentE:
  assumes "sameContent x' x"
  obtains uid rv gen t where "x' = x\<lparr>sec_Meta := (sec_Meta x)\<lparr>om_UID := uid, om_ResourceVersion := rv,
      om_Generation := gen, om_CreationTimestamp := t\<rparr>\<rparr>"
  using assms unfolding sameContent_def by blast

lemma stamped_content:
  assumes "ownerRefLaws E" and "stamped E ss (resolveDataKey ss) value version base x"
  shows "secretKey x = secretKey base" "om_ResourceVersion (sec_Meta x) = om_ResourceVersion (sec_Meta base)"
    "sec_Immutable x = sec_Immutable base" "sec_Data x = fmupd (resolveDataKey ss) value fmempty"
proof -
  obtain refs where "x = (populateManagedSecret base ss (resolveDataKey ss) value version)\<lparr>sec_Meta :=
       (sec_Meta (populateManagedSecret base ss (resolveDataKey ss) value version))\<lparr>om_OwnerReferences := refs\<rparr>\<rparr>"
    using assms by (rule ownerRefLaws_stamped)
  then show "secretKey x = secretKey base" "om_ResourceVersion (sec_Meta x) = om_ResourceVersion (sec_Meta base)"
      "sec_Immutable x = sec_Immutable base" "sec_Data x = fmupd (resolveDataKey ss) value fmempty"
    by (simp_all add: populateManagedSecret_def secretKey_def)
qed

lemma stamped_revises:
  assumes "ownerRefLaws E" and "stamped E ss (resolveDataKey ss) value version base x" and "reclaimable E ss value base"
  shows "revises x base"
proof -
  obtain refs where "x = (populateManagedSecret base ss (resolveDataKey ss) value version)\<lparr>sec_Meta :=
       (sec_Meta (populateManagedSecret base ss (resolveDataKey ss) value version))\<lparr>om_OwnerReferences := refs\<rparr>\<rparr>"
    using assms(1,2) by (rule ownerRefLaws_stamped)
  then show ?thesis
    using assms(3)
    by (auto simp: revises_def reclaimable_def populateManagedSecret_def immutableBlocksWrite_def managedSecretDataMatches_iff)
qed

lemma stamped_upToDate:
  assumes "ownerRefLaws E" and "stamped E ss (resolveDataKey ss) value version base x" and "sameContent x' x"
  shows "upToDate E ss value version x'" "secretKey x' = secretKey base"
proof -
  obtain uid rv gen t where x': "x' = x\<lparr>sec_Meta := (sec_Meta x)\<lparr>om_UID := uid, om_ResourceVersion := rv,
      om_Generation := gen, om_CreationTimestamp := t\<rparr>\<rparr>"
    using assms(3) by (rule sameContentE)
  then have "env_GetControllerOf E x' = env_GetControllerOf E x"
    by (intro ownerRefLawsD(4) [OF assms(1)]) simp
  with stamped_shape [OF assms(1,2)] x' show "upToDate E ss value version x'"
    by (simp add: upToDate_def managedBy_def ControllerOwnedBy_def managedShape_def)
  show "secretKey x' = secretKey base"
    using x' stamped_content(1) [OF assms(1,2)] by (simp add: secretKey_def)
qed

lemma reclaimable_writable: "reclaimable E ss value x \<Longrightarrow> writable E x ss"
  by (auto simp: reclaimable_def writable_def labelled_def ControllerOwnedBy_def split: option.split)

lemma reclaimable_ours: "reclaimable E ss value x \<Longrightarrow> labelled x \<Longrightarrow> \<not> foreign E ss x"
  by (auto simp: reclaimable_def foreign_def labelled_def)

context kube_server
begin

lemma stampable:
  assumes "sec_Namespace x = ss_Namespace ss"
    and "\<And>ref. env_GetControllerOf E x = Some ref \<Longrightarrow> or_Kind ref = secretSyncKind \<and> or_Name ref = ss_Name ss"
  obtains x' where "stamped E ss dataKey value version x x'"
proof -
  let ?p = "populateManagedSecret x ss dataKey value version"
  have "env_GetControllerOf E ?p = env_GetControllerOf E x"
    by (rule ownerRefLawsD(4) [OF owner_laws]) (simp add: populateManagedSecret_def)
  moreover have "sec_Namespace ?p = ss_Namespace ss" using assms(1) by (simp add: populateManagedSecret_def)
  ultimately show thesis using set_reference [of ?p ss] assms(2) that unfolding stamped_def by metis
qed

lemma storableD: "storable E admits ss value version x \<Longrightarrow> stamped E ss (resolveDataKey ss) value version x y \<Longrightarrow> admits y"
  unfolding storable_def using copyOf_refl by blast

lemma applyUpdate_wp:
  assumes "holds s secs syncs" and "secs (secretKey x) = Some x" and "reclaimable E ss value x"
    and "sec_Namespace x = ss_Namespace ss" and "storable E admits ss value version x"
    and "\<And>y x' s'. stamped E ss (resolveDataKey ss) value version x y \<Longrightarrow> sameContent x' y \<Longrightarrow>
      holds s' (secs(secretKey x \<mapsto> x')) syncs \<Longrightarrow> Q None s'"
  shows "wp (applyUpdate E ctx ss x (resolveDataKey ss) value version) Q s"
proof -
  obtain y where y: "stamped E ss (resolveDataKey ss) value version x y"
    by (rule stampable [OF assms(4)]) (use assms(3) in \<open>auto simp: reclaimable_def\<close>)
  have free: "\<not> immutableBlocksWrite x (resolveDataKey ss) value" using assms(3) by (simp add: reclaimable_def)
  show ?thesis
    using y [unfolded stamped_def] free
    by (auto simp: applyUpdate_def Let_def wp_simps logWritten_def stamped_content(1) [OF owner_laws y]
        intro!: updateSecret_wp [OF assms(1)] assms(2) stamped_revises [OF owner_laws y assms(3)]
          storableD [OF assms(5) y] assms(6) [OF y])
qed

lemma update_wp:
  assumes "holds s secs syncs" and "secs (secretKey x) = Some x" and "reclaimable E ss value x"
    and "sec_Namespace x = ss_Namespace ss" and "storable E admits ss value version x"
    and "\<And>y x' s'. stamped E ss (resolveDataKey ss) value version x y \<Longrightarrow> sameContent x' y \<Longrightarrow>
      holds s' (secs(secretKey x \<mapsto> x')) syncs \<Longrightarrow> Q None s'"
  shows "wp (update E w ctx ss x (resolveDataKey ss) value version) Q s"
  using assms by (auto simp: update_def wp_bind wp_return intro!: applyUpdate_wp)

lemma stored_key:
  assumes "holds s secs syncs" and "secs \<lparr>nn_Namespace = ns, nn_Name = name\<rparr> = Some x"
  shows "secretKey x = \<lparr>nn_Namespace = ns, nn_Name = name\<rparr>" "sec_Namespace x = ns"
proof -
  show "secretKey x = \<lparr>nn_Namespace = ns, nn_Name = name\<rparr>" using assms by (auto simp: stores_def intro: secret_key)
  then show "sec_Namespace x = ns" by (simp add: secretKey_def)
qed

lemma recoverAlreadyExists_wp:
  assumes "holds s secs syncs" and "secs \<lparr>nn_Namespace = ns, nn_Name = name\<rparr> = Some x"
    and "reclaimable E ss value x" and "sw_Reader w = Some APIReader"
    and "ns = ss_Namespace ss" and "storable E admits ss value version x"
    and "\<And>y x' s'. stamped E ss (resolveDataKey ss) value version x y \<Longrightarrow> sameContent x' y \<Longrightarrow>
      holds s' (secs(\<lparr>nn_Namespace = ns, nn_Name = name\<rparr> \<mapsto> x')) syncs \<Longrightarrow> Q None s'"
  shows "wp (recoverAlreadyExists E w ctx ss ns name (resolveDataKey ss) value version) Q s"
  using assms stored_key [OF assms(1,2)] reclaimable_writable [OF assms(3)]
  by (auto simp: recoverAlreadyExists_def readerGet_def reader_def wp_bind wp_return
      intro!: apiGet_wp update_wp)

lemma startingAt_key:
  "holds s secs syncs \<Longrightarrow> secretKey (startingAt secs key) = key"
  using secret_key by (cases key) (auto simp: stores_def startingAt_def newSecret_def secretKey_def split: option.split)

lemma create_wp:
  assumes "holds s secs syncs" and "sw_Reader w = Some APIReader" and "ns = ss_Namespace ss"
    and "\<And>x. secs \<lparr>nn_Namespace = ns, nn_Name = name\<rparr> = Some x \<Longrightarrow> reclaimable E ss value x"
    and "storable E admits ss value version (startingAt secs \<lparr>nn_Namespace = ns, nn_Name = name\<rparr>)"
    and "\<And>y x' s'. stamped E ss (resolveDataKey ss) value version (startingAt secs \<lparr>nn_Namespace = ns, nn_Name = name\<rparr>) y \<Longrightarrow> sameContent x' y \<Longrightarrow>
      holds s' (secs(\<lparr>nn_Namespace = ns, nn_Name = name\<rparr> \<mapsto> x')) syncs \<Longrightarrow> Q None s'"
  shows "wp (create E w ctx ss ns name (resolveDataKey ss) value version) Q s"
proof -
  obtain y where y: "stamped E ss (resolveDataKey ss) value version (newSecret ns name) y"
  proof (rule stampable)
    show "sec_Namespace (newSecret ns name) = ss_Namespace ss" by (simp add: newSecret_def assms(3))
    show "or_Kind ref = secretSyncKind \<and> or_Name ref = ss_Name ss"
      if "env_GetControllerOf E (newSecret ns name) = Some ref" for ref
      using that unowned by (simp add: newSecret_def zeroObjectMeta_def)
  qed
  have key: "secretKey (newSecret ns name) = \<lparr>nn_Namespace = ns, nn_Name = name\<rparr>"
    by (simp add: newSecret_def secretKey_def)
  note content = stamped_content(1) [OF owner_laws y, unfolded key]
  have unfolded: "create E w ctx ss ns name (resolveDataKey ss) value version =
      do { r \<leftarrow> createSecret E ctx y;
           (case r of
              Some err \<Rightarrow> if env_IsAlreadyExists E err
                then recoverAlreadyExists E w ctx ss ns name (resolveDataKey ss) value version
                else State_Monad.return (Some (Errorf (''kvsynk8s: create secret '' @ nsname ns name) [err]))
            | None \<Rightarrow> do { logWritten ''created managed secret'' ns name ss version; State_Monad.return None })}"
    using y by (simp add: create_def stamped_def)
  show ?thesis
  proof (cases "secs \<lparr>nn_Namespace = ns, nn_Name = name\<rparr>")
    case None
    then have new: "startingAt secs \<lparr>nn_Namespace = ns, nn_Name = name\<rparr> = newSecret ns name" by (simp add: startingAt_def)
    have "admits y" using assms(5) y unfolding new by (rule storableD)
    with assms(1) None show ?thesis
      unfolding unfolded wp_bind
      by (intro createSecret_wp [OF assms(1)])
        (auto simp: content logWritten_def wp_simps new intro!: assms(6) y)
  next
    case (Some x)
    with assms show ?thesis
      unfolding unfolded wp_bind
      by (intro createSecret_exists_wp [OF assms(1)]) (auto simp: content startingAt_def intro!: recoverAlreadyExists_wp)
  qed
qed

end

context kube_api
begin

lemma cachedGet_wp:
  assumes "holds s secs syncs" and "secs key = Some x" and "labelled x"
    and "\<And>s'. holds s' secs syncs \<Longrightarrow> Q (Inr x) s'"
  shows "wp (getSecret E ManagerClient ctx key) Q s"
  using assms by (auto simp: getSecret_def wp_perform cached_get stores_def)

lemma cachedGet_missing_wp:
  assumes "holds s secs syncs" and "secs key = None \<or> (\<exists>x. secs key = Some x \<and> \<not> labelled x)"
    and "\<And>e s'. holds s' secs syncs \<Longrightarrow> env_IsNotFound E e \<Longrightarrow> Q (Inl e) s'"
  shows "wp (getSecret E ManagerClient ctx key) Q s"
proof -
  obtain e where "env_GetSecret E ManagerClient ctx key (world s) = (Inl e, world s)" "env_IsNotFound E e"
    using cached_missing [OF holdsD(1) [OF assms(1)], of key ctx] assms(2) holdsD(2) [OF assms(1)] by auto
  with assms show ?thesis by (simp add: getSecret_def wp_perform)
qed

lemma CreateOrUpdate_wp:
  assumes "holds s secs syncs" and "sw_Client w = Some ManagerClient" and "sw_Reader w = Some APIReader"
    and "ns = ss_Namespace ss" and "\<And>x. secs \<lparr>nn_Namespace = ns, nn_Name = name\<rparr> = Some x \<Longrightarrow> reclaimable E ss value x"
    and "storable E admits ss value version (startingAt secs \<lparr>nn_Namespace = ns, nn_Name = name\<rparr>)"
    and reached: "\<And>x' s'. upToDate E ss value version x' \<Longrightarrow> secretKey x' = \<lparr>nn_Namespace = ns, nn_Name = name\<rparr> \<Longrightarrow>
      holds s' (secs(\<lparr>nn_Namespace = ns, nn_Name = name\<rparr> \<mapsto> x')) syncs \<Longrightarrow> Q None s'"
  shows "wp (CreateOrUpdate E w ctx ss ns name (resolveDataKey ss) value version) Q s"
proof -
  have up: "Q None s'" if "stamped E ss (resolveDataKey ss) value version (startingAt secs \<lparr>nn_Namespace = ns, nn_Name = name\<rparr>) y" "sameContent x' y"
      "holds s' (secs(\<lparr>nn_Namespace = ns, nn_Name = name\<rparr> \<mapsto> x')) syncs" for y x' s'
    using stamped_upToDate [OF owner_laws that(1,2)] startingAt_key [OF assms(1)] by (intro reached [OF _ _ that(3)]) simp_all
  show ?thesis
  proof (cases "\<exists>x. secs \<lparr>nn_Namespace = ns, nn_Name = name\<rparr> = Some x \<and> labelled x")
    case True
    then obtain x where x: "secs \<lparr>nn_Namespace = ns, nn_Name = name\<rparr> = Some x" "labelled x" by blast
    then have start: "startingAt secs \<lparr>nn_Namespace = ns, nn_Name = name\<rparr> = x" by (simp add: startingAt_def)
    have "storable E admits ss value version x" using assms(6) unfolding start .
    with assms(1-5) x up [unfolded start] stored_key [OF assms(1) x(1)] reclaimable_writable [OF assms(5) [OF x(1)]] show ?thesis
      by (auto simp: CreateOrUpdate_def wp_bind wp_return intro!: cachedGet_wp update_wp)
  next
    case False
    then have "secs \<lparr>nn_Namespace = ns, nn_Name = name\<rparr> = None \<or> (\<exists>x. secs \<lparr>nn_Namespace = ns, nn_Name = name\<rparr> = Some x \<and> \<not> labelled x)"
      by (cases "secs \<lparr>nn_Namespace = ns, nn_Name = name\<rparr>") auto
    with assms(1-6) up show ?thesis
      by (auto simp: CreateOrUpdate_def wp_bind intro!: cachedGet_missing_wp create_wp)
  qed
qed

end

section \<open>Garbage collection and the end of a reconcile\<close>

context kube_api
begin

lemma listSecrets_wp:
  assumes "holds s secs syncs"
    and "\<And>items s'. holds s' secs syncs \<Longrightarrow>
      set items = {x. \<exists>key. secs key = Some x \<and> nn_Namespace key = ns \<and> labelled x} \<Longrightarrow> Q (Inr items) s'"
  shows "wp (listSecrets E ctx ns LabelManagedBy LabelManagedByValue) Q s"
proof -
  obtain items where "env_ListSecrets E ctx ns LabelManagedBy LabelManagedByValue (world s) = (Inr items, world s)"
    "set items = {x. \<exists>key. secs key = Some x \<and> nn_Namespace key = ns \<and> labelled x}"
    using list_secrets [OF holdsD(1) [OF assms(1)], of ctx ns] holdsD(2) [OF assms(1)] by auto
  with assms show ?thesis by (simp add: listSecrets_def wp_perform)
qed

lemma deleteStale_wp:
  assumes "holds s secs syncs"
    and "\<And>x old. x \<in> set items \<Longrightarrow> sec_Name x \<noteq> name \<Longrightarrow> ControllerOwnedBy E x ss \<Longrightarrow> secs (secretKey x) = Some old \<Longrightarrow>
      om_Finalizers (sec_Meta old) = []"
    and "\<And>s'. holds s' (\<lambda>key. if \<exists>x\<in>set items. secretKey x = key \<and> sec_Name x \<noteq> name \<and> ControllerOwnedBy E x ss
        then None else secs key) syncs \<Longrightarrow> Q None s'"
  shows "wp (deleteStale E ctx ss name items) Q s"
  using assms
proof (induction items arbitrary: s secs)
  case Nil
  then show ?case by (simp add: wp_return)
next
  case (Cons x items)
  show ?case
  proof (cases "sec_Name x \<noteq> name \<and> ControllerOwnedBy E x ss")
    case True
    have "wp (deleteStale E ctx ss name items) Q s'" if s': "holds s' (secs(secretKey x := None)) syncs" for s'
    proof (rule Cons.IH [OF s'])
      show "om_Finalizers (sec_Meta old) = []" if "y \<in> set items" "sec_Name y \<noteq> name" "ControllerOwnedBy E y ss"
          "(secs(secretKey x := None)) (secretKey y) = Some old" for y old
        using that Cons.prems(2) [of y old] by (simp split: if_splits)
      let ?hit = "\<lambda>xs key. \<exists>x\<in>set xs. secretKey x = key \<and> sec_Name x \<noteq> name \<and> ControllerOwnedBy E x ss"
      have "(\<lambda>key. if ?hit items key then None else (secs(secretKey x := None)) key)
          = (\<lambda>key. if ?hit (x # items) key then None else secs key)" using True by (auto simp: fun_eq_iff)
      then show "Q None t"
        if "holds t (\<lambda>key. if ?hit items key then None else (secs(secretKey x := None)) key) syncs" for t
        using that by (intro Cons.prems(3)) simp
    qed
    then show ?thesis
      using True Cons.prems(2) [of x] by (auto simp: ownedBy_def wp_simps intro!: deleteSecret_wp [OF Cons.prems(1)])
  next
    case False
    have "wp (deleteStale E ctx ss name items) Q s"
      by (rule Cons.IH [OF Cons.prems(1)], use Cons.prems(2) in force, rule Cons.prems(3)) (use False in auto)
    with False show ?thesis by (auto simp: ownedBy_def)
  qed
qed

lemma deleteStaleManagedSecrets_wp:
  assumes "holds s secs syncs" and "copyOf ss' ss" and "sweepable E ss secs"
    and "\<And>s'. holds s' (collected E ss secs) syncs \<Longrightarrow> Q None s'"
  shows "wp (deleteStaleManagedSecrets E ctx ss' (resolveTargetName ss)) Q s"
proof -
  have at: "secretKey x = key" if "secs key = Some x" for key x
    using assms(1) that by (auto simp: stores_def intro: secret_key)
  have owned: "ControllerOwnedBy E x ss' = ControllerOwnedBy E x ss" for x
    using copyOfD(4) [OF assms(2)] by (simp add: ControllerOwnedBy_def cong: option.case_cong)
  have "(if \<exists>x\<in>set items. secretKey x = key \<and> sec_Name x \<noteq> resolveTargetName ss \<and> ControllerOwnedBy E x ss'
        then None else secs key) = collected E ss secs key"
    if "set items = {x. \<exists>key. secs key = Some x \<and> nn_Namespace key = ss_Namespace ss' \<and> labelled x}" for items key
  proof (cases "secs key")
    case None
    with at show ?thesis by (auto simp: that collected_def)
  next
    case (Some x)
    have "nn_Namespace key = sec_Namespace x" using at [OF Some] by auto
    then have "(\<exists>y\<in>set items. secretKey y = key \<and> sec_Name y \<noteq> resolveTargetName ss \<and> ControllerOwnedBy E y ss')
        \<longleftrightarrow> leftover E ss x"
      using Some at at [OF Some] copyOfD(3) [OF assms(2)] owned
      by (auto simp: that leftover_def intro!: exI [of _ x] exI [of _ key])
    with Some show ?thesis by (simp add: collected_def)
  qed
  moreover have "om_Finalizers (sec_Meta old) = []"
    if x: "set items = {x. \<exists>key. secs key = Some x \<and> nn_Namespace key = ss_Namespace ss' \<and> labelled x}" "x \<in> set items"
      "sec_Name x \<noteq> resolveTargetName ss" "ControllerOwnedBy E x ss'" "secs (secretKey x) = Some old" for items x old
  proof -
    obtain key where key: "secs key = Some x" "nn_Namespace key = ss_Namespace ss'" "labelled x" using x(1,2) by auto
    have "leftover E ss x" using key at [OF key(1)] x(3,4) owned copyOfD(3) [OF assms(2)] by (auto simp: leftover_def)
    with assms(3) at [OF key(1)] x(5) key(1) show ?thesis by (auto simp: sweepable_def)
  qed
  ultimately show ?thesis
    unfolding deleteStaleManagedSecrets_def wp_bind
    using assms(4) by (intro listSecrets_wp [OF assms(1)]) (auto intro!: deleteStale_wp)
qed

lemma finishReconcile_wp:
  assumes "holds s secs syncs" and "syncs (syncKey ss) = Some ss" and "st_State status = SecretSyncStateInSync"
    and "typedOutcome status" and "sweepable E ss secs"
    and "\<And>ss' s'. holds s' (collected E ss secs) (syncs(syncKey ss \<mapsto> ss')) \<Longrightarrow> copyOf ss' ss \<Longrightarrow>
      \<exists>cs. sameStatus (ss_Status ss') (status\<lparr>st_Conditions := cs\<rparr>) \<Longrightarrow> isReady ss' \<Longrightarrow>
      Q (\<lparr>res_RequeueAfter = reconcileInterval r\<rparr>, None) s'"
  shows "wp (finishReconcile E r ctx req previousState (resolveTargetName ss) ss status) Q s"
  unfolding finishReconcile_def wp_bind
  apply (rule setReadyCondition_wp [OF assms(1)])
  subgoal for cs s1
    apply (rule updateStatus_wp [of _ secs syncs], assumption, rule assms(2), simp add: assms(4), assumption)
    subgoal for ss' s2
      apply (simp add: wp_bind assms(3))
      apply (rule recordSyncOutcome_wp, assumption)
      apply (simp add: wp_simps)
      apply (rule deleteStaleManagedSecrets_wp [of _ secs "syncs(syncKey ss \<mapsto> ss')"], simp, assumption, rule assms(5))
      using assms(3) sameStatus_ready [of ss' "status\<lparr>st_Conditions := cs\<rparr>"] by (auto simp: wp_return intro: assms(6))
    done
  done

end

context kube_api
begin

text \<open>What the cached client shows of the target.\<close>

abbreviation visible :: "(NamespacedName \<Rightarrow> Secret option) \<Rightarrow> NamespacedName \<Rightarrow> Secret option" where
  "visible secs key \<equiv> (case secs key of None \<Rightarrow> None | Some x \<Rightarrow> if labelled x then Some x else None)"

lemma writeTarget_wp:
  assumes "holds s secs syncs" and "rc_Client r = ManagerClient" and "rc_APIReader r = Some APIReader"
    and "\<And>x. secs (targetKeyOf ss) = Some x \<Longrightarrow> reclaimable E ss value x"
    and "storable E admits ss value version (startingAt secs (targetKeyOf ss))"
    and existing: "existing = visible secs (targetKeyOf ss)"
    and desired: "desired = (if (\<exists>x. existing = Some x \<and> upToDate E ss value version x) then the existing
        else adopted ss value version existing)"
    and version: "st_SyncedVersion status = version" and copy: "copyOf ss' ss"
    and reached: "\<And>x s'. upToDate E ss value version x \<Longrightarrow> secretKey x = targetKeyOf ss \<Longrightarrow>
      holds s' (secs(targetKeyOf ss \<mapsto> x)) syncs \<Longrightarrow> Q (Inr status) s'"
  shows "wp (writeTarget E r ctx previousState (resolveTargetName ss) (targetKeyOf ss) (resolveDataKey ss) ss'
      existing (priorOf E ss existing) status desired) Q s"
proof -
  have ours: "\<not> foreign E ss x" if "existing = Some x" for x
    using that existing assms(4) by (auto dest: reclaimable_ours split: option.splits if_splits)
  note gate = write_gate [OF ours desired version]
  show ?thesis
  proof (cases "needsWrite existing (priorOf E ss existing) status desired")
    case False
    then obtain x where x: "existing = Some x" "upToDate E ss value version x" using gate(1) by auto
    then have "secs (targetKeyOf ss) = Some x" using existing by (auto split: option.splits if_splits)
    moreover from this have "secretKey x = targetKeyOf ss"
      using assms(1) by (auto simp: stores_def intro: secret_key)
    moreover from calculation have "secs(targetKeyOf ss \<mapsto> x) = secs" by auto
    ultimately show ?thesis using False x assms(1) reached by (simp add: writeTarget_def wp_return)
  next
    case True
    note same = copyOf_cong(1,2) [OF copy] copyOfD(10) [OF copy]
    have "wp (CreateOrUpdate E \<lparr>sw_Client = Some ManagerClient, sw_Reader = Some APIReader\<rparr> ctx ss'
        (nn_Namespace (targetKeyOf ss)) (nn_Name (targetKeyOf ss)) (resolveDataKey ss') value version) R s"
      if "\<And>x s'. upToDate E ss value version x \<Longrightarrow> secretKey x = targetKeyOf ss \<Longrightarrow>
        holds s' (secs(targetKeyOf ss \<mapsto> x)) syncs \<Longrightarrow> R None s'" for R
      by (rule CreateOrUpdate_wp [OF assms(1)])
        (use that assms(4) storable_copy [OF assms(5) copy] copyOfD(3) [OF copy] in \<open>simp_all add: same namespaced_name targetKeyOf_def\<close>)
    with True show ?thesis
      using gate(2) reached version
      by (simp add: writeTarget_def assms(2,3) wp_bind wp_return Let_def same(3))
  qed
qed

end

section \<open>Deletion\<close>

context kube_api
begin

lemma dropFinalizer_wp:
  assumes "holds s secs syncs" and "syncs (syncKey cur) = Some cur" and "om_DeletionTimestamp (ss_Meta cur) \<noteq> 0"
    and "\<And>entry s'. released E cur entry \<Longrightarrow> holds s' secs (syncs(syncKey cur := entry)) \<Longrightarrow> Q None s'"
  shows "wp (dropFinalizer E ctx cur) Q s"
proof -
  let ?ss = "env_RemoveFinalizer E cur finalizerName"
  obtain fs where ss: "?ss = cur\<lparr>ss_Meta := (ss_Meta cur)\<lparr>om_Finalizers := fs\<rparr>\<rparr>"
      "\<not> env_ContainsFinalizer E ?ss finalizerName"
    using remove_finalizer [of cur finalizerName] by blast
  have key: "syncKey ?ss = syncKey cur" by (simp add: ss(1) syncKey_def)
  obtain ss' w' where w': "env_UpdateSecretSync E ctx ?ss (world s) = (Inr ss', w')" "sameSync ss' ?ss" "inv w'"
    "secretOf w' = secs" "syncOf w' \<in> {syncs(syncKey cur := None), syncs(syncKey cur \<mapsto> ss')}"
    using release_sync [OF holdsD(1) [OF assms(1)], of ?ss cur fs ctx] key ss(1) assms(2,3) holdsD [OF assms(1)] by auto
  have "copyOf ss' cur" using copyOf_trans [OF copyOf_sameSync [OF w'(2)]] copyOf_finalizers ss(1) by metis
  moreover obtain rv where "ss' = ?ss\<lparr>ss_Meta := (ss_Meta ?ss)\<lparr>om_ResourceVersion := rv\<rparr>\<rparr>"
    using w'(2) by (rule sameSyncE)
  then have "om_Finalizers (ss_Meta ss') = om_Finalizers (ss_Meta ?ss)" by simp
  then have "\<not> env_ContainsFinalizer E ss' finalizerName" using contains_finalizer ss(2) by blast
  ultimately have "released E cur (Some ss')" "released E cur None" by (auto simp: released_def)
  with w'(3-5) assms(4) have "Q None (s\<lparr>world := w', calls := cs\<rparr>)" for cs
    by (auto simp: stores_def)
  then show ?thesis by (simp add: dropFinalizer_def updateSecretSync_def wp_simps w'(1))
qed

text \<open>What is left of the target: a visible Secret of the declaration is deleted.\<close>

lemma reconcileDelete_wp:
  assumes s: "holds s secs syncs" and "syncs (syncKey ss) = Some ss" and "om_DeletionTimestamp (ss_Meta ss) \<noteq> 0"
    and "env_ContainsFinalizer E ss finalizerName" and "rc_Client r = ManagerClient"
    and own: "\<And>x. secs (targetKeyOf ss) = Some x \<Longrightarrow> ControllerOwnedBy E x ss \<Longrightarrow> labelled x \<and> om_Finalizers (sec_Meta x) = []"
    and reached: "\<And>entry s'. released E ss entry \<Longrightarrow> holds s' (surrendered E ss secs) (syncs(syncKey ss := entry)) \<Longrightarrow> Q None s'"
  shows "wp (reconcileDelete E r ctx ss (targetKeyOf ss)) Q s"
proof (cases "visible secs (targetKeyOf ss)")
  case None
  then have "surrendered E ss secs = secs"
    using own by (auto simp: surrendered_def fun_eq_iff split: option.splits if_splits)
  with assms have "wp (dropFinalizer E ctx ss) Q s'" if "holds s' secs syncs" for s'
    using that by (auto intro!: dropFinalizer_wp)
  then show ?thesis
    using None assms
    by (auto simp: reconcileDelete_def wp_bind wp_return intro!: cachedGet_missing_wp [OF s] split: option.splits if_splits)
next
  case (Some x)
  then have x: "secs (targetKeyOf ss) = Some x" "labelled x" by (auto split: option.splits if_splits)
  then have key: "secretKey x = targetKeyOf ss" using s by (auto simp: stores_def intro: secret_key)
  have drop: "wp (dropFinalizer E ctx ss) Q s'" if "holds s' (surrendered E ss secs) syncs" for s'
    using that assms(2,3) reached by (auto intro!: dropFinalizer_wp)
  show ?thesis
  proof (cases "ControllerOwnedBy E x ss")
    case True
    then have "surrendered E ss secs = secs(targetKeyOf ss := None)"
      using x by (auto simp: surrendered_def fun_eq_iff split: option.split)
    note gone = this
    have free: "om_Finalizers (sec_Meta old) = []" if "secs (secretKey x) = Some old" for old
      using own [OF x(1) True] x(1) key that by simp
    have "wp (deleteSecret E ctx x) (\<lambda>r. wp (case r of
        Some err \<Rightarrow> if \<not> env_IsNotFound E err then State_Monad.return (Some (Errorf (''kvsynk8s: delete managed secret ''
            @ nsname (nn_Namespace (targetKeyOf ss)) (nn_Name (targetKeyOf ss))) [err]))
          else dropFinalizer E ctx ss
      | None \<Rightarrow> dropFinalizer E ctx ss) Q) s'" if "holds s' secs syncs" for s'
      using that free by (rule deleteSecret_wp) (use drop gone key in \<open>auto split: option.split\<close>)
    then show ?thesis
      using True x assms(4,5)
      by (auto simp: reconcileDelete_def wp_bind ownedBy_def intro!: cachedGet_wp [OF s])
  next
    case False
    then have "surrendered E ss secs = secs"
      using x by (auto simp: surrendered_def fun_eq_iff split: option.split)
    with False x drop assms(4,5) show ?thesis
      by (auto simp: reconcileDelete_def wp_bind wp_return ownedBy_def intro!: cachedGet_wp [OF s])
  qed
qed

lemma Reconcile_dying_wp:
  assumes s: "holds s secs syncs" and ss: "syncs req = Some ss" and "om_DeletionTimestamp (ss_Meta ss) \<noteq> 0"
    and "env_ContainsFinalizer E ss finalizerName" and "rc_Client r = ManagerClient"
    and "\<And>x. secs (targetKeyOf ss) = Some x \<Longrightarrow> ControllerOwnedBy E x ss \<Longrightarrow> labelled x \<and> om_Finalizers (sec_Meta x) = []"
    and "\<And>entry s'. released E ss entry \<Longrightarrow> holds s' (surrendered E ss secs) (syncs(req := entry)) \<Longrightarrow> Q (noRequeue, None) s'"
  shows "wp (Reconcile E r ctx req) Q s"
proof -
  have key: "syncKey ss = req" using s ss by (auto simp: stores_def intro: sync_key)
  show ?thesis
    unfolding Reconcile_def Let_def wp_bind
    apply (rule getSecretSync_wp [OF s ss])
    apply (simp add: assms(3) wp_bind)
    apply (fold targetKeyOf_def)
    apply (rule reconcileDelete_wp, assumption)
    using assms(3-7) key ss by (simp_all add: wp_return)
qed

end

section \<open>A vault that answers\<close>

text \<open>The vault holds a value at a version, and reading it changes nothing the API server stores.\<close>

locale kube_vault = kube_api +
  fixes rd :: "'a SecretReader"
    and vault :: "string \<Rightarrow> string \<Rightarrow> (string \<times> string) option"
  assumes vault_read: "inv w \<Longrightarrow> vault v n = Some p \<Longrightarrow>
      \<exists>w'. rd ctx v n w = (Inr p, w') \<and> inv w' \<and> secretOf w' = secretOf w \<and> syncOf w' = syncOf w"
begin

lemma Sync_wp:
  assumes "holds s secs syncs" and "\<And>x. existing = Some x \<Longrightarrow> \<not> foreign E ss x"
    and "vault (vault_Name (spec_Vault (ss_Spec ss))) (vault_Secret (spec_Vault (ss_Spec ss))) = Some (value, version)"
    and "\<And>t s'. holds s' secs syncs \<Longrightarrow> Q (inSyncStatus (baseStatus ss) version t,
      Some (if (\<exists>x. existing = Some x \<and> upToDate E ss value version x) then the existing
        else adopted ss value version existing), None) s'"
  shows "wp (Sync E \<lparr>eng_Reader = Some rd\<rparr> ctx ss existing) Q s"
proof -
  obtain w1 where w1: "rd ctx (vault_Name (spec_Vault (ss_Spec ss))) (vault_Secret (spec_Vault (ss_Spec ss))) (world s)
      = (Inr (value, version), w1)" "inv w1" "secretOf w1 = secs" "syncOf w1 = syncs"
    using vault_read [OF holdsD(1) [OF assms(1)] assms(3), of ctx] holdsD [OF assms(1)] by auto
  obtain t w2 where w2: "env_Now E w1 = (t, w2)" "inv w2" "secretOf w2 = secs" "syncOf w2 = syncs"
    using clock [OF w1(2)] w1(3,4) by auto
  have eng: "eng_Reader \<lparr>eng_Reader = Some rd\<rparr> = Some rd" by simp
  let ?desired = "if (\<exists>x. existing = Some x \<and> upToDate E ss value version x) then the existing
      else adopted ss value version existing"
  have "run_state (Sync E \<lparr>eng_Reader = Some rd\<rparr> ctx ss existing) s =
      ((inSyncStatus (baseStatus ss) version t, Some ?desired, None),
       s\<lparr>calls := calls s @ [vaultCall ctx ss (Inr (value, version))], world := w2\<rparr>)"
    using Sync_read [where existing = existing, OF eng assms(2) w1(1)] w2(1) by (auto simp: Let_def)
  moreover have "holds (s\<lparr>calls := calls s @ [vaultCall ctx ss (Inr (value, version))], world := w2\<rparr>) secs syncs"
    using w2 by (simp add: stores_def)
  ultimately show ?thesis using assms(4) by (simp add: wp_def)
qed

end

section \<open>A reconcile reaches the value\<close>

lemma collected_target: "sec_Name x = resolveTargetName ss \<Longrightarrow> collected E ss (secs(key \<mapsto> x)) = (collected E ss secs)(key \<mapsto> x)"
  by (auto simp: collected_def leftover_def fun_eq_iff)

lemma secretKey_target: "secretKey x = targetKeyOf ss \<Longrightarrow> sec_Name x = resolveTargetName ss"
  by (simp add: secretKey_def targetKeyOf_def)

lemma collected_copy: "copyOf ss' ss \<Longrightarrow> collected E ss' secs = collected E ss secs"
  by (simp add: collected_def fun_eq_iff copyOf_cong(3) cong: option.case_cong)

context kube_vault
begin

lemma applyOutcome_wp:
  assumes "holds s secs syncs" and "syncs (syncKey ss) = Some ss" and "om_DeletionTimestamp (ss_Meta ss) = 0"
    and client: "rc_Client r = ManagerClient" "rc_APIReader r = Some APIReader"
    and reclaim: "\<And>x. secs (targetKeyOf ss) = Some x \<Longrightarrow> reclaimable E ss value x"
    and store: "storable E admits ss value version (startingAt secs (targetKeyOf ss))" and sweep: "sweepable E ss secs"
    and existing: "existing = visible secs (targetKeyOf ss)"
    and desired: "desired = (if (\<exists>x. existing = Some x \<and> upToDate E ss value version x) then the existing
        else adopted ss value version existing)"
    and reached: "\<And>x ss' s'. upToDate E ss value version x \<Longrightarrow> syncedAt ss version ss' \<Longrightarrow>
      holds s' ((collected E ss secs)(targetKeyOf ss \<mapsto> x)) (syncs(syncKey ss \<mapsto> ss')) \<Longrightarrow>
      Q (\<lparr>res_RequeueAfter = reconcileInterval r\<rparr>, None) s'"
  shows "wp (applyOutcome E r ctx req previousState (resolveTargetName ss) (targetKeyOf ss) (resolveDataKey ss) ss
      existing (priorOf E ss existing) (inSyncStatus (baseStatus ss) version t) (Some desired)) Q s"
proof -
  let ?status = "inSyncStatus (baseStatus ss) version t"
  have finish: "wp (finishReconcile E r ctx req previousState (resolveTargetName ss) ss1 ?status) Q s2"
    if "holds s2 (secs(targetKeyOf ss \<mapsto> x)) (syncs(syncKey ss \<mapsto> ss1))" and copy: "copyOf ss1 ss"
      and x: "upToDate E ss value version x" "secretKey x = targetKeyOf ss" for s2 ss1 x
    unfolding copyOfD(9) [OF copy, symmetric]
  proof (rule finishReconcile_wp [OF that(1)])
    show "(syncs(syncKey ss \<mapsto> ss1)) (syncKey ss1) = Some ss1" by (simp add: copyOfD(8) [OF copy])
    show "typedOutcome ?status" by (rule typed_inSync)
    show "sweepable E ss1 (secs(targetKeyOf ss \<mapsto> x))"
      unfolding sweepable_copy [OF copy]
      using sweep secretKey_target [OF x(2)] by (auto simp: sweepable_def leftover_def split: if_splits)
    fix ss' s'
    assume s': "holds s' (collected E ss1 (secs(targetKeyOf ss \<mapsto> x))) (syncs(syncKey ss \<mapsto> ss1, syncKey ss1 \<mapsto> ss'))"
      and ss': "copyOf ss' ss1" "\<exists>cs. sameStatus (ss_Status ss') (?status\<lparr>st_Conditions := cs\<rparr>)" "isReady ss'"
    have "syncedAt ss version ss'" using ss' copyOf_trans [OF ss'(1) copy] by (auto simp: syncedAt_def dest: sameStatusD)
    then show "Q (\<lparr>res_RequeueAfter = reconcileInterval r\<rparr>, None) s'"
      by (rule reached [OF x(1)])
        (use s' in \<open>simp add: copyOfD(8) [OF copy] collected_copy [OF copy] collected_target [OF secretKey_target [OF x(2)]]\<close>)
  qed simp
  have written: "wp (writeTarget E r ctx previousState (resolveTargetName ss) (targetKeyOf ss) (resolveDataKey ss) ss1
      existing (priorOf E ss existing) ?status desired) (\<lambda>w. wp (case w of Inl res \<Rightarrow> State_Monad.return res
        | Inr status \<Rightarrow> finishReconcile E r ctx req previousState (resolveTargetName ss) ss1 status) Q) s1"
    if "holds s1 secs (syncs(syncKey ss \<mapsto> ss1))" "copyOf ss1 ss" for s1 ss1
    by (rule writeTarget_wp [where version = version, OF that(1) client _ store existing desired])
      (use that(2) reclaim in \<open>simp_all add: finish\<close>)
  show ?thesis
    by (simp add: applyOutcome_def wp_bind) (rule ensureFinalizer_wp [OF assms(1-3)], simp add: wp_bind written)
qed

end

context kube_vault
begin

lemma reconcileLive_wp:
  assumes s: "holds s secs (syncs(syncKey ss \<mapsto> ss1))" and copy: "copyOf ss1 ss" and live: "om_DeletionTimestamp (ss_Meta ss) = 0"
    and free: "unopposed syncs ss"
    and client: "rc_Client r = ManagerClient" "rc_APIReader r = Some APIReader" "rc_Reader r = Some rd"
    and reclaim: "\<And>x. secs (targetKeyOf ss) = Some x \<Longrightarrow> reclaimable E ss value x"
    and store: "storable E admits ss value version (startingAt secs (targetKeyOf ss))" and sweep: "sweepable E ss secs"
    and vault: "vault (vault_Name (spec_Vault (ss_Spec ss))) (vault_Secret (spec_Vault (ss_Spec ss))) = Some (value, version)"
    and reached: "\<And>x ss' s'. upToDate E ss value version x \<Longrightarrow> syncedAt ss version ss' \<Longrightarrow>
      holds s' ((collected E ss secs)(targetKeyOf ss \<mapsto> x)) (syncs(syncKey ss \<mapsto> ss')) \<Longrightarrow>
      Q (\<lparr>res_RequeueAfter = reconcileInterval r\<rparr>, None) s'"
  shows "wp (reconcileLive E r ctx req previousState (resolveTargetName ss) (targetKeyOf ss) (resolveDataKey ss) ss1) Q s"
proof -
  note same = copyOfD [OF copy] copyOf_cong [OF copy]
  have sync: "wp (reconcileSync E r ctx req previousState (resolveTargetName ss) (targetKeyOf ss) (resolveDataKey ss) ss1
      (visible secs (targetKeyOf ss))) Q s'" if "holds s' secs (syncs(syncKey ss \<mapsto> ss1))" for s'
    unfolding reconcileSync_def Let_def wp_bind client(3)
  proof (rule Sync_wp [where version = version, OF that])
    show "\<not> foreign E ss1 x" if "visible secs (targetKeyOf ss) = Some x" for x
      using that reclaim by (auto simp: same(13) [symmetric] dest!: reclaimable_ours split: option.splits if_splits)
    show "vault (vault_Name (spec_Vault (ss_Spec ss1))) (vault_Secret (spec_Vault (ss_Spec ss1))) = Some (value, version)"
      using vault same(1) by simp
  next
    fix t s''
    assume s'': "holds s'' secs (syncs(syncKey ss \<mapsto> ss1))"
    have "wp (applyOutcome E r ctx req previousState (resolveTargetName ss1) (targetKeyOf ss1) (resolveDataKey ss1) ss1
        (visible secs (targetKeyOf ss)) (priorOf E ss1 (visible secs (targetKeyOf ss))) (inSyncStatus (baseStatus ss1) version t)
        (Some (if (\<exists>x. visible secs (targetKeyOf ss) = Some x \<and> upToDate E ss1 value version x)
           then the (visible secs (targetKeyOf ss)) else adopted ss1 value version (visible secs (targetKeyOf ss))))) Q s''"
    proof (rule applyOutcome_wp [OF s''])
      fix x ss' s3
      assume x: "upToDate E ss1 value version x" and ss': "syncedAt ss1 version ss'"
        and s3: "holds s3 ((collected E ss1 secs)(targetKeyOf ss1 \<mapsto> x)) (syncs(syncKey ss \<mapsto> ss1, syncKey ss1 \<mapsto> ss'))"
      show "Q (\<lparr>res_RequeueAfter = reconcileInterval r\<rparr>, None) s3"
      proof (rule reached)
        show "upToDate E ss value version x" using x by (simp add: same)
        show "syncedAt ss version ss'" using ss' copyOf_trans [OF _ copy] by (auto simp: syncedAt_def same)
        show "holds s3 ((collected E ss secs)(targetKeyOf ss \<mapsto> x)) (syncs(syncKey ss \<mapsto> ss'))"
          using s3 by (simp add: collected_copy [OF copy] same)
      qed
    qed (use live client reclaim storable_copy [OF store copy] sweep sweepable_copy [OF copy] in \<open>auto simp: same\<close>)
    then show "wp (case (inSyncStatus (baseStatus ss1) version t, Some
          (if (\<exists>x. visible secs (targetKeyOf ss) = Some x \<and> upToDate E ss1 value version x)
           then the (visible secs (targetKeyOf ss)) else adopted ss1 value version (visible secs (targetKeyOf ss))), None) of
        (status, desired, err) \<Rightarrow> (case err of
          Some e \<Rightarrow> State_Monad.return (noRequeue, Some
            (Errorf (''kvsynk8s: sync '' @ nsname (nn_Namespace req) (nn_Name req)) [e]))
        | None \<Rightarrow> applyOutcome E r ctx req previousState (resolveTargetName ss) (targetKeyOf ss) (resolveDataKey ss) ss1
            (visible secs (targetKeyOf ss)) (priorOf E ss1 (visible secs (targetKeyOf ss))) status desired)) Q s''"
      by (simp add: same)
  qed
  show ?thesis
    unfolding reconcileLive_def wp_bind client(1)
    apply (rule findConflictingOwner_wp [OF s free copy])
    apply (simp add: wp_bind)
    apply (cases "visible secs (targetKeyOf ss)")
    subgoal for s'
      by (rule cachedGet_missing_wp [of _ secs "syncs(syncKey ss \<mapsto> ss1)"])
        (use sync in \<open>auto split: option.splits if_splits\<close>)
    subgoal for s' x
      by (rule cachedGet_wp [of _ secs "syncs(syncKey ss \<mapsto> ss1)" _ x])
        (use sync in \<open>auto split: option.splits if_splits\<close>)
    done
qed

lemma Reconcile_wp:
  assumes s: "holds s secs syncs" and ss: "syncs req = Some ss" and live: "om_DeletionTimestamp (ss_Meta ss) = 0"
    and free: "unopposed syncs ss"
    and client: "rc_Client r = ManagerClient" "rc_APIReader r = Some APIReader" "rc_Reader r = Some rd"
    and reclaim: "\<And>x. secs (targetKeyOf ss) = Some x \<Longrightarrow> reclaimable E ss value x"
    and store: "storable E admits ss value version (startingAt secs (targetKeyOf ss))" and sweep: "sweepable E ss secs"
    and vault: "vault (vault_Name (spec_Vault (ss_Spec ss))) (vault_Secret (spec_Vault (ss_Spec ss))) = Some (value, version)"
    and reached: "\<And>x ss' s'. upToDate E ss value version x \<Longrightarrow> syncedAt ss version ss' \<Longrightarrow>
      holds s' ((collected E ss secs)(targetKeyOf ss \<mapsto> x)) (syncs(req \<mapsto> ss')) \<Longrightarrow>
      Q (\<lparr>res_RequeueAfter = reconcileInterval r\<rparr>, None) s'"
  shows "wp (Reconcile E r ctx req) Q s"
proof -
  have key: "syncKey ss = req" using s ss by (auto simp: stores_def intro: sync_key)
  show ?thesis
    unfolding Reconcile_def Let_def wp_bind
    apply (rule getSecretSync_wp [OF s ss])
    apply (simp add: live wp_bind)
    apply (rule persistPending_wp, assumption, simp add: key ss)
    apply simp
    apply (fold targetKeyOf_def)
    apply (rule reconcileLive_wp [OF _ _ live free client reclaim store sweep vault])
    using reached key by auto
qed

end

section \<open>The reference cluster\<close>

interpretation reference: kube_vault refEnv refInv refSecret refSync refAdmits "holding value version" "\<lambda>_ _. Some (value, version)"
  for "value" version
  by unfold_locales (auto simp: holding_def)

section \<open>Properties\<close>

text \<open>
  (C10) Deletion completes. Against an API server that answers as documented (\<open>kube_api\<close>), one reconcile
  of a declaration that is being deleted and still carries the operator's finalizer succeeds without
  a requeue: the target Secret is gone if it was the declaration's own and stays if it was not, the
  declaration is gone or no longer carries the finalizer, and nothing else has changed. The declaration's own Secret must still
  carry the managed-by label, since the operator only sees labelled Secrets (\<open>deletion_misses_stripped\<close> shows what
  happens otherwise), and no finalizer of another controller may hold it.
\<close>

theorem reconcile_deletion_completes:
  assumes "kube_api E ok secretOf syncOf admits" and "ok (world s)"
    and "syncOf (world s) req = Some ss" and "om_DeletionTimestamp (ss_Meta ss) \<noteq> 0"
    and "env_ContainsFinalizer E ss finalizerName" and "rc_Client r = ManagerClient"
    and "\<And>x. secretOf (world s) (targetKeyOf ss) = Some x \<Longrightarrow> ControllerOwnedBy E x ss \<Longrightarrow>
      labelled x \<and> om_Finalizers (sec_Meta x) = []"
    and "run_state (Reconcile E r ctx req) s = (res, s')"
  shows "res = (noRequeue, None) \<and> secretOf (world s') = surrendered E ss (secretOf (world s))
    \<and> (\<exists>entry. released E ss entry \<and> syncOf (world s') = (syncOf (world s))(req := entry))"
  by (rule wp_run [OF assms(8)], rule kube_api.Reconcile_dying_wp [where secs = "secretOf (world s)" and syncs = "syncOf (world s)",
        OF assms(1) _ assms(3-6)])
    (use assms(2,7) in \<open>(simp add: stores_def)[2], auto simp: stores_def\<close>)

theorem reconcile_deletion_completes_witness:
  "fst (demoRun demoVault [heldSecret, staleSecret] [dyingSync]) = (noRequeue, None)
   \<and> refSecret (world (snd (demoRun demoVault [heldSecret, staleSecret] [dyingSync]))) =
       surrendered refEnv dyingSync (refSecret (world (demoSys [heldSecret, staleSecret] [dyingSync])))
   \<and> (\<exists>entry. released refEnv dyingSync entry
        \<and> refSync (world (snd (demoRun demoVault [heldSecret, staleSecret] [dyingSync]))) =
            (refSync (world (demoSys [heldSecret, staleSecret] [dyingSync])))(demoReq := entry))"
  by (rule reconcile_deletion_completes [OF reference.kube_api_axioms _ _ _ _ _ _ surjective_pairing])
    (simp_all add: refInv_def refSync_def refSecret_def demoReconciler_def scenario_defs demo_defs ref_defs labelled_def
      targetKeyOf_def resolveTargetName_def populateManagedSecret_def newSecret_def split: if_splits)

text \<open>
  (C1) A reconcile converges. Against an API server and a vault that answer as documented
  (\<open>kube_vault\<close>), one reconcile of a live declaration that no stronger claim opposes succeeds and asks
  to be run again after the interval, whatever the target was before: absent, outdated, or stripped
  of its label. Afterwards the target Secret is the declaration's and holds the vault's value
  at its version, the stored status says InSync at that version and generation with the Ready condition
  True, every Secret the declaration had left behind under another name is gone, and no other Secret
  and no other declaration has changed. A target that is there already must be the declaration's to take, of type Opaque and
  not an immutable one with another value (\<open>reclaimable\<close>); the server must admit the Secret the writer builds (\<open>storable\<close>:
  a value that fits, a valid key and name), and no foreign finalizer may hold a Secret that was left behind (\<open>sweepable\<close>).
\<close>

theorem reconcile_converges:
  assumes "kube_vault E ok secretOf syncOf admits rd vault" and "ok (world s)"
    and "syncOf (world s) req = Some ss" and "om_DeletionTimestamp (ss_Meta ss) = 0"
    and "unopposed (syncOf (world s)) ss"
    and "rc_Client r = ManagerClient" and "rc_APIReader r = Some APIReader" and "rc_Reader r = Some rd"
    and "\<And>x. secretOf (world s) (targetKeyOf ss) = Some x \<Longrightarrow> reclaimable E ss value x"
    and "storable E admits ss value version (startingAt (secretOf (world s)) (targetKeyOf ss))"
    and "sweepable E ss (secretOf (world s))"
    and "vault (vault_Name (spec_Vault (ss_Spec ss))) (vault_Secret (spec_Vault (ss_Spec ss))) = Some (value, version)"
    and "run_state (Reconcile E r ctx req) s = (res, s')"
  shows "res = (\<lparr>res_RequeueAfter = reconcileInterval r\<rparr>, None)
    \<and> (\<exists>x ss'. upToDate E ss value version x \<and> syncedAt ss version ss'
        \<and> secretOf (world s') = (collected E ss (secretOf (world s)))(targetKeyOf ss \<mapsto> x)
        \<and> syncOf (world s') = (syncOf (world s))(req \<mapsto> ss'))"
  by (rule wp_run [OF assms(13)],
      rule kube_vault.Reconcile_wp [OF assms(1) _ assms(3-8) _ assms(10-12)])
    (use assms(2,9) in \<open>(auto simp: stores_def)[2], unfold stores_def, blast\<close>)

lemma ref_storable:
  assumes "om_Name (sec_Meta base) \<noteq> []" and "om_Namespace (sec_Meta base) \<noteq> []" and "resolveDataKey ss \<noteq> []"
    and "length value \<le> 1048576"
  shows "storable refEnv refAdmits ss value version base"
proof -
  have "refAdmits y" if "copyOf ss' ss" "stamped refEnv ss' (resolveDataKey ss) value version base y" for ss' y
  proof -
    have key: "resolveDataKey ss = resolveDataKey ss'" using copyOfD(10) [OF that(1)] by simp
    note content = stamped_content [OF refEnv_ownerRefLaws that(2) [unfolded key]]
    have "om_Name (sec_Meta y) = om_Name (sec_Meta base)" "om_Namespace (sec_Meta y) = om_Namespace (sec_Meta base)"
      using content(1) by (simp_all add: secretKey_def)
    then show ?thesis using assms content(4) by (simp add: refAdmits_def key)
  qed
  then show ?thesis unfolding storable_def by blast
qed

theorem reconcile_converges_witness:
  "fst (demoRun (holding ''n3w'' ''v2'') [strippedSecret, staleSecret] [demoSync]) =
     (\<lparr>res_RequeueAfter = reconcileInterval (demoReconciler (holding ''n3w'' ''v2''))\<rparr>, None)
   \<and> (\<exists>x ss'. upToDate refEnv demoSync ''n3w'' ''v2'' x \<and> syncedAt demoSync ''v2'' ss'
      \<and> refSecret (world (snd (demoRun (holding ''n3w'' ''v2'') [strippedSecret, staleSecret] [demoSync]))) =
          (collected refEnv demoSync (refSecret (world (demoSys [strippedSecret, staleSecret] [demoSync]))))
            (targetKeyOf demoSync \<mapsto> x)
      \<and> refSync (world (snd (demoRun (holding ''n3w'' ''v2'') [strippedSecret, staleSecret] [demoSync]))) =
          (refSync (world (demoSys [strippedSecret, staleSecret] [demoSync])))(demoReq \<mapsto> ss'))"
  by (rule reconcile_converges [where rd = "holding ''n3w'' ''v2''",
        OF reference.kube_vault_axioms _ _ _ _ _ _ _ _ ref_storable _ _ surjective_pairing])
    (simp_all add: refInv_def refSync_def refSecret_def unopposed_def targetKeyOf_def reclaimable_def demoReconciler_def
      scenario_defs demo_defs ref_defs resolveTargetName_def resolveDataKey_def startingAt_def sweepable_def
      populateManagedSecret_def newSecret_def immutableBlocksWrite_def)

end
