(* ===== verification/Go_Json.thy ===== *)
theory Go_Json
  imports Go_Strings
begin

text \<open>
  The part of Go's \<open>encoding/json\<close> that the operator relies on: validation of a document by the byte
  scanner (\<open>scanner.go\<close>), here together with the tree the decoder walks, and the matching of object
  keys to struct fields (\<open>decode.go\<close>, \<open>fold.go\<close>).

  The scanner is the same push-down automaton as Go's: one step per byte, a stack of open objects and
  arrays, at most \<open>maxNestingDepth\<close> of them. An object keeps each member's key, the raw text of its
  value (what a \<open>json.RawMessage\<close> receives) and the value itself; the elements of an array and the
  digits of a number are never looked at by the code modelled here and are not kept.
\<close>

section \<open>Values and the scanner's state\<close>

datatype json =
    JNull
  | JBool bool
  | JNumber
  | JString string
  | JArray
  | JObject "(string \<times> string \<times> json) list"

datatype mode =
    BeginValue | BeginValueOrEmpty | BeginString | BeginStringOrEmpty | EndValue | EndTop
  | InString string | InEscape string | InUnicode nat string
  | Neg | Zero | Digits | Dot | DotDigits | Exp | ExpSign | ExpDigits
  | Literal string json

text \<open>\<open>ObjectKey\<close>: a key is being read or has been read; \<open>ObjectValue\<close>: its value, whose text starts at
  the given position.\<close>

datatype frame =
    ObjectKey "(string \<times> string \<times> json) list" string
  | ObjectValue "(string \<times> string \<times> json) list" string nat
  | ArrayValue

record scan =
  sc_mode :: mode
  sc_stack :: "frame list"
  sc_result :: "json option"

abbreviation maxNestingDepth :: nat where
  "maxNestingDepth \<equiv> 10000"

section \<open>Characters\<close>

definition isSpace :: "char \<Rightarrow> bool" where
  "isSpace c \<longleftrightarrow> byte c = 32 \<or> byte c = 9 \<or> byte c = 13 \<or> byte c = 10"

definition digit :: "char \<Rightarrow> bool" where
  "digit c \<longleftrightarrow> 48 \<le> byte c \<and> byte c \<le> 57"

definition hexValue :: "char \<Rightarrow> nat option" where
  "hexValue c =
     (if 48 \<le> byte c \<and> byte c \<le> 57 then Some (byte c - 48)
      else if 97 \<le> byte c \<and> byte c \<le> 102 then Some (byte c - 87)
      else if 65 \<le> byte c \<and> byte c \<le> 70 then Some (byte c - 55)
      else None)"

text \<open>The value of four hexadecimal digits after \<open>\u\<close>, when they are there (\<open>getu4\<close>).\<close>

fun getu4 :: "string \<Rightarrow> nat option" where
  "getu4 (b # u # h1 # h2 # h3 # h4 # _) =
     (if b = CHR 0x5C \<and> u = CHR ''u'' then
        (case (hexValue h1, hexValue h2, hexValue h3, hexValue h4) of
           (Some a, Some b, Some c, Some d) \<Rightarrow> Some (((a * 16 + b) * 16 + c) * 16 + d)
         | _ \<Rightarrow> None)
      else None)"
| "getu4 _ = None"

text \<open>\<open>utf16.DecodeRune\<close>: the rune of a surrogate pair.\<close>

definition surrogatePair :: "nat \<Rightarrow> nat \<Rightarrow> nat option" where
  "surrogatePair r1 r2 =
     (if 55296 \<le> r1 \<and> r1 < 56320 \<and> 56320 \<le> r2 \<and> r2 < 57344
      then Some ((r1 - 55296) * 1024 + (r2 - 56320) + 65536) else None)"

text \<open>\<open>unquoteBytes\<close>, without the two quotes, on text the scanner has accepted.\<close>

function unquoteBytes :: "string \<Rightarrow> string" where
  "unquoteBytes [] = []"
| "unquoteBytes (c # cs) =
     (if c = CHR 0x5C then
        (case cs of
           [] \<Rightarrow> []
         | e # es \<Rightarrow>
             if e = CHR ''u'' then
               (case getu4 (c # cs) of
                  None \<Rightarrow> []
                | Some r1 \<Rightarrow>
                    if 55296 \<le> r1 \<and> r1 < 57344 then
                      (case getu4 (drop 4 es) of
                         None \<Rightarrow> encodeRune RuneError @ unquoteBytes (drop 4 es)
                       | Some r2 \<Rightarrow>
                           (case surrogatePair r1 r2 of
                              Some r \<Rightarrow> encodeRune r @ unquoteBytes (drop 10 es)
                            | None \<Rightarrow> encodeRune RuneError @ unquoteBytes (drop 4 es)))
                    else encodeRune r1 @ unquoteBytes (drop 4 es))
             else
               (if e = CHR ''b'' then CHR 0x08 else if e = CHR ''f'' then CHR 0x0C
                else if e = CHR ''n'' then CHR 0x0A else if e = CHR ''r'' then CHR 0x0D
                else if e = CHR ''t'' then CHR 0x09 else e) # unquoteBytes es)
      else if byte c < 128 then c # unquoteBytes cs
      else encodeRune (fst (decodeRune (c # cs)))
             @ unquoteBytes (drop (snd (decodeRune (c # cs)) - 1) cs))"
  by pat_completeness auto
termination
  by (relation "measure length") auto

section \<open>Steps\<close>

text \<open>A value is complete; \<open>pos\<close> is the position after its last byte in the document \<open>doc\<close>.\<close>

definition complete :: "string \<Rightarrow> nat \<Rightarrow> json \<Rightarrow> scan \<Rightarrow> scan" where
  "complete doc pos v sc =
     (case sc_stack sc of
        [] \<Rightarrow> sc\<lparr>sc_mode := EndValue, sc_result := Some v\<rparr>
      | ObjectKey ms k # fs \<Rightarrow>
          sc\<lparr>sc_mode := EndValue,
             sc_stack := ObjectKey ms (case v of JString s \<Rightarrow> s | _ \<Rightarrow> []) # fs\<rparr>
      | ObjectValue ms k start # fs \<Rightarrow>
          sc\<lparr>sc_mode := EndValue,
             sc_stack := ObjectValue (ms @ [(k, take (pos - start) (drop start doc), v)]) k start # fs\<rparr>
      | ArrayValue # fs \<Rightarrow> sc\<lparr>sc_mode := EndValue\<rparr>)"

definition push :: "frame \<Rightarrow> mode \<Rightarrow> scan \<Rightarrow> scan option" where
  "push f m sc =
     (if length (sc_stack sc) < maxNestingDepth
      then Some (sc\<lparr>sc_mode := m, sc_stack := f # sc_stack sc\<rparr>) else None)"

definition pop :: "string \<Rightarrow> nat \<Rightarrow> json \<Rightarrow> scan \<Rightarrow> scan option" where
  "pop doc pos v sc = Some (complete doc pos v (sc\<lparr>sc_stack := tl (sc_stack sc)\<rparr>))"

definition endValue :: "string \<Rightarrow> nat \<Rightarrow> char \<Rightarrow> scan \<Rightarrow> scan option" where
  "endValue doc pos c sc =
     (case sc_stack sc of
        [] \<Rightarrow> if isSpace c then Some (sc\<lparr>sc_mode := EndTop\<rparr>) else None
      | f # fs \<Rightarrow>
          if isSpace c then Some (sc\<lparr>sc_mode := EndValue\<rparr>)
          else (case f of
              ObjectKey ms k \<Rightarrow>
                if c = CHR '':''
                then Some (sc\<lparr>sc_mode := BeginValue, sc_stack := ObjectValue ms k 0 # fs\<rparr>) else None
            | ObjectValue ms k start \<Rightarrow>
                if c = CHR '',''
                then Some (sc\<lparr>sc_mode := BeginString, sc_stack := ObjectKey ms [] # fs\<rparr>)
                else if c = CHR ''}'' then pop doc (Suc pos) (JObject ms) sc
                else None
            | ArrayValue \<Rightarrow>
                if c = CHR '','' then Some (sc\<lparr>sc_mode := BeginValue\<rparr>)
                else if c = CHR '']'' then pop doc (Suc pos) JArray sc
                else None))"

text \<open>The start of a value is remembered in the member that will hold it.\<close>

definition markStart :: "nat \<Rightarrow> scan \<Rightarrow> scan" where
  "markStart pos sc =
     (case sc_stack sc of
        ObjectValue ms k _ # fs \<Rightarrow> sc\<lparr>sc_stack := ObjectValue ms k pos # fs\<rparr>
      | _ \<Rightarrow> sc)"

definition beginValue :: "nat \<Rightarrow> char \<Rightarrow> scan \<Rightarrow> scan option" where
  "beginValue pos c sc0 =
     (let sc = markStart pos sc0 in
      if c = CHR ''{'' then push (ObjectKey [] []) BeginStringOrEmpty sc
      else if c = CHR ''['' then push ArrayValue BeginValueOrEmpty sc
      else if c = CHR 0x22 then Some (sc\<lparr>sc_mode := InString []\<rparr>)
      else if c = CHR ''-'' then Some (sc\<lparr>sc_mode := Neg\<rparr>)
      else if c = CHR ''0'' then Some (sc\<lparr>sc_mode := Zero\<rparr>)
      else if digit c then Some (sc\<lparr>sc_mode := Digits\<rparr>)
      else if c = CHR ''t'' then Some (sc\<lparr>sc_mode := Literal ''rue'' (JBool True)\<rparr>)
      else if c = CHR ''f'' then Some (sc\<lparr>sc_mode := Literal ''alse'' (JBool False)\<rparr>)
      else if c = CHR ''n'' then Some (sc\<lparr>sc_mode := Literal ''ull'' JNull\<rparr>)
      else None)"

text \<open>A number ends at the first byte that cannot continue it, and that byte is scanned again.\<close>

definition endNumber :: "string \<Rightarrow> nat \<Rightarrow> char \<Rightarrow> scan \<Rightarrow> scan option" where
  "endNumber doc pos c sc = endValue doc pos c (complete doc pos JNumber sc)"

definition step :: "string \<Rightarrow> nat \<Rightarrow> char \<Rightarrow> scan \<Rightarrow> scan option" where
  "step doc pos c sc =
     (case sc_mode sc of
        BeginValue \<Rightarrow> if isSpace c then Some sc else beginValue pos c sc
      | BeginValueOrEmpty \<Rightarrow>
          if isSpace c then Some sc
          else if c = CHR '']'' then pop doc (Suc pos) JArray sc
          else beginValue pos c sc
      | BeginStringOrEmpty \<Rightarrow>
          if isSpace c then Some sc
          else if c = CHR ''}'' then pop doc (Suc pos) (JObject []) sc
          else if c = CHR 0x22 then Some (sc\<lparr>sc_mode := InString []\<rparr>) else None
      | BeginString \<Rightarrow>
          if isSpace c then Some sc
          else if c = CHR 0x22 then Some (sc\<lparr>sc_mode := InString []\<rparr>) else None
      | EndValue \<Rightarrow> endValue doc pos c sc
      | EndTop \<Rightarrow> if isSpace c then Some sc else None
      | InString acc \<Rightarrow>
          if c = CHR 0x22 then Some (complete doc (Suc pos) (JString (unquoteBytes (rev acc))) sc)
          else if c = CHR 0x5C then Some (sc\<lparr>sc_mode := InEscape (c # acc)\<rparr>)
          else if byte c < 32 then None
          else Some (sc\<lparr>sc_mode := InString (c # acc)\<rparr>)
      | InEscape acc \<Rightarrow>
          if c = CHR ''u'' then Some (sc\<lparr>sc_mode := InUnicode 4 (c # acc)\<rparr>)
          else if c \<in> set (CHR 0x5C # CHR 0x22 # ''/bfnrt'') then Some (sc\<lparr>sc_mode := InString (c # acc)\<rparr>)
          else None
      | InUnicode n acc \<Rightarrow>
          if hexValue c = None then None
          else Some (sc\<lparr>sc_mode := (if n = 1 then InString (c # acc) else InUnicode (n - 1) (c # acc))\<rparr>)
      | Neg \<Rightarrow>
          if c = CHR ''0'' then Some (sc\<lparr>sc_mode := Zero\<rparr>)
          else if digit c then Some (sc\<lparr>sc_mode := Digits\<rparr>) else None
      | Zero \<Rightarrow>
          if c = CHR ''.'' then Some (sc\<lparr>sc_mode := Dot\<rparr>)
          else if c = CHR ''e'' \<or> c = CHR ''E'' then Some (sc\<lparr>sc_mode := Exp\<rparr>)
          else endNumber doc pos c sc
      | Digits \<Rightarrow>
          if digit c then Some sc
          else if c = CHR ''.'' then Some (sc\<lparr>sc_mode := Dot\<rparr>)
          else if c = CHR ''e'' \<or> c = CHR ''E'' then Some (sc\<lparr>sc_mode := Exp\<rparr>)
          else endNumber doc pos c sc
      | Dot \<Rightarrow> if digit c then Some (sc\<lparr>sc_mode := DotDigits\<rparr>) else None
      | DotDigits \<Rightarrow>
          if digit c then Some sc
          else if c = CHR ''e'' \<or> c = CHR ''E'' then Some (sc\<lparr>sc_mode := Exp\<rparr>)
          else endNumber doc pos c sc
      | Exp \<Rightarrow>
          if c = CHR ''+'' \<or> c = CHR ''-'' then Some (sc\<lparr>sc_mode := ExpSign\<rparr>)
          else if digit c then Some (sc\<lparr>sc_mode := ExpDigits\<rparr>) else None
      | ExpSign \<Rightarrow> if digit c then Some (sc\<lparr>sc_mode := ExpDigits\<rparr>) else None
      | ExpDigits \<Rightarrow> if digit c then Some sc else endNumber doc pos c sc
      | Literal rest v \<Rightarrow>
          (case rest of
             [] \<Rightarrow> None
           | x # xs \<Rightarrow>
               if c \<noteq> x then None
               else if xs = [] then Some (complete doc (Suc pos) v sc)
               else Some (sc\<lparr>sc_mode := Literal xs v\<rparr>)))"

fun scanBytes :: "string \<Rightarrow> nat \<Rightarrow> string \<Rightarrow> scan \<Rightarrow> scan option" where
  "scanBytes doc pos [] sc = Some sc"
| "scanBytes doc pos (c # cs) sc =
     (case step doc pos c sc of None \<Rightarrow> None | Some sc' \<Rightarrow> scanBytes doc (Suc pos) cs sc')"

definition scanStart :: scan where
  "scanStart = \<lparr>sc_mode = BeginValue, sc_stack = [], sc_result = None\<rparr>"

text \<open>\<open>checkValid\<close> followed by the walk of the decoder: the document's value, when it is valid JSON. The
  end of the input is scanned as one more space, as \<open>scanner.eof\<close> does.\<close>

definition parseJson :: "string \<Rightarrow> json option" where
  "parseJson doc =
     (case scanBytes doc 0 (doc @ '' '') scanStart of
        None \<Rightarrow> None
      | Some sc \<Rightarrow> if sc_mode sc = EndTop then sc_result sc else None)"

section \<open>Struct fields\<close>

text \<open>\<open>foldRune\<close>: the smallest rune of a folding orbit.\<close>

primrec foldRune :: "unicode \<Rightarrow> nat \<Rightarrow> nat \<Rightarrow> nat" where
  "foldRune u 0 r = r"
| "foldRune u (Suc n) r =
     (if tab_SimpleFold u r \<le> r then tab_SimpleFold u r else foldRune u n (tab_SimpleFold u r))"

function foldName :: "unicode \<Rightarrow> string \<Rightarrow> string" where
  "foldName u [] = []"
| "foldName u (c # cs) =
     (if byte c < 128 then char_of (upperByte (byte c)) # foldName u cs
      else encodeRune (foldRune u 4 (fst (decodeRune (c # cs))))
             @ foldName u (drop (snd (decodeRune (c # cs)) - 1) cs))"
  by pat_completeness auto
termination
  by (relation "measure (\<lambda>(u, s). length s)") auto

text \<open>The field of a struct a key belongs to: the one with exactly that name, or else the one whose
  folded name is the key's folded name.\<close>

definition fieldFor :: "unicode \<Rightarrow> string list \<Rightarrow> string \<Rightarrow> string option" where
  "fieldFor u names key =
     (if key \<in> set names then Some key
      else find (\<lambda>n. foldName u n = foldName u key) names)"

section \<open>Writing documents\<close>

text \<open>
  A printer for documents, the specification the scanner is checked against: what it writes is valid and
  is read back, with the raw text of every member. A number is given by its sign, integer part, fraction and
  exponent. There is no white space between the tokens.
\<close>

datatype jdoc =
    DNull
  | DBool bool
  | DStr string
  | DNum string string string string
  | DArr "jdoc list"
  | DObj "(string \<times> jdoc) list"

text \<open>The parts of a number (RFC 8259).\<close>

definition digits :: "string \<Rightarrow> bool" where
  "digits s \<longleftrightarrow> s \<noteq> [] \<and> list_all digit s"

definition isIntPart :: "string \<Rightarrow> bool" where
  "isIntPart s \<longleftrightarrow> s = ''0'' \<or> digits s \<and> hd s \<noteq> CHR ''0''"

definition isFraction :: "string \<Rightarrow> bool" where
  "isFraction s = (case s of [] \<Rightarrow> True | c # cs \<Rightarrow> c = CHR ''.'' \<and> digits cs)"

definition isExponent :: "string \<Rightarrow> bool" where
  "isExponent s =
     (case s of [] \<Rightarrow> True
      | c # cs \<Rightarrow> (c = CHR ''e'' \<or> c = CHR ''E'')
          \<and> (digits cs \<or> (case cs of [] \<Rightarrow> False | g # gs \<Rightarrow> (g = CHR ''+'' \<or> g = CHR ''-'') \<and> digits gs)))"

definition showString :: "string \<Rightarrow> string" where
  "showString s = CHR 0x22 # s @ [CHR 0x22]"

fun showDoc :: "jdoc \<Rightarrow> string"
  and showElems :: "jdoc list \<Rightarrow> string"
  and showMembers :: "(string \<times> jdoc) list \<Rightarrow> string" where
  "showDoc DNull = ''null''"
| "showDoc (DBool b) = (if b then ''true'' else ''false'')"
| "showDoc (DStr s) = showString s"
| "showDoc (DNum sg ip fp ep) = sg @ ip @ fp @ ep"
| "showDoc (DArr ds) = ''['' @ showElems ds @ '']''"
| "showDoc (DObj ms) = ''{'' @ showMembers ms @ ''}''"
| "showElems [] = []"
| "showElems (d # ds) = showDoc d @ (if ds = [] then [] else '','' @ showElems ds)"
| "showMembers [] = []"
| "showMembers ((k, d) # ms) =
     showString k @ '':'' @ showDoc d @ (if ms = [] then [] else '','' @ showMembers ms)"

fun toJson :: "jdoc \<Rightarrow> json"
  and toMembers :: "(string \<times> jdoc) list \<Rightarrow> (string \<times> string \<times> json) list" where
  "toJson DNull = JNull"
| "toJson (DBool b) = JBool b"
| "toJson (DStr s) = JString s"
| "toJson (DNum sg ip fp ep) = JNumber"
| "toJson (DArr ds) = JArray"
| "toJson (DObj ms) = JObject (toMembers ms)"
| "toMembers [] = []"
| "toMembers ((k, d) # ms) = (k, showDoc d, toJson d) # toMembers ms"

text \<open>Strings that need no escape, numbers of the grammar, and a nesting within the scanner's limit.\<close>

fun plainDoc :: "nat \<Rightarrow> jdoc \<Rightarrow> bool"
  and plainElems :: "nat \<Rightarrow> jdoc list \<Rightarrow> bool"
  and plainMembers :: "nat \<Rightarrow> (string \<times> jdoc) list \<Rightarrow> bool" where
  "plainDoc n DNull = True"
| "plainDoc n (DBool b) = True"
| "plainDoc n (DStr s) = list_all plainChar s"
| "plainDoc n (DNum sg ip fp ep) =
     ((sg = [] \<or> sg = ''-'') \<and> isIntPart ip \<and> isFraction fp \<and> isExponent ep)"
| "plainDoc n (DArr ds) = (0 < n \<and> plainElems (n - 1) ds)"
| "plainDoc n (DObj ms) = (0 < n \<and> plainMembers (n - 1) ms)"
| "plainElems n [] = True"
| "plainElems n (d # ds) = (plainDoc n d \<and> plainElems n ds)"
| "plainMembers n [] = True"
| "plainMembers n ((k, d) # ms) = (list_all plainChar k \<and> plainDoc n d \<and> plainMembers n ms)"

text \<open>The text \<open>t\<close> stands in the document at a position.\<close>

definition at :: "string \<Rightarrow> nat \<Rightarrow> string \<Rightarrow> bool" where
  "at doc pos t \<longleftrightarrow> take (length t) (drop pos doc) = t"

text \<open>A text that begins with what may follow a value; a number is complete only then.\<close>

fun delimited :: "string \<Rightarrow> bool" where
  "delimited [] = False"
| "delimited (c # cs) = (c \<in> set '',}] '')"

text \<open>What the scanner does on the text of a document, on the elements of an array and on the members of an
  object, as predicates for the induction.\<close>

definition scansDoc :: "string \<Rightarrow> nat \<Rightarrow> jdoc \<Rightarrow> bool" where
  "scansDoc doc n d \<longleftrightarrow>
     (\<forall>sc pos rest. sc_mode sc = BeginValue \<and> length (sc_stack sc) + n \<le> maxNestingDepth \<and> at doc pos (showDoc d)
        \<and> delimited rest \<longrightarrow>
        scanBytes doc pos (showDoc d @ rest) sc =
          scanBytes doc (pos + length (showDoc d)) rest
            (complete doc (pos + length (showDoc d)) (toJson d) (markStart pos sc)))"

definition scansElems :: "string \<Rightarrow> nat \<Rightarrow> jdoc list \<Rightarrow> bool" where
  "scansElems doc n ds \<longleftrightarrow>
     (\<forall>sc pos rest fs. sc_mode sc = BeginValue \<and> sc_stack sc = ArrayValue # fs
        \<and> length (sc_stack sc) + n \<le> maxNestingDepth \<and> at doc pos (showElems ds) \<longrightarrow>
        scanBytes doc pos (showElems ds @ '']'' @ rest) sc =
          scanBytes doc (pos + length (showElems ds) + 1) rest
            (complete doc (pos + length (showElems ds) + 1) JArray (sc\<lparr>sc_stack := fs\<rparr>)))"

definition scansMembers :: "string \<Rightarrow> nat \<Rightarrow> (string \<times> jdoc) list \<Rightarrow> bool" where
  "scansMembers doc n ms \<longleftrightarrow>
     (\<forall>sc pos rest acc k0 fs. (sc_mode sc = BeginString \<or> sc_mode sc = BeginStringOrEmpty)
        \<and> sc_stack sc = ObjectKey acc k0 # fs \<and> length (sc_stack sc) + n \<le> maxNestingDepth
        \<and> at doc pos (showMembers ms) \<longrightarrow>
        scanBytes doc pos (showMembers ms @ ''}'' @ rest) sc =
          scanBytes doc (pos + length (showMembers ms) + 1) rest
            (complete doc (pos + length (showMembers ms) + 1) (JObject (acc @ toMembers ms)) (sc\<lparr>sc_stack := fs\<rparr>)))"

section \<open>Lemmas\<close>

lemma at_append: "at doc pos (s @ t) \<longleftrightarrow> at doc pos s \<and> at doc (pos + length s) t"
proof -
  have "take (length s + length t) (drop pos doc) = take (length s) (drop pos doc)
      @ take (length t) (drop (pos + length s) doc)"
    by (simp add: take_add drop_drop add.commute)
  moreover have "a @ b = s @ t \<longleftrightarrow> a = s \<and> b = t" if "length a \<le> length s" "length b \<le> length t" for a b :: string
  proof
    assume eq: "a @ b = s @ t"
    then have "length a + length b = length s + length t" by (metis length_append)
    with that have "length a = length s" by linarith
    with eq show "a = s \<and> b = t" by simp
  qed simp
  ultimately show ?thesis
    unfolding at_def length_append by simp
qed

lemma at_Cons: "at doc pos (c # t) \<longleftrightarrow> at doc pos [c] \<and> at doc (Suc pos) t"
  using at_append [of doc pos "[c]" t] by simp

lemma at_all: "at doc 0 doc"
  by (simp add: at_def)

lemma unquote_plain: "list_all plainChar s \<Longrightarrow> unquoteBytes s = s"
  by (induction s) (auto simp: plainChar_def byte_def)

lemma plain_step:
  "plainChar c \<Longrightarrow> sc_mode sc = InString acc \<Longrightarrow> step doc pos c sc = Some (sc\<lparr>sc_mode := InString (c # acc)\<rparr>)"
  by (auto simp: step_def plainChar_def byte_def)

lemma scan_plain:
  "list_all plainChar s \<Longrightarrow> sc_mode sc = InString acc \<Longrightarrow>
   scanBytes doc pos (s @ rest) sc = scanBytes doc (pos + length s) rest (sc\<lparr>sc_mode := InString (rev s @ acc)\<rparr>)"
proof (induction s arbitrary: pos sc acc)
  case Nil
  then have "sc\<lparr>sc_mode := InString acc\<rparr> = sc" by (cases sc) simp
  then show ?case by simp
qed (simp add: plain_step)

text \<open>The rest of a string after its opening quote.\<close>

lemma scan_string:
  assumes "list_all plainChar s" and "sc_mode sc = InString []"
  shows "scanBytes doc pos (s @ CHR 0x22 # rest) sc =
    scanBytes doc (pos + length s + 1) rest (complete doc (pos + length s + 1) (JString s) sc)"
  using assms
  by (simp add: scan_plain step_def unquote_plain complete_def split: list.split frame.split)

text \<open>A value that starts where a value is expected; \<open>complete\<close> files it with its raw text.\<close>

lemma complete_mode [simp]: "complete doc pos v (sc\<lparr>sc_mode := m\<rparr>) = complete doc pos v sc"
  by (auto simp: complete_def split: list.split frame.split)

lemma complete_stack_mode [simp]:
  "complete doc pos v (sc\<lparr>sc_mode := m, sc_stack := fs\<rparr>) = complete doc pos v (sc\<lparr>sc_stack := fs\<rparr>)"
  by (auto simp: complete_def split: list.split frame.split)

lemma scan_rest:
  "xs \<noteq> [] \<Longrightarrow> sc_mode sc = Literal xs v \<Longrightarrow>
   scanBytes doc pos (xs @ rest) sc =
     scanBytes doc (pos + length xs) rest (complete doc (pos + length xs) v sc)"
proof (induction xs arbitrary: pos sc)
  case (Cons x xs)
  show ?case
  proof (cases "xs = []")
    case False
    from Cons.IH [OF this, of "sc\<lparr>sc_mode := Literal xs v\<rparr>" "Suc pos"] False Cons.prems
    show ?thesis by (simp add: step_def)
  qed (use Cons.prems in \<open>simp add: step_def\<close>)
qed simp

lemma markStart_mode [simp]: "markStart pos (sc\<lparr>sc_mode := m\<rparr>) = (markStart pos sc)\<lparr>sc_mode := m\<rparr>"
  by (auto simp: markStart_def split: list.split frame.split)

lemma scan_literal:
  assumes "sc_mode sc = BeginValue" and "d = DNull \<or> d = DBool b"
  shows "scanBytes doc pos (showDoc d @ rest) sc =
    scanBytes doc (pos + length (showDoc d)) rest
      (complete doc (pos + length (showDoc d)) (toJson d) (markStart pos sc))"
proof -
  have lit: "scanBytes doc pos (c # xs @ rest) sc =
      scanBytes doc (pos + length (c # xs)) rest (complete doc (pos + length (c # xs)) v (markStart pos sc))"
    if "step doc pos c sc = Some ((markStart pos sc)\<lparr>sc_mode := Literal xs v\<rparr>)" "xs \<noteq> []" for c xs v
    using that scan_rest [OF that(2), of "(markStart pos sc)\<lparr>sc_mode := Literal xs v\<rparr>" v doc "Suc pos" rest]
    by simp
  have start: "step doc pos CHR ''n'' sc = Some ((markStart pos sc)\<lparr>sc_mode := Literal ''ull'' JNull\<rparr>)"
    "step doc pos CHR ''t'' sc = Some ((markStart pos sc)\<lparr>sc_mode := Literal ''rue'' (JBool True)\<rparr>)"
    "step doc pos CHR ''f'' sc = Some ((markStart pos sc)\<lparr>sc_mode := Literal ''alse'' (JBool False)\<rparr>)"
    using assms(1) by (simp_all add: step_def isSpace_def beginValue_def digit_def byte_def Let_def)
  show ?thesis
    using assms(2) lit [OF start(1)] lit [OF start(2)] lit [OF start(3)] by (cases b) auto
qed

lemma scan_key:
  assumes "list_all plainChar k" and "sc_mode sc = BeginString \<or> sc_mode sc = BeginStringOrEmpty"
    and "sc_stack sc = ObjectKey ms k0 # fs"
  shows "scanBytes doc pos (showString k @ '':'' @ rest) sc =
    scanBytes doc (pos + length (showString k) + 1) rest
      (sc\<lparr>sc_mode := BeginValue, sc_stack := ObjectValue ms k 0 # fs\<rparr>)"
proof -
  have "scanBytes doc pos (showString k @ '':'' @ rest) sc =
      scanBytes doc (Suc pos) (k @ CHR 0x22 # '':'' @ rest) (sc\<lparr>sc_mode := InString []\<rparr>)"
    using assms(2) by (auto simp: showString_def step_def isSpace_def byte_def)
  also have "\<dots> = scanBytes doc (pos + length (showString k) + 1) rest
      (sc\<lparr>sc_mode := BeginValue, sc_stack := ObjectValue ms k 0 # fs\<rparr>)"
    using assms(1,3)
    by (simp add: scan_string showString_def complete_def step_def endValue_def isSpace_def byte_def)
  finally show ?thesis .
qed

text \<open>A member's value is filed with the text that stands in the document.\<close>

lemma complete_member:
  assumes "sc_stack sc = ObjectValue ms k start # fs" and "at doc pos t"
  shows "complete doc (pos + length t) v (markStart pos sc) =
    sc\<lparr>sc_mode := EndValue, sc_stack := ObjectValue (ms @ [(k, t, v)]) k pos # fs\<rparr>"
  using assms by (simp add: complete_def markStart_def at_def)

lemma scan_string_value:
  assumes "sc_mode sc = BeginValue" and "list_all plainChar s"
  shows "scanBytes doc pos (showString s @ rest) sc =
    scanBytes doc (pos + length (showString s)) rest
      (complete doc (pos + length (showString s)) (JString s) (markStart pos sc))"
proof -
  have "step doc pos CHR 0x22 sc = Some ((markStart pos sc)\<lparr>sc_mode := InString []\<rparr>)"
    using assms(1) by (simp add: step_def isSpace_def beginValue_def byte_def Let_def)
  with scan_string [OF assms(2), of "(markStart pos sc)\<lparr>sc_mode := InString []\<rparr>" doc "Suc pos" rest]
  show ?thesis by (simp add: showString_def)
qed

lemma scan_object:
  assumes "ms \<noteq> [] \<Longrightarrow> scansMembers doc n ms"
  shows "scansDoc doc (Suc n) (DObj ms)"
  unfolding scansDoc_def
proof (intro allI impI, elim conjE)
  fix sc :: scan and pos rest
  assume sc: "sc_mode sc = BeginValue" "length (sc_stack sc) + Suc n \<le> maxNestingDepth"
    and here: "at doc pos (showDoc (DObj ms))" and "delimited rest"
  let ?m = "markStart pos sc"
  let ?sc = "?m\<lparr>sc_mode := BeginStringOrEmpty, sc_stack := ObjectKey [] [] # sc_stack ?m\<rparr>"
  have len: "length (sc_stack ?m) = length (sc_stack sc)"
    by (auto simp: markStart_def split: list.split frame.split)
  have popped: "?sc\<lparr>sc_stack := sc_stack ?m\<rparr> = ?m\<lparr>sc_mode := BeginStringOrEmpty\<rparr>"
    by (cases ?m) simp
  have "step doc pos CHR ''{'' sc = Some ?sc"
    using sc len by (simp add: step_def isSpace_def beginValue_def byte_def push_def Let_def)
  then have start: "scanBytes doc pos (showDoc (DObj ms) @ rest) sc =
      scanBytes doc (Suc pos) (showMembers ms @ ''}'' @ rest) ?sc" by simp
  show "scanBytes doc pos (showDoc (DObj ms) @ rest) sc =
      scanBytes doc (pos + length (showDoc (DObj ms))) rest
        (complete doc (pos + length (showDoc (DObj ms))) (toJson (DObj ms)) ?m)"
  proof (cases "ms = []")
    case True
    then show ?thesis unfolding start using popped
      by (simp add: step_def isSpace_def byte_def pop_def)
  next
    case False
    have "at doc (Suc pos) (showMembers ms)"
      using here by (simp add: at_append [of doc "Suc pos"] at_Cons [of doc pos _ "_ @ _"])
    with assms [OF False, unfolded scansMembers_def, rule_format, of ?sc "[]" "[]" "sc_stack ?m" "Suc pos" rest]
      sc len popped show ?thesis unfolding start by simp
  qed
qed

lemma scan_member:
  assumes "scansDoc doc n d" and "list_all plainChar k"
    and "sc_mode sc = BeginString \<or> sc_mode sc = BeginStringOrEmpty"
    and "sc_stack sc = ObjectKey acc k0 # fs" and "length (sc_stack sc) + n \<le> maxNestingDepth"
    and "at doc (pos + length (showString k) + 1) (showDoc d)" and "delimited rest"
  shows "scanBytes doc pos (showString k @ '':'' @ showDoc d @ rest) sc =
    scanBytes doc (pos + length (showString k) + 1 + length (showDoc d)) rest
      (sc\<lparr>sc_mode := EndValue, sc_stack :=
        ObjectValue (acc @ [(k, showDoc d, toJson d)]) k (pos + length (showString k) + 1) # fs\<rparr>)"
proof -
  let ?pos = "pos + length (showString k) + 1"
  let ?sc = "sc\<lparr>sc_mode := BeginValue, sc_stack := ObjectValue acc k 0 # fs\<rparr>"
  have "scanBytes doc pos (showString k @ '':'' @ showDoc d @ rest) sc =
      scanBytes doc ?pos (showDoc d @ rest) ?sc"
    by (rule scan_key [OF assms(2,3,4)])
  also have "\<dots> = scanBytes doc (?pos + length (showDoc d)) rest
      (complete doc (?pos + length (showDoc d)) (toJson d) (markStart ?pos ?sc))"
    using assms(1) [unfolded scansDoc_def, rule_format, of ?sc ?pos rest] assms(4-7) by simp
  also have "complete doc (?pos + length (showDoc d)) (toJson d) (markStart ?pos ?sc) =
      ?sc\<lparr>sc_mode := EndValue, sc_stack := ObjectValue (acc @ [(k, showDoc d, toJson d)]) k ?pos # fs\<rparr>"
    by (rule complete_member) (use assms(6) in simp_all)
  finally show ?thesis by simp
qed

lemma scan_members_Cons:
  assumes "scansDoc doc n d" and "list_all plainChar k" and more: "ms \<noteq> [] \<Longrightarrow> scansMembers doc n ms"
  shows "scansMembers doc n ((k, d) # ms)"
  unfolding scansMembers_def
proof (intro allI impI, elim conjE)
  fix sc :: scan and pos rest acc k0 fs
  assume sc: "sc_mode sc = BeginString \<or> sc_mode sc = BeginStringOrEmpty"
      "sc_stack sc = ObjectKey acc k0 # fs" "length (sc_stack sc) + n \<le> maxNestingDepth"
    and here: "at doc pos (showMembers ((k, d) # ms))"
  let ?tail = "if ms = [] then [] else '','' @ showMembers ms"
  let ?pos = "pos + length (showString k) + 1"
  let ?acc = "acc @ [(k, showDoc d, toJson d)]"
  let ?sc = "sc\<lparr>sc_mode := EndValue, sc_stack := ObjectValue ?acc k ?pos # fs\<rparr>"
  have at: "at doc ?pos (showDoc d)" "at doc (?pos + length (showDoc d)) ?tail"
    using here at_append [of doc pos "showString k @ '':''" "showDoc d @ ?tail"]
      at_append [of doc ?pos "showDoc d" ?tail] by (simp_all add: add.assoc)
  have "scanBytes doc pos (showMembers ((k, d) # ms) @ ''}'' @ rest) sc =
      scanBytes doc (?pos + length (showDoc d)) (?tail @ ''}'' @ rest) ?sc"
    using scan_member [OF assms(1,2) sc at(1), of "?tail @ ''}'' @ rest"] by (cases "ms = []") simp_all
  also have "\<dots> = scanBytes doc (pos + length (showMembers ((k, d) # ms)) + 1) rest
      (complete doc (pos + length (showMembers ((k, d) # ms)) + 1) (JObject (acc @ toMembers ((k, d) # ms)))
        (sc\<lparr>sc_stack := fs\<rparr>))"
  proof (cases "ms = []")
    case True
    then show ?thesis
      by (simp add: step_def endValue_def isSpace_def byte_def pop_def add.assoc)
  next
    case False
    let ?sc' = "sc\<lparr>sc_mode := BeginString, sc_stack := ObjectKey ?acc [] # fs\<rparr>"
    have "step doc (?pos + length (showDoc d)) CHR '','' ?sc = Some ?sc'"
      by (simp add: step_def endValue_def isSpace_def byte_def)
    moreover have "at doc (?pos + length (showDoc d) + 1) (showMembers ms)"
      using at(2) False by (simp add: at_Cons [of doc _ _ "showMembers ms"])
    ultimately show ?thesis
      using more [OF False, unfolded scansMembers_def, rule_format, of ?sc' ?acc "[]" fs
          "?pos + length (showDoc d) + 1" rest] sc False by (simp add: add.assoc)
  qed
  finally show "scanBytes doc pos (showMembers ((k, d) # ms) @ ''}'' @ rest) sc =
      scanBytes doc (pos + length (showMembers ((k, d) # ms)) + 1) rest
        (complete doc (pos + length (showMembers ((k, d) # ms)) + 1) (JObject (acc @ toMembers ((k, d) # ms)))
          (sc\<lparr>sc_stack := fs\<rparr>))" .
qed

text \<open>Numbers.\<close>

lemma step_number:
  "sc_mode sc = Neg \<Longrightarrow> step doc pos c sc = (if c = CHR ''0'' then Some (sc\<lparr>sc_mode := Zero\<rparr>)
     else if digit c then Some (sc\<lparr>sc_mode := Digits\<rparr>) else None)"
  "sc_mode sc = Zero \<Longrightarrow> step doc pos c sc = (if c = CHR ''.'' then Some (sc\<lparr>sc_mode := Dot\<rparr>)
     else if c = CHR ''e'' \<or> c = CHR ''E'' then Some (sc\<lparr>sc_mode := Exp\<rparr>) else endNumber doc pos c sc)"
  "sc_mode sc = Digits \<Longrightarrow> step doc pos c sc = (if digit c then Some sc
     else if c = CHR ''.'' then Some (sc\<lparr>sc_mode := Dot\<rparr>)
     else if c = CHR ''e'' \<or> c = CHR ''E'' then Some (sc\<lparr>sc_mode := Exp\<rparr>) else endNumber doc pos c sc)"
  "sc_mode sc = Dot \<Longrightarrow> step doc pos c sc = (if digit c then Some (sc\<lparr>sc_mode := DotDigits\<rparr>) else None)"
  "sc_mode sc = DotDigits \<Longrightarrow> step doc pos c sc = (if digit c then Some sc
     else if c = CHR ''e'' \<or> c = CHR ''E'' then Some (sc\<lparr>sc_mode := Exp\<rparr>) else endNumber doc pos c sc)"
  "sc_mode sc = Exp \<Longrightarrow> step doc pos c sc = (if c = CHR ''+'' \<or> c = CHR ''-'' then Some (sc\<lparr>sc_mode := ExpSign\<rparr>)
     else if digit c then Some (sc\<lparr>sc_mode := ExpDigits\<rparr>) else None)"
  "sc_mode sc = ExpSign \<Longrightarrow> step doc pos c sc = (if digit c then Some (sc\<lparr>sc_mode := ExpDigits\<rparr>) else None)"
  "sc_mode sc = ExpDigits \<Longrightarrow> step doc pos c sc = (if digit c then Some sc else endNumber doc pos c sc)"
  by (simp_all add: step_def)

lemma digit_not [simp]:
  "\<not> digit CHR '',''" "\<not> digit CHR ''}''" "\<not> digit CHR '']''" "\<not> digit CHR '' ''" "\<not> digit CHR ''.''"
  "\<not> digit CHR ''e''" "\<not> digit CHR ''E''" "\<not> digit CHR ''+''" "\<not> digit CHR ''-''"
  by (simp_all add: digit_def byte_def)

lemma digit_other:
  assumes "digit c"
  shows "\<not> isSpace c" "c \<noteq> CHR ''{''" "c \<noteq> CHR ''[''" "c \<noteq> CHR 0x22" "c \<noteq> CHR ''-''" "c \<noteq> CHR '']''" "c \<noteq> CHR ''+''"
  using assms by (auto simp: digit_def isSpace_def byte_def)

lemma scan_digits:
  "list_all digit ds \<Longrightarrow> sc_mode sc \<in> {Digits, DotDigits, ExpDigits} \<Longrightarrow>
   scanBytes doc pos (ds @ rest) sc = scanBytes doc (pos + length ds) rest sc"
proof (induction ds arbitrary: pos)
  case (Cons d ds)
  then have "step doc pos d sc = Some sc" by (auto simp: step_number)
  with Cons show ?case by simp
qed simp

lemma scan_end_number:
  assumes "delimited rest" and "sc_mode sc \<in> {Zero, Digits, DotDigits, ExpDigits}"
  shows "scanBytes doc pos rest sc = scanBytes doc pos rest (complete doc pos JNumber sc)"
proof -
  have mode: "sc_mode (complete doc pos JNumber sc) = EndValue"
    by (auto simp: complete_def split: list.split frame.split)
  obtain c cs where rest: "rest = c # cs" "c \<in> set '',}] ''" using assms(1) by (cases rest) auto
  have "step doc pos c sc = endNumber doc pos c sc"
    using assms(2) rest(2) by (auto simp: step_number)
  with mode show ?thesis by (simp add: rest(1) step_def endNumber_def)
qed

lemma digitsE: "digits s \<Longrightarrow> (\<And>c cs. s = c # cs \<Longrightarrow> digit c \<Longrightarrow> list_all digit cs \<Longrightarrow> P) \<Longrightarrow> P"
  by (cases s) (auto simp: digits_def)

lemma scan_int:
  assumes "isIntPart s" and "sc_mode sc = BeginValue \<or> sc_mode sc = Neg"
  shows "\<exists>m. m \<in> {Zero, Digits} \<and> scanBytes doc pos (s @ rest) sc =
    scanBytes doc (pos + length s) rest
      ((if sc_mode sc = Neg then sc else markStart pos sc)\<lparr>sc_mode := m\<rparr>)"
proof (cases "s = ''0''")
  case True
  with assms(2) show ?thesis
    by (intro exI [of _ Zero]) (auto simp: step_def beginValue_def isSpace_def byte_def Let_def)
next
  case False
  with assms(1) obtain c cs where s: "s = c # cs" "digit c" "list_all digit cs" "c \<noteq> CHR ''0''"
    by (auto simp: isIntPart_def elim: digitsE)
  have "step doc pos c sc = Some ((if sc_mode sc = Neg then sc else markStart pos sc)\<lparr>sc_mode := Digits\<rparr>)"
    using assms(2)
  proof
    assume "sc_mode sc = BeginValue"
    with s(2,4) digit_other [OF s(2)] show ?thesis by (simp add: step_def beginValue_def Let_def)
  qed (use s(2,4) in \<open>simp add: step_number\<close>)
  then show ?thesis
    using scan_digits [OF s(3), of "(if sc_mode sc = Neg then sc else markStart pos sc)\<lparr>sc_mode := Digits\<rparr>" doc "Suc pos" rest]
    by (intro exI [of _ Digits]) (simp add: s(1))
qed

lemma scan_fraction:
  assumes "isFraction s" and "sc_mode sc \<in> {Zero, Digits}"
  shows "\<exists>m. m \<in> {Zero, Digits, DotDigits} \<and> scanBytes doc pos (s @ rest) sc =
    scanBytes doc (pos + length s) rest (sc\<lparr>sc_mode := m\<rparr>)"
proof (cases s)
  case Nil
  then show ?thesis using assms(2) by (intro exI [of _ "sc_mode sc"]) (cases sc, auto)
next
  case (Cons dot ds)
  with assms(1) have "dot = CHR ''.''" "digits ds" by (auto simp: isFraction_def)
  then obtain c cs where s: "s = CHR ''.'' # c # cs" "digit c" "list_all digit cs" using Cons by (auto elim: digitsE)
  show ?thesis
    using assms(2) s scan_digits [OF s(3), of "sc\<lparr>sc_mode := DotDigits\<rparr>" doc "Suc (Suc pos)" rest]
    by (intro exI [of _ DotDigits]) (auto simp: step_number)
qed

lemma scan_exponent:
  assumes "isExponent s" and "sc_mode sc \<in> {Zero, Digits, DotDigits}"
  shows "\<exists>m. m \<in> {Zero, Digits, DotDigits, ExpDigits} \<and> scanBytes doc pos (s @ rest) sc =
    scanBytes doc (pos + length s) rest (sc\<lparr>sc_mode := m\<rparr>)"
proof (cases s)
  case Nil
  then show ?thesis using assms(2) by (intro exI [of _ "sc_mode sc"]) (cases sc, auto)
next
  case (Cons e cs)
  then have e: "step doc pos e sc = Some (sc\<lparr>sc_mode := Exp\<rparr>)"
    using assms by (auto simp: isExponent_def step_number)
  have tail: "scanBytes doc p (ds @ rest) (sc\<lparr>sc_mode := m\<rparr>) = scanBytes doc (p + length ds) rest (sc\<lparr>sc_mode := ExpDigits\<rparr>)"
    if ds: "digits ds" and m: "m = Exp \<or> m = ExpSign" for ds p m
  proof -
    obtain c cs where c: "ds = c # cs" "digit c" "list_all digit cs" using ds by (auto elim: digitsE)
    then have "step doc p c (sc\<lparr>sc_mode := m\<rparr>) = Some (sc\<lparr>sc_mode := ExpDigits\<rparr>)"
      using m digit_other [OF c(2)] by (auto simp: step_number)
    with scan_digits [OF c(3), of "sc\<lparr>sc_mode := ExpDigits\<rparr>" doc "Suc p" rest] show ?thesis by (simp add: c(1))
  qed
  from assms(1) Cons consider "digits cs" | g gs where "cs = g # gs" "g = CHR ''+'' \<or> g = CHR ''-''" "digits gs"
    by (auto simp: isExponent_def split: list.splits)
  then have "scanBytes doc pos (s @ rest) sc = scanBytes doc (pos + length s) rest (sc\<lparr>sc_mode := ExpDigits\<rparr>)"
  proof cases
    case 1
    then show ?thesis using tail [OF 1, of Exp "Suc pos"] Cons e by simp
  next
    case (2 g gs)
    then have "step doc (Suc pos) g (sc\<lparr>sc_mode := Exp\<rparr>) = Some (sc\<lparr>sc_mode := ExpSign\<rparr>)" by (auto simp: step_number)
    then show ?thesis using tail [OF 2(3), of ExpSign "Suc (Suc pos)"] Cons e 2(1) by simp
  qed
  then show ?thesis by blast
qed

lemma scan_number:
  assumes "plainDoc n (DNum sg ip fp ep)"
  shows "scansDoc doc n (DNum sg ip fp ep)"
  unfolding scansDoc_def
proof (intro allI impI, elim conjE)
  fix sc :: scan and pos rest
  assume sc: "sc_mode sc = BeginValue" and "delimited rest"
  let ?sc = "markStart pos sc"
  have num: "sg = [] \<or> sg = ''-''" "isIntPart ip" "isFraction fp" "isExponent ep" using assms by simp_all
  obtain m1 where m1: "m1 \<in> {Zero, Digits}" "scanBytes doc pos (sg @ ip @ fp @ ep @ rest) sc =
      scanBytes doc (pos + length sg + length ip) (fp @ ep @ rest) (?sc\<lparr>sc_mode := m1\<rparr>)"
  proof (cases "sg = []")
    case True
    with scan_int [OF num(2), of sc doc pos "fp @ ep @ rest"] sc that show thesis by auto
  next
    case False
    then have "step doc pos CHR ''-'' sc = Some (?sc\<lparr>sc_mode := Neg\<rparr>)" "sg = ''-''"
      using sc num(1) by (auto simp: step_def isSpace_def beginValue_def byte_def Let_def)
    with scan_int [OF num(2), of "?sc\<lparr>sc_mode := Neg\<rparr>" doc "Suc pos" "fp @ ep @ rest"] that show thesis by auto
  qed
  obtain m2 where m2: "m2 \<in> {Zero, Digits, DotDigits}"
      "scanBytes doc (pos + length sg + length ip) (fp @ ep @ rest) (?sc\<lparr>sc_mode := m1\<rparr>) =
       scanBytes doc (pos + length sg + length ip + length fp) (ep @ rest) (?sc\<lparr>sc_mode := m2\<rparr>)"
    using scan_fraction [OF num(3), of "?sc\<lparr>sc_mode := m1\<rparr>" doc "pos + length sg + length ip" "ep @ rest"] m1(1) by auto
  obtain m3 where m3: "m3 \<in> {Zero, Digits, DotDigits, ExpDigits}"
      "scanBytes doc (pos + length sg + length ip + length fp) (ep @ rest) (?sc\<lparr>sc_mode := m2\<rparr>) =
       scanBytes doc (pos + length sg + length ip + length fp + length ep) rest (?sc\<lparr>sc_mode := m3\<rparr>)"
    using scan_exponent [OF num(4), of "?sc\<lparr>sc_mode := m2\<rparr>" doc "pos + length sg + length ip + length fp" rest] m2(1)
    by auto
  show "scanBytes doc pos (showDoc (DNum sg ip fp ep) @ rest) sc =
      scanBytes doc (pos + length (showDoc (DNum sg ip fp ep))) rest
        (complete doc (pos + length (showDoc (DNum sg ip fp ep))) (toJson (DNum sg ip fp ep)) ?sc)"
    using m1(2) m2(2) m3 scan_end_number [OF \<open>delimited rest\<close>, of "?sc\<lparr>sc_mode := m3\<rparr>" doc
        "pos + length sg + length ip + length fp + length ep"] by (simp add: add.assoc)
qed

text \<open>Arrays. Their first element is scanned in a mode of its own.\<close>

lemma showDoc_begins:
  assumes "plainDoc n d"
  obtains c cs where "showDoc d = c # cs" "c \<noteq> CHR '']''" "\<not> isSpace c"
proof (cases d)
  case (DNum sg ip fp ep)
  then have "sg = [] \<or> sg = ''-''" "isIntPart ip" using assms by simp_all
  then obtain c cs where "sg @ ip = c # cs" "digit c \<or> c = CHR ''-''"
    by (auto simp: isIntPart_def digit_def byte_def elim: digitsE)
  then have "showDoc d = c # cs @ fp @ ep" "c \<noteq> CHR '']''" "\<not> isSpace c"
    using DNum append_assoc [of sg ip "fp @ ep"] by (auto dest: digit_other simp: isSpace_def byte_def)
  then show thesis by (rule that)
next
  case (DBool b)
  then show thesis using that by (cases b) (simp_all add: isSpace_def byte_def)
qed (use that in \<open>simp_all add: showString_def isSpace_def byte_def\<close>)

lemma scan_first:
  assumes "c \<noteq> CHR '']''" and "\<not> isSpace c" and "sc_mode sc = BeginValueOrEmpty"
  shows "scanBytes doc pos (c # cs) sc = scanBytes doc pos (c # cs) (sc\<lparr>sc_mode := BeginValue\<rparr>)"
  using assms by (simp add: step_def beginValue_def push_def Let_def)

lemma scan_array:
  assumes "ds \<noteq> [] \<Longrightarrow> scansElems doc n ds" and "plainElems n ds"
  shows "scansDoc doc (Suc n) (DArr ds)"
  unfolding scansDoc_def
proof (intro allI impI, elim conjE)
  fix sc :: scan and pos rest
  assume sc: "sc_mode sc = BeginValue" "length (sc_stack sc) + Suc n \<le> maxNestingDepth"
    and here: "at doc pos (showDoc (DArr ds))" and "delimited rest"
  let ?m = "markStart pos sc"
  let ?sc = "?m\<lparr>sc_mode := BeginValueOrEmpty, sc_stack := ArrayValue # sc_stack ?m\<rparr>"
  have len: "length (sc_stack ?m) = length (sc_stack sc)"
    by (auto simp: markStart_def split: list.split frame.split)
  have popped: "?sc\<lparr>sc_stack := sc_stack ?m\<rparr> = ?m\<lparr>sc_mode := BeginValueOrEmpty\<rparr>"
    "?sc\<lparr>sc_mode := BeginValue, sc_stack := sc_stack ?m\<rparr> = ?m\<lparr>sc_mode := BeginValue\<rparr>"
    by (cases ?m, simp)+
  have "step doc pos CHR ''['' sc = Some ?sc"
    using sc len by (simp add: step_def isSpace_def beginValue_def byte_def push_def Let_def)
  then have start: "scanBytes doc pos (showDoc (DArr ds) @ rest) sc =
      scanBytes doc (Suc pos) (showElems ds @ '']'' @ rest) ?sc" by simp
  show "scanBytes doc pos (showDoc (DArr ds) @ rest) sc =
      scanBytes doc (pos + length (showDoc (DArr ds))) rest
        (complete doc (pos + length (showDoc (DArr ds))) (toJson (DArr ds)) ?m)"
  proof (cases ds)
    case Nil
    then show ?thesis unfolding start using popped by (simp add: step_def isSpace_def byte_def pop_def)
  next
    case (Cons d ds')
    obtain c cs where c: "showDoc d = c # cs" "c \<noteq> CHR '']''" "\<not> isSpace c"
      using assms(2) Cons by (auto elim: showDoc_begins)
    have "scanBytes doc (Suc pos) (showElems ds @ '']'' @ rest) ?sc =
        scanBytes doc (Suc pos) (showElems ds @ '']'' @ rest) (?sc\<lparr>sc_mode := BeginValue\<rparr>)"
      using scan_first [OF c(2,3), of ?sc doc "Suc pos"] by (simp add: Cons c(1))
    moreover have "at doc (Suc pos) (showElems ds)"
      using here by (simp add: at_append [of doc "Suc pos"] at_Cons [of doc pos _ "_ @ _"])
    ultimately show ?thesis
      using assms(1) [unfolded scansElems_def, rule_format, of "?sc\<lparr>sc_mode := BeginValue\<rparr>" "sc_stack ?m" "Suc pos" rest]
        sc len popped Cons unfolding start by simp
  qed
qed

lemma scan_elems_Cons:
  assumes "scansDoc doc n d" and more: "ds \<noteq> [] \<Longrightarrow> scansElems doc n ds"
  shows "scansElems doc n (d # ds)"
  unfolding scansElems_def
proof (intro allI impI, elim conjE)
  fix sc :: scan and pos rest fs
  assume sc: "sc_mode sc = BeginValue" "sc_stack sc = ArrayValue # fs" "length (sc_stack sc) + n \<le> maxNestingDepth"
    and here: "at doc pos (showElems (d # ds))"
  let ?tail = "if ds = [] then [] else '','' @ showElems ds"
  let ?pos = "pos + length (showDoc d)"
  let ?sc = "sc\<lparr>sc_mode := EndValue\<rparr>"
  have at: "at doc pos (showDoc d)" "at doc ?pos ?tail"
    using here at_append [of doc pos "showDoc d" ?tail] by simp_all
  have "complete doc ?pos (toJson d) (markStart pos sc) = ?sc"
    using sc(2) by (simp add: complete_def markStart_def)
  moreover have "delimited (?tail @ '']'' @ rest)" by (cases "ds = []") simp_all
  ultimately have first: "scanBytes doc pos (showElems (d # ds) @ '']'' @ rest) sc =
      scanBytes doc ?pos (?tail @ '']'' @ rest) ?sc"
    using assms(1) [unfolded scansDoc_def, rule_format, of sc pos "?tail @ '']'' @ rest"] sc at(1) by simp
  show "scanBytes doc pos (showElems (d # ds) @ '']'' @ rest) sc =
      scanBytes doc (pos + length (showElems (d # ds)) + 1) rest
        (complete doc (pos + length (showElems (d # ds)) + 1) JArray (sc\<lparr>sc_stack := fs\<rparr>))"
  proof (cases "ds = []")
    case True
    then show ?thesis
      unfolding first using sc(2) by (simp add: step_def endValue_def isSpace_def byte_def pop_def)
  next
    case False
    have "step doc ?pos CHR '','' ?sc = Some sc"
      using sc(1,2) by (cases sc) (simp add: step_def endValue_def isSpace_def byte_def)
    moreover have "at doc (?pos + 1) (showElems ds)"
      using at(2) False by (simp add: at_Cons [of doc _ _ "showElems ds"])
    ultimately show ?thesis
      unfolding first
      using more [OF False, unfolded scansElems_def, rule_format, of sc fs "?pos + 1" rest] sc False by (simp add: add.assoc)
  qed
qed

lemma scan_doc: "plainDoc n d \<Longrightarrow> scansDoc doc n d"
  and scan_elems: "plainElems n ds \<Longrightarrow> ds \<noteq> [] \<Longrightarrow> scansElems doc n ds"
  and scan_members: "plainMembers n ms \<Longrightarrow> ms \<noteq> [] \<Longrightarrow> scansMembers doc n ms"
proof (induction n d and n ds and n ms rule: plainDoc_plainElems_plainMembers.induct)
  case (1 n)
  then show ?case using scan_literal [of _ DNull] unfolding scansDoc_def by blast
next
  case (2 n b)
  then show ?case using scan_literal [of _ "DBool b"] unfolding scansDoc_def by blast
next
  case (3 n s)
  then show ?case using scan_string_value unfolding scansDoc_def by simp
next
  case (4 n sg ip fp ep)
  then show ?case by (rule scan_number)
next
  case (5 n ds)
  then show ?case using scan_array [of ds doc "n - 1"] by simp
next
  case (6 n ms)
  then show ?case using scan_object [of ms doc "n - 1"] by simp
next
  case (8 n d ds)
  then show ?case by (intro scan_elems_Cons) simp_all
next
  case (10 n k d ms)
  then show ?case by (intro scan_members_Cons) simp_all
qed simp_all

text \<open>The round trip: a printed document is valid JSON and its tree is the document's.\<close>

lemma parseJson_showDoc: "plainDoc maxNestingDepth d \<Longrightarrow> parseJson (showDoc d) = Some (toJson d)"
proof -
  assume "plainDoc maxNestingDepth d"
  from scan_doc [OF this, unfolded scansDoc_def, rule_format, of scanStart "showDoc d" 0 "'' ''"]
  have "scanBytes (showDoc d) 0 (showDoc d @ '' '') scanStart =
      Some (\<lparr>sc_mode = EndTop, sc_stack = [], sc_result = Some (toJson d)\<rparr>)"
    by (simp add: scanStart_def at_all markStart_def complete_def step_def endValue_def isSpace_def byte_def)
  then show ?thesis by (simp add: parseJson_def)
qed

end
