(* ===== verification/Go_Url.thy ===== *)
theory Go_Url
  imports Go_Json
begin

text \<open>
  Go's \<open>net/url\<close>: parsing and printing of URLs, as far as the redaction of a queue URL goes through
  them. A host with an IP literal in brackets goes through \<open>net/netip\<close>; its parsing is an argument
  (\<open>lit\<close>: the host after unescaping, or an error), and no lemma restricts it.
\<close>

section \<open>Escaping\<close>

datatype encoding = EncPath | EncHost | EncUserPassword | EncFragment

definition alnumByte :: "char \<Rightarrow> bool" where
  "alnumByte c \<longleftrightarrow>
     97 \<le> byte c \<and> byte c \<le> 122 \<or> 65 \<le> byte c \<and> byte c \<le> 90 \<or> 48 \<le> byte c \<and> byte c \<le> 57"

definition shouldEscape :: "char \<Rightarrow> encoding \<Rightarrow> bool" where
  "shouldEscape c mode =
     (if alnumByte c then False
      else if mode = EncHost \<and> c \<in> set (CHR 0x22 # CHR 0x27 # ''!$&()*+,;=:[]<>'') then False
      else if c \<in> set ''-_.~'' then False
      else if c \<in> set ''$&+,/:;=?@'' then
        (case mode of
           EncPath \<Rightarrow> c = CHR ''?''
         | EncUserPassword \<Rightarrow> c \<in> set ''@/?:''
         | EncFragment \<Rightarrow> False
         | EncHost \<Rightarrow> True)
      else if mode = EncFragment \<and> c \<in> set ''!()*'' then False
      else True)"

fun unescape :: "encoding \<Rightarrow> string \<Rightarrow> string option" where
  "unescape mode [] = Some []"
| "unescape mode (c # cs) =
     (if c = CHR ''%'' then
        (case cs of
           h1 # h2 # rest \<Rightarrow>
             (case (hexValue h1, hexValue h2) of
                (Some a, Some b) \<Rightarrow>
                  if mode = EncHost \<and> a < 8 \<and> [h1, h2] \<noteq> ''25'' then None
                  else map_option ((#) (char_of (a * 16 + b))) (unescape mode rest)
              | _ \<Rightarrow> None)
         | _ \<Rightarrow> None)
      else if mode = EncHost \<and> byte c < 128 \<and> shouldEscape c mode then None
      else map_option ((#) c) (unescape mode cs))"

definition upperHex :: "nat \<Rightarrow> char" where
  "upperHex n = (if n < 10 then char_of (48 + n) else char_of (55 + n))"

definition escape :: "encoding \<Rightarrow> string \<Rightarrow> string" where
  "escape mode s =
     concat (map (\<lambda>c. if shouldEscape c mode
                      then [CHR ''%'', upperHex (byte c div 16), upperHex (byte c mod 16)] else [c]) s)"

definition validEncoded :: "encoding \<Rightarrow> string \<Rightarrow> bool" where
  "validEncoded mode s \<longleftrightarrow>
     list_all (\<lambda>c. c \<in> set (CHR 0x27 # ''!$&()*+,;=:@[]%'') \<or> \<not> shouldEscape c mode) s"

section \<open>Cutting\<close>

text \<open>\<open>strings.Cut\<close> at a byte: what stands before its first occurrence, and what stands after it.\<close>

definition cut :: "char \<Rightarrow> string \<Rightarrow> string \<times> string" where
  "cut c s = (takeWhile (\<lambda>x. x \<noteq> c) s, drop 1 (dropWhile (\<lambda>x. x \<noteq> c) s))"

definition containsCTLByte :: "string \<Rightarrow> bool" where
  "containsCTLByte s = list_ex (\<lambda>c. byte c < 32 \<or> byte c = 127) s"

definition schemeChar :: "char \<Rightarrow> bool" where
  "schemeChar c \<longleftrightarrow> alnumByte c \<or> c \<in> set ''+-.''"

definition letter :: "char \<Rightarrow> bool" where
  "letter c \<longleftrightarrow> alnumByte c \<and> \<not> (48 \<le> byte c \<and> byte c \<le> 57)"

text \<open>\<open>getScheme\<close>: the scheme and the rest after the colon; \<open>None\<close> is an error.\<close>

definition getScheme :: "string \<Rightarrow> (string \<times> string) option" where
  "getScheme raw =
     (case raw of
        [] \<Rightarrow> Some ([], raw)
      | c # _ \<Rightarrow>
          if c = CHR '':'' then None
          else if \<not> letter c then Some ([], raw)
          else (case dropWhile schemeChar raw of
              x # rest \<Rightarrow> if x = CHR '':'' then Some (takeWhile schemeChar raw, rest) else Some ([], raw)
            | [] \<Rightarrow> Some ([], raw)))"

section \<open>Parsing\<close>

record URL =
  url_Scheme :: string
  url_Opaque :: string
  url_User :: "(string \<times> string option) option"   \<comment> \<open>user name and password\<close>
  url_Host :: string
  url_Path :: string
  url_RawPath :: string
  url_OmitHost :: bool
  url_ForceQuery :: bool
  url_RawQuery :: string
  url_Fragment :: string
  url_RawFragment :: string

definition zeroURL :: URL where
  "zeroURL =
     \<lparr>url_Scheme = [], url_Opaque = [], url_User = None, url_Host = [], url_Path = [], url_RawPath = [],
      url_OmitHost = False, url_ForceQuery = False, url_RawQuery = [], url_Fragment = [], url_RawFragment = []\<rparr>"

definition validOptionalPort :: "string \<Rightarrow> bool" where
  "validOptionalPort port =
     (case port of [] \<Rightarrow> True | c # cs \<Rightarrow> c = CHR '':'' \<and> list_all (\<lambda>x. 48 \<le> byte x \<and> byte x \<le> 57) cs)"

text \<open>\<open>parseHost\<close>: the port starts at the first colon, except for the PostgreSQL schemes, whose hosts are
  lists with several ports.\<close>

definition parseHost :: "(string \<Rightarrow> string option) \<Rightarrow> string \<Rightarrow> string \<Rightarrow> string option" where
  "parseHost lit scheme host =
     (if CHR ''['' \<in> set host then lit host
      else (let port = (if scheme = ''postgres'' \<or> scheme = ''postgresql''
                        then (if CHR '':'' \<in> set host
                              then CHR '':'' # rev (takeWhile (\<lambda>x. x \<noteq> CHR '':'') (rev host)) else [])
                        else dropWhile (\<lambda>x. x \<noteq> CHR '':'') host) in
        if \<not> validOptionalPort port then None
        else unescape EncHost host))"

definition validUserinfo :: "string \<Rightarrow> bool" where
  "validUserinfo s = list_all (\<lambda>c. alnumByte c \<or> c \<in> set (CHR 0x27 # ''-._:~!$&()*+,;=%@'')) s"

text \<open>\<open>parseAuthority\<close>: the user information, if there is any, and the host.\<close>

definition parseUserinfo :: "string \<Rightarrow> (string \<times> string option) option" where
  "parseUserinfo userinfo =
     (if \<not> validUserinfo userinfo then None
      else if CHR '':'' \<notin> set userinfo then
        map_option (\<lambda>n. (n, None)) (unescape EncUserPassword userinfo)
      else (case (unescape EncUserPassword (fst (cut (CHR '':'') userinfo)),
                  unescape EncUserPassword (snd (cut (CHR '':'') userinfo))) of
          (Some n, Some p) \<Rightarrow> Some (n, Some p)
        | _ \<Rightarrow> None))"

definition parseAuthority ::
    "(string \<Rightarrow> string option) \<Rightarrow> string \<Rightarrow> string \<Rightarrow> ((string \<times> string option) option \<times> string) option" where
  "parseAuthority lit scheme authority =
     (if CHR ''@'' \<notin> set authority then map_option (Pair None) (parseHost lit scheme authority)
      else (let host = rev (takeWhile (\<lambda>x. x \<noteq> CHR ''@'') (rev authority));
                userinfo = take (length authority - length host - 1) authority in
        case parseHost lit scheme host of
          None \<Rightarrow> None
        | Some h \<Rightarrow>
            (case parseUserinfo userinfo of None \<Rightarrow> None | Some ui \<Rightarrow> Some (Some ui, h))))"

definition setPath :: "string \<Rightarrow> URL \<Rightarrow> URL option" where
  "setPath p u =
     (case unescape EncPath p of
        None \<Rightarrow> None
      | Some path \<Rightarrow> Some (u\<lparr>url_Path := path, url_RawPath := (if p = escape EncPath path then [] else p)\<rparr>))"

definition setFragment :: "string \<Rightarrow> URL \<Rightarrow> URL option" where
  "setFragment f u =
     (case unescape EncFragment f of
        None \<Rightarrow> None
      | Some frag \<Rightarrow>
          Some (u\<lparr>url_Fragment := frag, url_RawFragment := (if f = escape EncFragment frag then [] else f)\<rparr>))"

text \<open>After the scheme and the query are split off: opaque, authority and path.\<close>

definition parseRest :: "(string \<Rightarrow> string option) \<Rightarrow> string \<Rightarrow> URL \<Rightarrow> URL option" where
  "parseRest lit rest u =
     (if take 1 rest \<noteq> ''/'' \<and> url_Scheme u \<noteq> [] then Some (u\<lparr>url_Opaque := rest\<rparr>)
      else if take 1 rest \<noteq> ''/'' \<and> CHR '':'' \<in> set (fst (cut (CHR ''/'') rest)) then None
      else if (url_Scheme u \<noteq> [] \<or> take 3 rest \<noteq> ''///'') \<and> take 2 rest = ''//'' then
        (let authority = takeWhile (\<lambda>x. x \<noteq> CHR ''/'') (drop 2 rest);
             path = dropWhile (\<lambda>x. x \<noteq> CHR ''/'') (drop 2 rest) in
         case parseAuthority lit (url_Scheme u) authority of
           None \<Rightarrow> None
         | Some (user, host) \<Rightarrow> setPath path (u\<lparr>url_User := user, url_Host := host\<rparr>))
      else if url_Scheme u \<noteq> [] \<and> take 1 rest = ''/'' then setPath rest (u\<lparr>url_OmitHost := True\<rparr>)
      else setPath rest u)"

text \<open>The query of the text after the scheme: whether it is a lone question mark at the end, and the
  query itself.\<close>

definition splitQuery :: "string \<Rightarrow> string \<times> bool \<times> string" where
  "splitQuery rest =
     (let pre = fst (cut (CHR ''?'') rest); query = snd (cut (CHR ''?'') rest) in
      if CHR ''?'' \<in> set rest \<and> query = [] then (pre, True, []) else (pre, False, query))"

definition parseNoFragment :: "(string \<Rightarrow> string option) \<Rightarrow> string \<Rightarrow> URL option" where
  "parseNoFragment lit raw =
     (if containsCTLByte raw then None
      else if raw = ''*'' then Some (zeroURL\<lparr>url_Path := ''*''\<rparr>)
      else (case getScheme raw of
          None \<Rightarrow> None
        | Some (scheme, rest) \<Rightarrow>
            (case splitQuery rest of
               (before, force, query) \<Rightarrow>
                 parseRest lit before (zeroURL\<lparr>url_Scheme := map (\<lambda>c. char_of (lowerByte (byte c))) scheme,
                   url_ForceQuery := force, url_RawQuery := query\<rparr>))))"

definition url_Parse :: "(string \<Rightarrow> string option) \<Rightarrow> string \<Rightarrow> URL option" where
  "url_Parse lit raw =
     (case cut (CHR ''#'') raw of
        (u, frag) \<Rightarrow>
          (case parseNoFragment lit u of
             None \<Rightarrow> None
           | Some url \<Rightarrow> if frag = [] then Some url else setFragment frag url))"

section \<open>Printing\<close>

definition EscapedPath :: "URL \<Rightarrow> string" where
  "EscapedPath u =
     (if url_RawPath u \<noteq> [] \<and> validEncoded EncPath (url_RawPath u)
         \<and> unescape EncPath (url_RawPath u) = Some (url_Path u) then url_RawPath u
      else if url_Path u = ''*'' then ''*''
      else escape EncPath (url_Path u))"

definition EscapedFragment :: "URL \<Rightarrow> string" where
  "EscapedFragment u =
     (if url_RawFragment u \<noteq> [] \<and> validEncoded EncFragment (url_RawFragment u)
         \<and> unescape EncFragment (url_RawFragment u) = Some (url_Fragment u) then url_RawFragment u
      else escape EncFragment (url_Fragment u))"

definition userinfoString :: "string \<times> string option \<Rightarrow> string" where
  "userinfoString ui =
     (case snd ui of
        None \<Rightarrow> escape EncUserPassword (fst ui)
      | Some p \<Rightarrow> escape EncUserPassword (fst ui) @ '':'' @ escape EncUserPassword p)"

definition url_String :: "URL \<Rightarrow> string" where
  "url_String u =
     (let scheme = (if url_Scheme u = [] then [] else url_Scheme u @ '':'');
          hierarchical =
            (let host =
               (if url_Scheme u = [] \<and> url_Host u = [] \<and> url_User u = None then []
                else if url_OmitHost u \<and> url_Host u = [] \<and> url_User u = None then []
                else (if url_Host u \<noteq> [] \<or> url_Path u \<noteq> [] \<or> url_User u \<noteq> None then ''//'' else [])
                     @ (case url_User u of None \<Rightarrow> [] | Some ui \<Rightarrow> userinfoString ui @ ''@'')
                     @ (if url_Host u \<noteq> [] then escape EncHost (url_Host u) else []));
                 path = EscapedPath u;
                 slash = (if path \<noteq> [] \<and> hd path \<noteq> CHR ''/'' \<and> url_Host u \<noteq> [] then ''/'' else []);
                 dot = (if scheme @ host @ slash = [] \<and> CHR '':'' \<in> set (fst (cut (CHR ''/'') path))
                        then ''./'' else [])
             in host @ slash @ dot @ path) in
      scheme @ (if url_Opaque u \<noteq> [] then url_Opaque u else hierarchical)
      @ (if url_ForceQuery u \<or> url_RawQuery u \<noteq> [] then ''?'' @ url_RawQuery u else [])
      @ (if url_Fragment u \<noteq> [] then ''#'' @ EscapedFragment u else []))"

section \<open>Lemmas\<close>

lemma cut_absent: "c \<notin> set s \<Longrightarrow> cut c s = (s, [])"
  by (induction s) (auto simp: cut_def)

lemma cut_append: "c \<notin> set s \<Longrightarrow> cut c (s @ t) = (s @ fst (cut c t), snd (cut c t))"
  by (induction s) (auto simp: cut_def)

lemma cut_here [simp]: "cut c (c # t) = ([], t)"
  by (simp add: cut_def)

lemma containsCTLByte_append [simp]: "containsCTLByte (s @ t) \<longleftrightarrow> containsCTLByte s \<or> containsCTLByte t"
  by (simp add: containsCTLByte_def)

text \<open>The query and the user information do not influence the rest of the result.\<close>


lemma parseRest_query:
  "parseRest lit r (u\<lparr>url_RawQuery := q\<rparr>) = map_option (\<lambda>v. v\<lparr>url_RawQuery := q\<rparr>) (parseRest lit r u)"
  by (simp add: parseRest_def setPath_def Let_def split: option.split prod.split)

lemma getScheme_stop:
  assumes "\<not> schemeChar x" and "x \<noteq> CHR '':''"
  shows "getScheme (s @ x # t) = map_option (\<lambda>(sc, r). (sc, r @ x # t)) (getScheme s)"
proof (cases s)
  case Nil
  with assms show ?thesis by (auto simp: getScheme_def letter_def schemeChar_def)
next
  case (Cons c cs)
  show ?thesis
  proof (cases "\<forall>y \<in> set s. schemeChar y")
    case True
    then have "dropWhile schemeChar (s @ x # t) = x # t" "dropWhile schemeChar s = []"
      using assms(1) by (simp_all add: dropWhile_append)
    with Cons assms show ?thesis by (simp add: getScheme_def)
  next
    case False
    then obtain y ys where d: "dropWhile schemeChar s = y # ys" by (cases "dropWhile schemeChar s") auto
    have "takeWhile schemeChar (s @ x # t) = takeWhile schemeChar s"
      using False by (metis takeWhile_append1)
    moreover have "dropWhile schemeChar (s @ x # t) = y # ys @ x # t"
      using False d by (metis append_Cons dropWhile_append1)
    ultimately show ?thesis using Cons d by (simp add: getScheme_def)
  qed
qed

lemma getScheme_suffix: "getScheme s = Some (sc, r) \<Longrightarrow> set r \<subseteq> set s"
  by (auto simp: getScheme_def split: list.splits if_splits dest: set_dropWhileD)
    (metis list.set_intros(2) set_dropWhileD)

lemma splitQuery_query: "CHR ''?'' \<notin> set r \<Longrightarrow> q \<noteq> [] \<Longrightarrow> splitQuery (r @ CHR ''?'' # q) = (r, False, q)"
  by (simp add: splitQuery_def cut_append)

lemma splitQuery_none: "CHR ''?'' \<notin> set r \<Longrightarrow> splitQuery r = (r, False, [])"
  by (simp add: splitQuery_def cut_absent)

text \<open>A URL with a query parses like the one without it.\<close>

lemma parse_query:
  assumes "CHR ''?'' \<notin> set base" and "q \<noteq> []" and "\<not> containsCTLByte q" and "base \<noteq> ''*''"
  shows "parseNoFragment lit (base @ CHR ''?'' # q) =
    map_option (\<lambda>v. v\<lparr>url_RawQuery := q\<rparr>) (parseNoFragment lit base)"
proof -
  have q: "\<not> schemeChar CHR ''?''" by (simp add: schemeChar_def alnumByte_def byte_def)
  have "\<not> containsCTLByte (CHR ''?'' # q)" using assms(3) by (simp add: containsCTLByte_def byte_def)
  moreover have "base @ CHR ''?'' # q \<noteq> ''*''" by (cases base) auto
  moreover have "CHR ''?'' \<notin> set r" if "getScheme base = Some (sc, r)" for sc r
    using getScheme_suffix [OF that] assms(1) by blast
  ultimately show ?thesis
    using assms getScheme_stop [OF q, of base q]
    by (auto simp: parseNoFragment_def splitQuery_query splitQuery_none
        parseRest_query [where u = "zeroURL\<lparr>url_Scheme := sc, url_ForceQuery := False\<rparr>" for sc, simplified]
        option.map_comp o_def split: option.split)
qed

text \<open>A URL with user information parses like the one without it.\<close>

lemma validUserinfo_chars:
  assumes "validUserinfo user"
  shows "\<not> containsCTLByte user" "CHR ''/'' \<notin> set user" "CHR ''?'' \<notin> set user" "CHR ''#'' \<notin> set user"
proof -
  have ok: "alnumByte c \<or> c \<in> set (CHR 0x27 # ''-._:~!$&()*+,;=%@'')" if "c \<in> set user" for c
    using assms that unfolding validUserinfo_def list_all_iff by blast
  have "\<not> (byte c < 32 \<or> byte c = 127)" if "c \<in> set user" for c
    using ok [OF that] by (auto simp: alnumByte_def byte_def)
  then show "\<not> containsCTLByte user" by (auto simp: containsCTLByte_def list_ex_iff)
  show "CHR ''/'' \<notin> set user" "CHR ''?'' \<notin> set user" "CHR ''#'' \<notin> set user"
    using ok [of "CHR ''/''"] ok [of "CHR ''?''"] ok [of "CHR ''#''"] by (auto simp: alnumByte_def byte_def)
qed

lemma getScheme_given:
  assumes "sch \<noteq> []" and "letter (hd sch)" and "list_all schemeChar sch"
  shows "getScheme (sch @ CHR '':'' # rest) = Some (sch, rest)"
proof -
  have colon: "\<not> schemeChar CHR '':''" by (simp add: schemeChar_def alnumByte_def byte_def)
  have "dropWhile schemeChar (sch @ CHR '':'' # rest) = CHR '':'' # rest"
    "takeWhile schemeChar (sch @ CHR '':'' # rest) = sch"
    using assms(3) colon by (simp_all add: dropWhile_append takeWhile_append list_all_iff)
  moreover have "hd sch \<noteq> CHR '':''" using assms(2) by (auto simp: letter_def alnumByte_def byte_def)
  ultimately show ?thesis using assms(1,2) by (cases sch) (auto simp: getScheme_def)
qed

lemma parseAuthority_user:
  assumes "parseUserinfo user = Some ui" and "CHR ''@'' \<notin> set a"
  shows "parseAuthority lit scheme (user @ CHR ''@'' # a) = map_option (Pair (Some ui)) (parseHost lit scheme a)"
    and "parseAuthority lit scheme a = map_option (Pair None) (parseHost lit scheme a)"
proof -
  have "takeWhile (\<lambda>x. x \<noteq> CHR ''@'') (rev (user @ CHR ''@'' # a)) = rev a"
    using assms(2) by (simp add: takeWhile_append)
  then show "parseAuthority lit scheme (user @ CHR ''@'' # a) = map_option (Pair (Some ui)) (parseHost lit scheme a)"
    using assms(1) by (simp add: parseAuthority_def Let_def split: option.split)
  show "parseAuthority lit scheme a = map_option (Pair None) (parseHost lit scheme a)"
    using assms(2) by (simp add: parseAuthority_def)
qed

lemma parseUserinfo_valid: "parseUserinfo user = Some ui \<Longrightarrow> validUserinfo user"
  by (simp add: parseUserinfo_def split: if_splits)

lemma parseRest_user:
  assumes "parseUserinfo user = Some ui" and "CHR ''@'' \<notin> set (takeWhile (\<lambda>x. x \<noteq> CHR ''/'') h)" and "url_Scheme u \<noteq> []"
  shows "parseRest lit (''//'' @ user @ CHR ''@'' # h) u =
    map_option (\<lambda>v. v\<lparr>url_User := Some ui\<rparr>) (parseRest lit (''//'' @ h) u)"
proof -
  have "CHR ''/'' \<notin> set user" using validUserinfo_chars parseUserinfo_valid [OF assms(1)] by blast
  then have split: "takeWhile (\<lambda>x. x \<noteq> CHR ''/'') (user @ CHR ''@'' # h) =
        user @ CHR ''@'' # takeWhile (\<lambda>x. x \<noteq> CHR ''/'') h"
      "dropWhile (\<lambda>x. x \<noteq> CHR ''/'') (user @ CHR ''@'' # h) = dropWhile (\<lambda>x. x \<noteq> CHR ''/'') h"
    by (auto simp: takeWhile_append dropWhile_append)
  show ?thesis
    using parseAuthority_user [OF assms(1,2)] assms(3) split
    by (simp add: parseRest_def setPath_def Let_def option.map_comp o_def split: option.split)
qed

lemma parse_user:
  assumes "sch \<noteq> []" and "letter (hd sch)" and "list_all schemeChar sch" and "parseUserinfo user = Some ui"
    and "CHR ''@'' \<notin> set (takeWhile (\<lambda>x. x \<noteq> CHR ''/'') (fst (cut (CHR ''?'') hp)))"
  shows "parseNoFragment lit (sch @ ''://'' @ user @ CHR ''@'' # hp) =
    map_option (\<lambda>v. v\<lparr>url_User := Some ui\<rparr>) (parseNoFragment lit (sch @ ''://'' @ hp))"
proof -
  note chars = validUserinfo_chars [of user]
  have v: "validUserinfo user" by (rule parseUserinfo_valid [OF assms(4)])
  have ctl: "containsCTLByte (sch @ ''://'' @ user @ CHR ''@'' # hp) \<longleftrightarrow> containsCTLByte (sch @ ''://'' @ hp)"
    using chars(1) [OF v] by (simp add: containsCTLByte_def byte_def)
  have cutq: "cut (CHR ''?'') (''//'' @ user @ CHR ''@'' # hp) =
      (''//'' @ user @ CHR ''@'' # fst (cut (CHR ''?'') hp), snd (cut (CHR ''?'') hp))"
    using cut_append [of "CHR ''?''" "''//'' @ user @ ''@''" hp] chars(3) [OF v] by simp
  have cutq': "cut (CHR ''?'') (''//'' @ hp) = (''//'' @ fst (cut (CHR ''?'') hp), snd (cut (CHR ''?'') hp))"
    using cut_append [of "CHR ''?''" "''//''" hp] by simp
  have gs: "getScheme (sch @ ''://'' @ user @ CHR ''@'' # hp) = Some (sch, ''//'' @ user @ CHR ''@'' # hp)"
    "getScheme (sch @ ''://'' @ hp) = Some (sch, ''//'' @ hp)"
    using getScheme_given [OF assms(1-3)] by simp_all
  let ?h = "fst (cut (CHR ''?'') hp)"
  define q where "q = snd (cut (CHR ''?'') hp)"
  define force where "force = (CHR ''?'' \<in> set hp \<and> q = [])"
  have sq: "splitQuery (''//'' @ user @ CHR ''@'' # hp) = (''//'' @ user @ CHR ''@'' # ?h, force, q)"
      "splitQuery (''//'' @ hp) = (''//'' @ ?h, force, q)"
    unfolding splitQuery_def cutq cutq' Let_def fst_conv snd_conv q_def [symmetric]
    using chars(3) [OF v] by (auto simp: force_def)
  have star: "sch @ ''://'' @ user @ CHR ''@'' # hp \<noteq> ''*''" "sch @ ''://'' @ hp \<noteq> ''*''"
    using assms(1) by (cases sch; simp)+
  let ?u = "zeroURL\<lparr>url_Scheme := map (\<lambda>c. char_of (lowerByte (byte c))) sch, url_ForceQuery := force, url_RawQuery := q\<rparr>"
  have "parseRest lit (''//'' @ user @ CHR ''@'' # ?h) ?u =
      map_option (\<lambda>v. v\<lparr>url_User := Some ui\<rparr>) (parseRest lit (''//'' @ ?h) ?u)"
    by (rule parseRest_user [OF assms(4,5)]) (use assms(1) in simp)
  then show ?thesis
    unfolding parseNoFragment_def ctl gs option.case prod.case sq using star by (simp split: if_split)
qed

end
