(* ===== verification/Azure_Queue.thy ===== *)
theory Azure_Queue
  imports Operator_State Go_Url
begin

text \<open>
  \<open>internal/azure/queue.go\<close> and \<open>redact.go\<close>: the queue of change notifications over the Azure SDK, and
  the redaction of URLs. The SDK client (\<open>azqueue\<close>) is the record \<open>'v queueEnv\<close>; nothing is assumed of
  it. A queue URL may carry a live credential in its query or its user information, and an SDK error
  may carry the URL: \<open>RedactURL\<close> and \<open>redactURLError\<close> stand between both and the log.
\<close>

section \<open>Redaction\<close>

abbreviation UnparseableURLPlaceholder :: string where
  "UnparseableURLPlaceholder \<equiv> ''<unparseable>''"
abbreviation RedactedQueryMarker :: string where
  "RedactedQueryMarker \<equiv> ''?<redacted>''"

definition RedactURL :: "(string \<Rightarrow> string option) \<Rightarrow> string \<Rightarrow> string \<times> bool" where
  "RedactURL lit raw =
     (if raw = [] then ([], False)
      else (case url_Parse lit raw of
          None \<Rightarrow> (UnparseableURLPlaceholder, False)
        | Some u \<Rightarrow>
            (let hadQuery = (url_RawQuery u \<noteq> [] \<or> url_ForceQuery u);
                 u = u\<lparr>url_User := None, url_RawQuery := [], url_ForceQuery := False,
                       url_Fragment := [], url_RawFragment := []\<rparr>;
                 safe = url_String u in
             (if hadQuery then safe @ RedactedQueryMarker else safe, hadQuery))))"

fun isURLError :: "kind \<Rightarrow> bool" where
  "isURLError (KURLError _ _) = True"
| "isURLError _ = False"

definition redactURLError :: "(string \<Rightarrow> string option) \<Rightarrow> goerr \<Rightarrow> goerr" where
  "redactURLError lit err =
     (case errors_AsErr isURLError err of
        Some (Err (KURLError op raw) es) \<Rightarrow> Err (KURLError op (fst (RedactURL lit raw))) es
      | _ \<Rightarrow> err)"

section \<open>The queue source\<close>

record QueueMessage =
  qm_ID :: string
  qm_PopReceipt :: string
  qm_Text :: string
  qm_DequeueCount :: int

text \<open>The fields of \<open>azqueue.DequeuedMessage\<close> that are read, each a pointer.\<close>

record DequeuedMessage =
  dm_MessageID :: "string option"
  dm_PopReceipt :: "string option"
  dm_MessageText :: "string option"
  dm_DequeueCount :: "int option"

record 'v queueEnv =
  qe_lit :: "string \<Rightarrow> string option"
  qe_DequeueMessages :: "goctx \<Rightarrow> int \<Rightarrow> 'v \<Rightarrow> (goerr + DequeuedMessage option list) \<times> 'v"
  qe_DeleteMessage :: "goctx \<Rightarrow> string \<Rightarrow> string \<Rightarrow> 'v \<Rightarrow> goerr option \<times> 'v"

definition stringVal :: "string option \<Rightarrow> string" where
  "stringVal p = (case p of None \<Rightarrow> [] | Some s \<Rightarrow> s)"

definition int64Val :: "int option \<Rightarrow> int" where
  "int64Val p = (case p of None \<Rightarrow> 0 | Some n \<Rightarrow> n)"

definition toQueueMessage :: "DequeuedMessage \<Rightarrow> QueueMessage" where
  "toQueueMessage m =
     \<lparr>qm_ID = stringVal (dm_MessageID m), qm_PopReceipt = stringVal (dm_PopReceipt m),
      qm_Text = stringVal (dm_MessageText m), qm_DequeueCount = int64Val (dm_DequeueCount m)\<rparr>"

definition Receive_queue :: "'v queueEnv \<Rightarrow> goctx \<Rightarrow> int \<Rightarrow> 'v \<Rightarrow> (goerr + QueueMessage list) \<times> 'v" where
  "Receive_queue Q ctx maxMessages v =
     (case qe_DequeueMessages Q ctx maxMessages v of
        (Inl err, v') \<Rightarrow> (Inl (Errorf ''dequeue messages: '' [redactURLError (qe_lit Q) err]), v')
      | (Inr msgs, v') \<Rightarrow> (Inr (map toQueueMessage (List.map_filter (\<lambda>m. m) msgs)), v'))"

definition Delete_queue :: "'v queueEnv \<Rightarrow> goctx \<Rightarrow> string \<Rightarrow> string \<Rightarrow> 'v \<Rightarrow> goerr option \<times> 'v" where
  "Delete_queue Q ctx messageID popReceipt v =
     (case qe_DeleteMessage Q ctx messageID popReceipt v of
        (None, v') \<Rightarrow> (None, v')
      | (Some err, v') \<Rightarrow>
          (Some (Errorf (''delete message '' @ messageID @ '': '') [redactURLError (qe_lit Q) err]), v'))"

text \<open>\<open>NewQueueSource\<close>, with the answers of the credential and of the client constructor.\<close>

definition NewQueueSource :: "goerr option \<Rightarrow> goerr option \<Rightarrow> goerr option" where
  "NewQueueSource cred client =
     (case cred of
        Some err \<Rightarrow> Some (Errorf ''create default azure credential: '' [err])
      | None \<Rightarrow>
          (case client of
             Some err \<Rightarrow> Some (Errorf ''create storage queue client: '' [err])
           | None \<Rightarrow> None))"

section \<open>Specification vocabulary\<close>

text \<open>What may follow the query: nothing, or a fragment \<open>Parse\<close> accepts.\<close>

fun fragmentPart :: "string \<Rightarrow> bool" where
  "fragmentPart [] = True"
| "fragmentPart (c # f) = (c = CHR ''#'' \<and> unescape EncFragment f \<noteq> None)"

definition stripped :: "URL \<Rightarrow> URL" where
  "stripped u = u\<lparr>url_User := None, url_RawQuery := [], url_ForceQuery := False,
     url_Fragment := [], url_RawFragment := []\<rparr>"

text \<open>Two errors that carry a URL error somewhere in their chains, alike but for the query of the URL; and two
  SDK clients that answer alike but for such errors.\<close>

definition urlAlike :: "goerr \<Rightarrow> goerr \<Rightarrow> bool" where
  "urlAlike err err' \<longleftrightarrow> (\<exists>op base q q' cause.
     errors_AsErr isURLError err = Some (Err (KURLError op (base @ ''?'' @ q)) cause)
     \<and> errors_AsErr isURLError err' = Some (Err (KURLError op (base @ ''?'' @ q')) cause)
     \<and> CHR ''?'' \<notin> set base \<and> CHR ''#'' \<notin> set base \<and> base \<noteq> ''*''
     \<and> q \<noteq> [] \<and> CHR ''#'' \<notin> set q \<and> \<not> containsCTLByte q
     \<and> q' \<noteq> [] \<and> CHR ''#'' \<notin> set q' \<and> \<not> containsCTLByte q')"

definition sdkAlike :: "'v queueEnv \<Rightarrow> 'v queueEnv \<Rightarrow> bool" where
  "sdkAlike Q Q' \<longleftrightarrow> qe_lit Q = qe_lit Q'
     \<and> (\<forall>ctx n v. qe_DequeueMessages Q ctx n v = qe_DequeueMessages Q' ctx n v
          \<or> (\<exists>e e' w. qe_DequeueMessages Q ctx n v = (Inl e, w) \<and> qe_DequeueMessages Q' ctx n v = (Inl e', w)
               \<and> urlAlike e e'))
     \<and> (\<forall>ctx i p v. qe_DeleteMessage Q ctx i p v = qe_DeleteMessage Q' ctx i p v
          \<or> (\<exists>e e' w. qe_DeleteMessage Q ctx i p v = (Some e, w) \<and> qe_DeleteMessage Q' ctx i p v = (Some e', w)
               \<and> urlAlike e e'))"

section \<open>Lemmas\<close>

lemma RedactURL_parsed:
  "raw \<noteq> [] \<Longrightarrow> RedactURL lit raw =
     (case url_Parse lit raw of
        None \<Rightarrow> (UnparseableURLPlaceholder, False)
      | Some u \<Rightarrow>
          (url_String (stripped u) @ (if url_RawQuery u \<noteq> [] \<or> url_ForceQuery u then RedactedQueryMarker else []),
           url_RawQuery u \<noteq> [] \<or> url_ForceQuery u))"
  by (simp add: RedactURL_def stripped_def Let_def split: option.split)

text \<open>A fragment changes nothing that is printed.\<close>

lemma url_Parse_fragment:
  assumes "CHR ''#'' \<notin> set s" and "fragmentPart fr"
  shows "\<exists>g. url_Parse lit (s @ fr) = map_option g (parseNoFragment lit s)
    \<and> (\<forall>u. stripped (g u) = stripped u \<and> url_RawQuery (g u) = url_RawQuery u \<and> url_ForceQuery (g u) = url_ForceQuery u)"
proof (cases "drop 1 fr")
  case Nil
  then have "url_Parse lit (s @ fr) = parseNoFragment lit s"
    using assms by (cases fr) (auto simp: url_Parse_def cut_absent cut_append split: option.split)
  then show ?thesis by (intro exI [of _ "\<lambda>u. u"]) (simp add: option.map_ident)
next
  case (Cons x xs)
  then obtain f frag where fr: "fr = CHR ''#'' # f" "f \<noteq> []" "unescape EncFragment f = Some frag"
    using assms(2) by (cases fr) auto
  define raw where "raw = (if f = escape EncFragment frag then [] else f)"
  have "setFragment f u = Some (u\<lparr>url_Fragment := frag, url_RawFragment := raw\<rparr>)" for u
    using fr(3) by (simp add: setFragment_def raw_def)
  with fr(1,2) assms(1) show ?thesis
    by (intro exI [of _ "\<lambda>u. u\<lparr>url_Fragment := frag, url_RawFragment := raw\<rparr>"])
      (simp add: url_Parse_def cut_append stripped_def split: option.split)
qed

lemma parseRest_keeps:
  "parseRest lit r u = Some v \<Longrightarrow> url_RawQuery v = url_RawQuery u \<and> url_ForceQuery v = url_ForceQuery u"
  by (auto simp: parseRest_def setPath_def Let_def split: if_splits option.splits)

lemma parse_base_query:
  assumes "CHR ''?'' \<notin> set base" and "parseNoFragment lit base = Some u"
  shows "url_RawQuery u = [] \<and> \<not> url_ForceQuery u"
proof (cases "base = ''*''")
  case False
  then obtain sc r where g: "getScheme base = Some (sc, r)"
    using assms(2) by (auto simp: parseNoFragment_def split: if_splits option.splits)
  then have "splitQuery r = (r, False, [])"
    using getScheme_suffix [OF g] assms(1) by (intro splitQuery_none) blast
  with assms(2) False g parseRest_keeps show ?thesis
    by (fastforce simp: parseNoFragment_def zeroURL_def split: if_splits)
qed (use assms(2) in \<open>auto simp: parseNoFragment_def zeroURL_def split: if_splits\<close>)

lemma stripped_query [simp]: "stripped (u\<lparr>url_RawQuery := q\<rparr>) = stripped u" "stripped (u\<lparr>url_User := ui\<rparr>) = stripped u"
  by (simp_all add: stripped_def)

lemma RedactURL_plain:
  assumes "CHR ''#'' \<notin> set base" and "CHR ''?'' \<notin> set base" and "url_Parse lit base = Some u"
  shows "fst (RedactURL lit base) = url_String (stripped u)" "parseNoFragment lit base = Some u"
proof -
  show u: "parseNoFragment lit base = Some u"
    using assms(1,3) by (simp add: url_Parse_def cut_absent split: option.splits)
  show "fst (RedactURL lit base) = url_String (stripped u)"
  proof (cases "base = []")
    case True
    with u have "u = zeroURL"
      by (simp add: parseNoFragment_def containsCTLByte_def getScheme_def splitQuery_def cut_def parseRest_def
          setPath_def escape_def zeroURL_def)
    with True show ?thesis
      by (simp add: RedactURL_def stripped_def zeroURL_def url_String_def EscapedPath_def escape_def cut_def Let_def)
  next
    case False
    with assms(3) parse_base_query [OF assms(2) u] show ?thesis by (simp add: RedactURL_parsed)
  qed
qed

lemma RedactURL_query:
  assumes "CHR ''?'' \<notin> set base" and "CHR ''#'' \<notin> set base" and "base \<noteq> ''*''"
    and "q \<noteq> []" and "CHR ''#'' \<notin> set q" and "\<not> containsCTLByte q" and "fragmentPart fr"
  shows "RedactURL lit (base @ ''?'' @ q @ fr) =
    (if url_Parse lit base = None then (UnparseableURLPlaceholder, False)
     else (fst (RedactURL lit base) @ RedactedQueryMarker, True))"
proof -
  have "CHR ''#'' \<notin> set (base @ CHR ''?'' # q)" using assms(2,5) by simp
  from url_Parse_fragment [OF this assms(7), of lit] obtain g where
    g: "url_Parse lit ((base @ CHR ''?'' # q) @ fr) =
        map_option g (map_option (\<lambda>v. v\<lparr>url_RawQuery := q\<rparr>) (parseNoFragment lit base))"
      "\<And>u. stripped (g u) = stripped u" "\<And>u. url_RawQuery (g u) = url_RawQuery u"
    using parse_query [OF assms(1,4,6,3)] by auto
  have same: "url_Parse lit base = parseNoFragment lit base"
    using assms(2) by (simp add: url_Parse_def cut_absent split: option.split)
  show ?thesis
  proof (cases "url_Parse lit base")
    case None
    with g(1) same show ?thesis by (simp add: RedactURL_parsed)
  next
    case (Some u)
    from RedactURL_plain [OF assms(2,1) Some] g assms(4) Some show ?thesis by (simp add: RedactURL_parsed)
  qed
qed

text \<open>Such errors are one error after redaction, and such clients one queue source.\<close>

lemma redactURLError_alike:
  assumes "urlAlike err err'"
  shows "redactURLError lit err = redactURLError lit err'"
proof -
  obtain op base q q' cause where
    err: "errors_AsErr isURLError err = Some (Err (KURLError op (base @ ''?'' @ q)) cause)"
      "errors_AsErr isURLError err' = Some (Err (KURLError op (base @ ''?'' @ q')) cause)"
    and base: "CHR ''?'' \<notin> set base" "CHR ''#'' \<notin> set base" "base \<noteq> ''*''"
    and q: "q \<noteq> []" "CHR ''#'' \<notin> set q" "\<not> containsCTLByte q"
    and q': "q' \<noteq> []" "CHR ''#'' \<notin> set q'" "\<not> containsCTLByte q'"
    using assms by (auto simp: urlAlike_def)
  have "RedactURL lit (base @ ''?'' @ q) = RedactURL lit (base @ ''?'' @ q')"
    using RedactURL_query [OF base q, of "[]" lit] RedactURL_query [OF base q', of "[]" lit] by simp
  with err show ?thesis by (simp add: redactURLError_def)
qed

lemma sdkAlike_source:
  assumes "sdkAlike Q Q'"
  shows "Receive_queue Q = Receive_queue Q'" and "Delete_queue Q = Delete_queue Q'"
proof -
  have lit: "qe_lit Q = qe_lit Q'" using assms by (simp add: sdkAlike_def)
  have receive: "Receive_queue Q ctx n v = Receive_queue Q' ctx n v" for ctx n v
  proof -
    have "qe_DequeueMessages Q ctx n v = qe_DequeueMessages Q' ctx n v
        \<or> (\<exists>e e' w. qe_DequeueMessages Q ctx n v = (Inl e, w) \<and> qe_DequeueMessages Q' ctx n v = (Inl e', w) \<and> urlAlike e e')"
      using assms unfolding sdkAlike_def by blast
    then show ?thesis using redactURLError_alike lit by (auto simp: Receive_queue_def split: prod.split sum.split)
  qed
  have delete: "Delete_queue Q ctx i p v = Delete_queue Q' ctx i p v" for ctx i p v
  proof -
    have "qe_DeleteMessage Q ctx i p v = qe_DeleteMessage Q' ctx i p v
        \<or> (\<exists>e e' w. qe_DeleteMessage Q ctx i p v = (Some e, w) \<and> qe_DeleteMessage Q' ctx i p v = (Some e', w) \<and> urlAlike e e')"
      using assms unfolding sdkAlike_def by blast
    then show ?thesis using redactURLError_alike lit by (auto simp: Delete_queue_def split: prod.split option.split)
  qed
  show "Receive_queue Q = Receive_queue Q'" and "Delete_queue Q = Delete_queue Q'"
    using receive delete by blast+
qed

section \<open>Properties\<close>

text \<open>
  (C34) A SAS token never survives redaction. For a URL with a query and possibly a fragment, what
  \<open>RedactURL\<close> returns is a function of the part before the question mark alone: that part redacted,
  followed by the marker, or the fixed placeholder when it cannot be parsed. No character of the
  query or of the fragment takes part.
\<close>

theorem redact_hides_query:
  assumes "CHR ''?'' \<notin> set base" and "CHR ''#'' \<notin> set base" and "base \<noteq> ''*''"
    and "q \<noteq> []" and "CHR ''#'' \<notin> set q" and "\<not> containsCTLByte q" and "fragmentPart fr"
  shows "RedactURL lit (base @ ''?'' @ q @ fr) =
    (if url_Parse lit base = None then (UnparseableURLPlaceholder, False)
     else (fst (RedactURL lit base) @ RedactedQueryMarker, True))"
  by (rule RedactURL_query [OF assms])

theorem redact_hides_query_witness:
  "RedactURL (\<lambda>_. None) (''https://q.example.net/events'' @ ''?'' @ ''sv=2024&sig=abc'' @ []) =
   (''https://q.example.net/events?<redacted>'', True)"
proof -
  have "url_Parse (\<lambda>_. None) ''https://q.example.net/events'' \<noteq> None"
    "fst (RedactURL (\<lambda>_. None) ''https://q.example.net/events'') = ''https://q.example.net/events''"
    by code_simp+
  moreover have "\<not> containsCTLByte ''sv=2024&sig=abc''" by code_simp
  ultimately show ?thesis
    using redact_hides_query [of "''https://q.example.net/events''" "''sv=2024&sig=abc''" "[]" "\<lambda>_. None"] by simp
qed

text \<open>
  User information never survives redaction either. A URL with user information that \<open>Parse\<close> accepts is
  redacted exactly like the same URL without it, whatever the scheme, host, path and query.
\<close>

lemma redact_hides_credentials:
  assumes "sch \<noteq> []" and "letter (hd sch)" and "list_all schemeChar sch" and "parseUserinfo user = Some ui"
    and "CHR ''@'' \<notin> set (takeWhile (\<lambda>x. x \<noteq> CHR ''/'') (fst (cut (CHR ''?'') hp)))"
    and "CHR ''#'' \<notin> set hp" and "fragmentPart fr"
  shows "RedactURL lit (sch @ ''://'' @ user @ ''@'' @ hp @ fr) = RedactURL lit (sch @ ''://'' @ hp @ fr)"
proof -
  have sharp: "CHR ''#'' \<notin> set sch" "CHR ''#'' \<notin> set user"
    using assms(3) validUserinfo_chars(4) [OF parseUserinfo_valid [OF assms(4)]]
    by (auto simp: list_all_iff schemeChar_def alnumByte_def byte_def)
  obtain g where g: "url_Parse lit ((sch @ ''://'' @ user @ CHR ''@'' # hp) @ fr) =
        map_option g (parseNoFragment lit (sch @ ''://'' @ user @ CHR ''@'' # hp))"
      "\<And>u. stripped (g u) = stripped u" "\<And>u. url_RawQuery (g u) = url_RawQuery u"
      "\<And>u. url_ForceQuery (g u) = url_ForceQuery u"
    using url_Parse_fragment [OF _ assms(7), of "sch @ ''://'' @ user @ CHR ''@'' # hp" lit] sharp assms(6) by auto
  obtain g' where g': "url_Parse lit ((sch @ ''://'' @ hp) @ fr) = map_option g' (parseNoFragment lit (sch @ ''://'' @ hp))"
      "\<And>u. stripped (g' u) = stripped u" "\<And>u. url_RawQuery (g' u) = url_RawQuery u"
      "\<And>u. url_ForceQuery (g' u) = url_ForceQuery u"
    using url_Parse_fragment [OF _ assms(7), of "sch @ ''://'' @ hp" lit] sharp assms(6) by auto
  show ?thesis
    using g g' parse_user [OF assms(1-5), of lit] assms(1)
    by (simp add: RedactURL_parsed split: option.split)
qed

end
