(* ===== verification/Go_Base64.thy ===== *)
theory Go_Base64
  imports Go_Strings
begin

text \<open>
  Go's \<open>encoding/base64\<close> with \<open>StdEncoding\<close>: padded, not strict about the unused low bits of the last
  group, and skipping carriage returns and line feeds wherever they stand. The encoder is the
  specification the decoder is checked against.
\<close>

section \<open>Decoding\<close>

definition sextet :: "char \<Rightarrow> nat option" where
  "sextet c =
     (if 65 \<le> byte c \<and> byte c \<le> 90 then Some (byte c - 65)
      else if 97 \<le> byte c \<and> byte c \<le> 122 then Some (byte c - 71)
      else if 48 \<le> byte c \<and> byte c \<le> 57 then Some (byte c + 4)
      else if byte c = 43 then Some 62
      else if byte c = 47 then Some 63
      else None)"

text \<open>The bytes of a group of four, three or two digits.\<close>

definition bytes3 :: "nat \<Rightarrow> nat \<Rightarrow> nat \<Rightarrow> nat \<Rightarrow> string" where
  "bytes3 a b c d = map char_of [a * 4 + b div 16, b mod 16 * 16 + c div 4, c mod 4 * 64 + d]"

definition bytes2 :: "nat \<Rightarrow> nat \<Rightarrow> nat \<Rightarrow> string" where
  "bytes2 a b c = map char_of [a * 4 + b div 16, b mod 16 * 16 + c div 4]"

definition bytes1 :: "nat \<Rightarrow> nat \<Rightarrow> string" where
  "bytes1 a b = map char_of [a * 4 + b div 16]"

fun decodeGroups :: "string \<Rightarrow> string option" where
  "decodeGroups [] = Some []"
| "decodeGroups (w # x # y # z # rest) =
     (case (sextet w, sextet x) of
        (Some a, Some b) \<Rightarrow>
          (case sextet y of
             None \<Rightarrow>
               if y = CHR ''='' \<and> z = CHR ''='' \<and> rest = [] then Some (bytes1 a b) else None
           | Some c \<Rightarrow>
               (case sextet z of
                  None \<Rightarrow> if z = CHR ''='' \<and> rest = [] then Some (bytes2 a b c) else None
                | Some d \<Rightarrow>
                    (case decodeGroups rest of
                       None \<Rightarrow> None
                     | Some out \<Rightarrow> Some (bytes3 a b c d @ out))))
      | _ \<Rightarrow> None)"
| "decodeGroups _ = None"

definition DecodeString :: "string \<Rightarrow> string option" where
  "DecodeString s = decodeGroups (filter (\<lambda>c. byte c \<noteq> 10 \<and> byte c \<noteq> 13) s)"

section \<open>Encoding\<close>

definition digit64 :: "nat \<Rightarrow> char" where
  "digit64 n =
     char_of (if n < 26 then 65 + n else if n < 52 then 71 + n else if n < 62 then n - 4
              else if n = 62 then 43 else 47)"

text \<open>The four digits of a group of three bytes; a missing byte counts as 0.\<close>

definition q1 :: "nat \<Rightarrow> nat" where
  "q1 x = x div 4"

definition q2 :: "nat \<Rightarrow> nat \<Rightarrow> nat" where
  "q2 x y = x mod 4 * 16 + y div 16"

definition q3 :: "nat \<Rightarrow> nat \<Rightarrow> nat" where
  "q3 y z = y mod 16 * 4 + z div 64"

definition q4 :: "nat \<Rightarrow> nat" where
  "q4 z = z mod 64"

fun EncodeToString :: "string \<Rightarrow> string" where
  "EncodeToString [] = []"
| "EncodeToString [x] =
     [digit64 (q1 (byte x)), digit64 (q2 (byte x) 0), CHR ''='', CHR ''='']"
| "EncodeToString [x, y] =
     [digit64 (q1 (byte x)), digit64 (q2 (byte x) (byte y)), digit64 (q3 (byte y) 0), CHR ''='']"
| "EncodeToString (x # y # z # rest) =
     digit64 (q1 (byte x)) # digit64 (q2 (byte x) (byte y)) # digit64 (q3 (byte y) (byte z))
       # digit64 (q4 (byte z)) # EncodeToString rest"

section \<open>Lemmas\<close>

lemma byte_bound: "byte c < 256"
  by (simp add: byte_def of_char_of)

lemma byte_char_of: "n < 256 \<Longrightarrow> byte (char_of n) = n"
  by (simp add: byte_def)

lemma char_of_byte [simp]: "char_of (byte c) = c"
  by (simp add: byte_def)

lemma sextet_digit64: "n < 64 \<Longrightarrow> sextet (digit64 n) = Some n"
  by (auto simp: sextet_def digit64_def byte_char_of)

lemma digit64_kept: "n < 64 \<Longrightarrow> byte (digit64 n) \<noteq> 10 \<and> byte (digit64 n) \<noteq> 13"
  by (auto simp: digit64_def byte_char_of)

lemma pad_kept: "byte CHR ''='' \<noteq> 10" "byte CHR ''='' \<noteq> 13" "sextet CHR ''='' = None"
  by (simp_all add: byte_def sextet_def)

text \<open>The digits of a group are below 64, and give the bytes back.\<close>

lemma digit_pair:
  fixes a b n :: nat
  assumes "b < n"
  shows "(a * n + b) div n = a" and "(a * n + b) mod n = b"
  using assms by simp_all

lemma q_bound:
  "x < 256 \<Longrightarrow> q1 x < 64" "y < 256 \<Longrightarrow> q2 x y < 64" "z < 256 \<Longrightarrow> q3 y z < 64" "q4 z < 64"
proof -
  show "q4 z < 64" by (simp add: q4_def)
  show "q1 x < 64" if "x < 256" using that by (simp add: q1_def less_mult_imp_div_less)
  show "q2 x y < 64" if "y < 256"
  proof -
    have "y div 16 < 16" using that by (simp add: less_mult_imp_div_less)
    moreover have "x mod 4 < 4" by simp
    ultimately show ?thesis unfolding q2_def by linarith
  qed
  show "q3 y z < 64" if "z < 256"
  proof -
    have "z div 64 < 4" using that by (simp add: less_mult_imp_div_less)
    moreover have "y mod 16 < 16" by simp
    ultimately show ?thesis unfolding q3_def by linarith
  qed
qed

lemma q_bytes: "y < 256 \<Longrightarrow> q1 x * 4 + q2 x y div 16 = x"
  unfolding q1_def q2_def
  by (subst digit_pair(1)) (simp_all add: less_mult_imp_div_less)

lemma q_bytes2: "y < 256 \<Longrightarrow> z < 256 \<Longrightarrow> q2 x y mod 16 * 16 + q3 y z div 4 = y"
  unfolding q2_def q3_def
  by (subst digit_pair(1), simp add: less_mult_imp_div_less, subst digit_pair(2))
    (simp_all add: less_mult_imp_div_less)

lemma q_bytes3: "z < 256 \<Longrightarrow> q3 y z mod 4 * 64 + q4 z = z"
  unfolding q3_def q4_def
  by (subst digit_pair(2)) (simp_all add: less_mult_imp_div_less)

lemma digits_ok:
  "sextet (digit64 (q1 (byte x))) = Some (q1 (byte x))"
  "sextet (digit64 (q2 k (byte x))) = Some (q2 k (byte x))"
  "sextet (digit64 (q2 k 0)) = Some (q2 k 0)"
  "sextet (digit64 (q3 k (byte x))) = Some (q3 k (byte x))"
  "sextet (digit64 (q3 k 0)) = Some (q3 k 0)"
  "sextet (digit64 (q4 k)) = Some (q4 k)"
  by (simp_all add: sextet_digit64 q_bound byte_bound)

lemma digits_kept:
  "byte (digit64 (q1 (byte x))) \<noteq> 10 \<and> byte (digit64 (q1 (byte x))) \<noteq> 13"
  "byte (digit64 (q2 k (byte x))) \<noteq> 10 \<and> byte (digit64 (q2 k (byte x))) \<noteq> 13"
  "byte (digit64 (q2 k 0)) \<noteq> 10 \<and> byte (digit64 (q2 k 0)) \<noteq> 13"
  "byte (digit64 (q3 k (byte x))) \<noteq> 10 \<and> byte (digit64 (q3 k (byte x))) \<noteq> 13"
  "byte (digit64 (q3 k 0)) \<noteq> 10 \<and> byte (digit64 (q3 k 0)) \<noteq> 13"
  "byte (digit64 (q4 k)) \<noteq> 10 \<and> byte (digit64 (q4 k)) \<noteq> 13"
  by (simp_all add: digit64_kept q_bound byte_bound)

lemma bytes_encode:
  "bytes1 (q1 (byte x)) (q2 (byte x) 0) = [x]"
  "bytes2 (q1 (byte x)) (q2 (byte x) (byte y)) (q3 (byte y) 0) = [x, y]"
  "bytes3 (q1 (byte x)) (q2 (byte x) (byte y)) (q3 (byte y) (byte z)) (q4 (byte z)) = [x, y, z]"
  by (simp_all add: bytes1_def bytes2_def bytes3_def q_bytes q_bytes2 q_bytes3 byte_bound)

lemma encode_kept: "filter (\<lambda>c. byte c \<noteq> 10 \<and> byte c \<noteq> 13) (EncodeToString s) = EncodeToString s"
  by (induction s rule: EncodeToString.induct) (simp_all add: digits_kept pad_kept)

lemma decodeGroups_encode: "decodeGroups (EncodeToString s) = Some s"
  by (induction s rule: EncodeToString.induct) (simp_all add: digits_ok pad_kept bytes_encode)

lemma DecodeString_encode: "DecodeString (EncodeToString s) = Some s"
  by (simp add: DecodeString_def encode_kept decodeGroups_encode)

end
