(* ===== verification/Events_Parser.thy ===== *)
theory Events_Parser
  imports Go_Errors Go_Json Go_Base64 "HOL-Library.Multiset"
begin

text \<open>
  \<open>internal/events/parser.go\<close>: \<open>Parse\<close> turns the body of one queue message into an event, a clean discard
  or an error. The body is Base64 over a JSON envelope in one of the two schemas of Event Grid, whose
  \<open>data\<close> is kept as raw text and decoded on its own once the event type is known to matter.

  A result of \<open>Parse\<close> is \<open>Inl\<close> an error, \<open>Inr None\<close> for \<open>(nil, nil)\<close>, or \<open>Inr (Some event)\<close>.
  The lemmas show which texts an error can have, that the two schemas are read alike, and that an
  event written out in the documented shape is read back.
\<close>

section \<open>Data\<close>

record ParsedEvent =
  pe_ID :: string
  pe_VaultName :: string
  pe_SecretName :: string
  pe_Version :: string

record eventEnvelope =
  ee_ID :: string
  ee_EventType :: string
  ee_Type :: string
  ee_Data :: string

text \<open>The local struct of \<open>Parse\<close>; \<open>None\<close> is a nil pointer.\<close>

record eventData =
  ed_VaultName :: "string option"
  ed_ObjectType :: "string option"
  ed_ObjectName :: "string option"
  ed_Version :: "string option"

text \<open>The constant of the SDK, \<open>azsystemevents.TypeKeyVaultSecretNewVersionCreated\<close>.\<close>

abbreviation TypeKeyVaultSecretNewVersionCreated :: string where
  "TypeKeyVaultSecretNewVersionCreated \<equiv> ''Microsoft.KeyVault.SecretNewVersionCreated''"

text \<open>\<open>fmt.Errorf("%w: <what>", ErrMalformedMessage)\<close>. The text of the sentinel comes first, so the text
  of the node is the whole rendering.\<close>

definition malformed :: "string \<Rightarrow> goerr" where
  "malformed what = Errorf (''events: malformed queue message: '' @ what) [Sentinel ErrMalformedMessage]"

section \<open>Trimming\<close>

text \<open>\<open>unicode.IsSpace\<close>.\<close>

definition IsSpace :: "nat \<Rightarrow> bool" where
  "IsSpace r \<longleftrightarrow>
     9 \<le> r \<and> r \<le> 13 \<or> r \<in> {32, 133, 160, 5760, 8232, 8233, 8239, 8287, 12288} \<or> 8192 \<le> r \<and> r \<le> 8202"

text \<open>\<open>utf8.DecodeLastRune\<close> of a string that is not empty: the rune that starts at the last byte that
  can start one, at most four bytes back, when it reaches to the end.\<close>

definition runeStart :: "char \<Rightarrow> bool" where
  "runeStart c \<longleftrightarrow> \<not> contByte (byte c)"

definition decodeLastRune :: "string \<Rightarrow> nat \<times> nat" where
  "decodeLastRune s =
     (case find (\<lambda>k. k \<le> length s \<and> runeStart (s ! (length s - k))) [1, 2, 3, 4] of
        None \<Rightarrow> (RuneError, 1)
      | Some k \<Rightarrow>
          (case decodeRune (drop (length s - k) s) of
             (r, width) \<Rightarrow> if width = k then (r, width) else (RuneError, 1)))"

text \<open>\<open>bytes.TrimSpace\<close>.\<close>

function trimLeft :: "string \<Rightarrow> string" where
  "trimLeft [] = []"
| "trimLeft (c # cs) =
     (if IsSpace (fst (decodeRune (c # cs))) then trimLeft (drop (snd (decodeRune (c # cs)) - 1) cs)
      else c # cs)"
  by pat_completeness auto
termination
  by (relation "measure length") auto

function trimRight :: "string \<Rightarrow> string" where
  "trimRight s =
     (if s \<noteq> [] \<and> IsSpace (fst (decodeLastRune s))
      then trimRight (take (length s - max 1 (snd (decodeLastRune s))) s) else s)"
  by pat_completeness auto
termination
  by (relation "measure length") auto

declare trimRight.simps [simp del]

definition TrimSpace :: "string \<Rightarrow> string" where
  "TrimSpace s = trimRight (trimLeft s)"

section \<open>Decoding\<close>

text \<open>A decoding carries the struct and whether a field had the wrong type, which \<open>json.Unmarshal\<close>
  reports at the end.\<close>

definition setString :: "(string \<Rightarrow> 'a \<Rightarrow> 'a) \<Rightarrow> json \<Rightarrow> 'a \<times> bool \<Rightarrow> 'a \<times> bool" where
  "setString put j d =
     (case j of JString s \<Rightarrow> (put s (fst d), snd d) | JNull \<Rightarrow> d | _ \<Rightarrow> (fst d, True))"

definition setStringPtr :: "(string option \<Rightarrow> 'a \<Rightarrow> 'a) \<Rightarrow> json \<Rightarrow> 'a \<times> bool \<Rightarrow> 'a \<times> bool" where
  "setStringPtr put j d =
     (case j of JString s \<Rightarrow> (put (Some s) (fst d), snd d) | JNull \<Rightarrow> (put None (fst d), snd d)
      | _ \<Rightarrow> (fst d, True))"

definition envelopeMember ::
    "unicode \<Rightarrow> eventEnvelope \<times> bool \<Rightarrow> string \<times> string \<times> json \<Rightarrow> eventEnvelope \<times> bool" where
  "envelopeMember u d m =
     (case m of (key, raw, v) \<Rightarrow>
        (case fieldFor u [''id'', ''eventType'', ''type'', ''data''] key of
           None \<Rightarrow> d
         | Some f \<Rightarrow>
             if f = ''id'' then setString (\<lambda>s e. e\<lparr>ee_ID := s\<rparr>) v d
             else if f = ''eventType'' then setString (\<lambda>s e. e\<lparr>ee_EventType := s\<rparr>) v d
             else if f = ''type'' then setString (\<lambda>s e. e\<lparr>ee_Type := s\<rparr>) v d
             else ((fst d)\<lparr>ee_Data := raw\<rparr>, snd d)))"

definition unmarshalEnvelope :: "unicode \<Rightarrow> string \<Rightarrow> eventEnvelope option" where
  "unmarshalEnvelope u doc =
     (let zero = \<lparr>ee_ID = [], ee_EventType = [], ee_Type = [], ee_Data = []\<rparr> in
      case parseJson doc of
        Some (JObject ms) \<Rightarrow>
          (case foldl (envelopeMember u) (zero, False) ms of
             (e, failed) \<Rightarrow> if failed then None else Some e)
      | Some JNull \<Rightarrow> Some zero
      | _ \<Rightarrow> None)"

definition dataMember ::
    "unicode \<Rightarrow> eventData \<times> bool \<Rightarrow> string \<times> string \<times> json \<Rightarrow> eventData \<times> bool" where
  "dataMember u d m =
     (case m of (key, raw, v) \<Rightarrow>
        (case fieldFor u [''VaultName'', ''ObjectType'', ''ObjectName'', ''Version''] key of
           None \<Rightarrow> d
         | Some f \<Rightarrow>
             if f = ''VaultName'' then setStringPtr (\<lambda>s e. e\<lparr>ed_VaultName := s\<rparr>) v d
             else if f = ''ObjectType'' then setStringPtr (\<lambda>s e. e\<lparr>ed_ObjectType := s\<rparr>) v d
             else if f = ''ObjectName'' then setStringPtr (\<lambda>s e. e\<lparr>ed_ObjectName := s\<rparr>) v d
             else setStringPtr (\<lambda>s e. e\<lparr>ed_Version := s\<rparr>) v d))"

definition unmarshalData :: "unicode \<Rightarrow> string \<Rightarrow> eventData option" where
  "unmarshalData u doc =
     (let zero = \<lparr>ed_VaultName = None, ed_ObjectType = None, ed_ObjectName = None, ed_Version = None\<rparr> in
      case parseJson doc of
        Some (JObject ms) \<Rightarrow>
          (case foldl (dataMember u) (zero, False) ms of
             (e, failed) \<Rightarrow> if failed then None else Some e)
      | Some JNull \<Rightarrow> Some zero
      | _ \<Rightarrow> None)"

definition derefString :: "string option \<Rightarrow> string" where
  "derefString p = (case p of None \<Rightarrow> [] | Some s \<Rightarrow> s)"

section \<open>Parse\<close>

definition Parse :: "unicode \<Rightarrow> string \<Rightarrow> goerr + ParsedEvent option" where
  "Parse u body =
     (case DecodeString body of
        None \<Rightarrow> Inl (malformed ''invalid base64 encoding'')
      | Some decoded \<Rightarrow>
     (case unmarshalEnvelope u decoded of
        None \<Rightarrow> Inl (malformed ''invalid event grid envelope'')
      | Some envelope \<Rightarrow>
     (let eventType = (if ee_EventType envelope = [] then ee_Type envelope else ee_EventType envelope);
          dataBytes = TrimSpace (ee_Data envelope) in
      if eventType = [] then Inl (malformed ''missing eventType or type'')
      else if eventType \<noteq> TypeKeyVaultSecretNewVersionCreated then Inr None
      else if dataBytes = [] \<or> dataBytes = ''null'' then Inl (malformed ''missing event data'')
      else (case unmarshalData u dataBytes of
          None \<Rightarrow> Inl (malformed ''invalid event data'')
        | Some d \<Rightarrow>
            (case ed_ObjectType d of
               None \<Rightarrow> Inr None
             | Some objectType \<Rightarrow>
                 if \<not> EqualFold u objectType ''secret'' then Inr None
                 else Inr (Some
                   \<lparr>pe_ID = ee_ID envelope, pe_VaultName = derefString (ed_VaultName d),
                    pe_SecretName = derefString (ed_ObjectName d),
                    pe_Version = derefString (ed_Version d)\<rparr>))))))"

section \<open>Specification vocabulary\<close>

text \<open>The five texts of an error of \<open>Parse\<close>.\<close>

definition parseErrors :: "goerr list" where
  "parseErrors = map malformed
     [''invalid base64 encoding'', ''invalid event grid envelope'', ''missing eventType or type'',
      ''missing event data'', ''invalid event data'']"

definition envelopeField :: "unicode \<Rightarrow> string \<Rightarrow> string option" where
  "envelopeField u = fieldFor u [''id'', ''eventType'', ''type'', ''data'']"

definition dataField :: "unicode \<Rightarrow> string \<Rightarrow> string option" where
  "dataField u = fieldFor u [''VaultName'', ''ObjectType'', ''ObjectName'', ''Version'']"

text \<open>
  An envelope that carries an event, as the two delivery schemas write it: among its members, in any order,
  are an id, the type under one of its two names and the data object, and these are the only ones with
  such a name; the data object likewise has the four names once each. Any other members may stand anywhere, with
  values of any type.
\<close>

definition carries :: "unicode \<Rightarrow> (string \<times> jdoc) list \<Rightarrow> ParsedEvent \<Rightarrow> bool" where
  "carries u ms ev \<longleftrightarrow>
     (\<exists>typeKey objectType ds. (typeKey = ''eventType'' \<or> typeKey = ''type'') \<and> EqualFold u objectType ''secret''
        \<and> mset (filter (\<lambda>m. envelopeField u (fst m) \<noteq> None) ms) =
            {#(''id'', DStr (pe_ID ev)), (typeKey, DStr TypeKeyVaultSecretNewVersionCreated), (''data'', DObj ds)#}
        \<and> mset (filter (\<lambda>m. dataField u (fst m) \<noteq> None) ds) =
            {#(''VaultName'', DStr (pe_VaultName ev)), (''ObjectType'', DStr objectType),
              (''ObjectName'', DStr (pe_SecretName ev)), (''Version'', DStr (pe_Version ev))#})"

text \<open>The sample messages of contracts/queue-message.md, in both schemas; the second has the times as
  numbers.\<close>

definition sampleEvent :: ParsedEvent where
  "sampleEvent = \<lparr>pe_ID = ''6a6cbc37'', pe_VaultName = ''kv-prod'', pe_SecretName = ''my-app-password'', pe_Version = ''7''\<rparr>"

definition sampleData :: "jdoc \<Rightarrow> jdoc \<Rightarrow> (string \<times> jdoc) list" where
  "sampleData nbf ep =
     [(''Id'', DStr ''https://kv-prod.vault.azure.net/secrets/my-app-password/7''), (''VaultName'', DStr ''kv-prod''),
      (''ObjectType'', DStr ''Secret''), (''ObjectName'', DStr ''my-app-password''), (''Version'', DStr ''7''),
      (''NBF'', nbf), (''EXP'', ep)]"

definition eventGridSample :: "(string \<times> jdoc) list" where
  "eventGridSample =
     [(''id'', DStr ''6a6cbc37''), (''topic'', DStr ''/subscriptions''), (''subject'', DStr ''my-app-password''),
      (''eventType'', DStr TypeKeyVaultSecretNewVersionCreated), (''eventTime'', DStr ''2026-08-21T10:12:33.1234567Z''),
      (''dataVersion'', DStr ''1''), (''metadataVersion'', DStr ''1''),
      (''data'', DObj (sampleData (DStr ''1559081980'') (DStr ''1559082102'')))]"

definition cloudEventSample :: "(string \<times> jdoc) list" where
  "cloudEventSample =
     [(''id'', DStr ''6a6cbc37''), (''source'', DStr ''/subscriptions''), (''subject'', DStr ''my-app-password''),
      (''type'', DStr TypeKeyVaultSecretNewVersionCreated), (''time'', DStr ''2026-08-21T10:12:33.1234567Z''),
      (''data'', DObj (sampleData (DNum [] ''1559081980'' [] []) (DNum [] ''1'' ''.559082102'' ''e+9''))),
      (''specversion'', DStr ''1.0''), (''tags'', DArr [DNull, DBool True])]"

text \<open>Two decoded envelopes that differ in the name the event type came under.\<close>

definition sameEnvelope :: "eventEnvelope \<times> bool \<Rightarrow> eventEnvelope \<times> bool \<Rightarrow> bool" where
  "sameEnvelope d d' \<longleftrightarrow>
     ee_Type (fst d) = [] \<and> snd d' = snd d
     \<and> fst d' = (fst d)\<lparr>ee_EventType := [], ee_Type := ee_EventType (fst d)\<rparr>"

text \<open>Tables for the evaluation of examples: no rune above ASCII has a case.\<close>

definition asciiTables :: unicode where
  "asciiTables = \<lparr>tab_IsPrint = (\<lambda>_. True), tab_ToLower = (\<lambda>r. r), tab_SimpleFold = (\<lambda>r. r)\<rparr>"

text \<open>A queue message as Event Grid puts it into the queue.\<close>

definition message :: "jdoc \<Rightarrow> string" where
  "message d = EncodeToString (showDoc d)"

text \<open>A member as the decoder sees it: its name, its text and its value.\<close>

definition filed :: "string \<times> jdoc \<Rightarrow> string \<times> string \<times> json" where
  "filed m = (fst m, showDoc (snd m), toJson (snd m))"

section \<open>Lemmas\<close>

lemma fieldFor_exact: "key \<in> set names \<Longrightarrow> fieldFor u names key = Some key"
  by (simp add: fieldFor_def)

lemma fieldFor_name: "fieldFor u names key = Some f \<Longrightarrow> f \<in> set names"
  by (auto simp: fieldFor_def find_Some_iff split: if_splits)

lemma toMembers_Cons: "toMembers (m # ms) = (fst m, showDoc (snd m), toJson (snd m)) # toMembers ms"
  by (cases m) simp

lemma plainMembers_Cons:
  "plainMembers n (m # ms) \<longleftrightarrow> list_all plainChar (fst m) \<and> plainDoc n (snd m) \<and> plainMembers n ms"
  by (cases m) simp

lemma toMembers_append: "toMembers (xs @ ys) = toMembers xs @ toMembers ys"
  by (induction xs) (auto simp: toMembers_Cons)

lemma plainMembers_append: "plainMembers n (xs @ ys) \<longleftrightarrow> plainMembers n xs \<and> plainMembers n ys"
  by (induction xs) (auto simp: plainMembers_Cons)

lemma plain_mono: "plainDoc n d \<Longrightarrow> n \<le> n' \<Longrightarrow> plainDoc n' d"
  and plain_elems_mono: "plainElems n ds \<Longrightarrow> n \<le> n' \<Longrightarrow> plainElems n' ds"
  and plain_members_mono: "plainMembers n ms \<Longrightarrow> n \<le> n' \<Longrightarrow> plainMembers n' ms"
  by (induction n d and n ds and n ms arbitrary: n' and n' and n' rule: plainDoc_plainElems_plainMembers.induct) auto

lemma plainMembersD: "plainMembers n ms \<Longrightarrow> m \<in> set ms \<Longrightarrow> plainDoc n (snd m)"
  by (induction ms) (auto simp: plainMembers_Cons)

text \<open>The text of an object has no space around it.\<close>

lemma trim_object: "TrimSpace (showDoc (DObj ms)) = showDoc (DObj ms)"
proof -
  let ?t = "CHR ''{'' # showMembers ms"
  have "decodeLastRune (?t @ ''}'') = (125, 1)"
    by (simp add: decodeLastRune_def runeStart_def contByte_def byte_def nth_append decodeRune_def)
  then have "trimRight (?t @ ''}'') = ?t @ ''}''"
    by (subst trimRight.simps) (simp add: IsSpace_def)
  then show ?thesis
    by (simp add: TrimSpace_def decodeRune_ascii byte_def IsSpace_def)
qed

lemma message_decodes: "DecodeString (message d) = Some (showDoc d)"
  by (simp add: message_def DecodeString_encode)

text \<open>
  A struct is decoded by folding over the members. Members without a field change nothing, and the order of
  the others does not matter when they are for different fields.
\<close>

lemma toMembers_map: "toMembers ms = map filed ms"
  by (induction ms) (auto simp: toMembers_Cons filed_def)

lemma foldl_permuted:
  assumes "mset (filter P ms) = mset ns"
    and "\<And>d m. \<not> P m \<Longrightarrow> f d (filed m) = d"
    and "\<And>d x y. x \<in> set ns \<Longrightarrow> y \<in> set ns \<Longrightarrow> f (f d (filed y)) (filed x) = f (f d (filed x)) (filed y)"
  shows "foldl f d (toMembers ms) = foldl f d (toMembers ns)"
proof -
  let ?f = "\<lambda>m d. f d (filed m)"
  have same: "set (filter P ms) = set ns" using assms(1) by (metis set_mset_mset)
  have "fold ?f ms d = fold ?f (filter P ms) d" by (induction ms arbitrary: d) (simp_all add: assms(2))
  also have "fold ?f (filter P ms) = fold ?f ns"
  proof (rule fold_multiset_equiv [OF _ assms(1)])
    show "?f x \<circ> ?f y = ?f y \<circ> ?f x" if "x \<in> set (filter P ms)" "y \<in> set (filter P ms)" for x y
    proof (rule ext)
      have "x \<in> set ns" "y \<in> set ns" using that same by blast+
      then show "(?f x \<circ> ?f y) d = (?f y \<circ> ?f x) d" for d using assms(3) [of x y d] by simp
    qed
  qed
  finally have "fold ?f ms d = fold ?f ns d" .
  moreover have "foldl f d (map filed xs) = fold ?f xs d" for xs by (induction xs arbitrary: d) simp_all
  ultimately show ?thesis by (simp add: toMembers_map)
qed

text \<open>The two decoders on a printed event.\<close>

lemma unmarshalData_event:
  assumes "plainDoc maxNestingDepth (DObj ds)"
    and "mset (filter (\<lambda>m. dataField u (fst m) \<noteq> None) ds) =
      {#(''VaultName'', DStr v), (''ObjectType'', DStr ot), (''ObjectName'', DStr n), (''Version'', DStr ver)#}"
  shows "unmarshalData u (showDoc (DObj ds)) =
    Some \<lparr>ed_VaultName = Some v, ed_ObjectType = Some ot, ed_ObjectName = Some n, ed_Version = Some ver\<rparr>"
proof -
  let ?ns = "[(''VaultName'', DStr v), (''ObjectType'', DStr ot), (''ObjectName'', DStr n), (''Version'', DStr ver)]"
  have "foldl (dataMember u) d (toMembers ds) = foldl (dataMember u) d (toMembers ?ns)" for d
  proof (rule foldl_permuted)
    show "mset (filter (\<lambda>m. dataField u (fst m) \<noteq> None) ds) = mset ?ns" using assms(2) by simp
    show "dataMember u d (filed m) = d" if "\<not> dataField u (fst m) \<noteq> None" for d m
      using that by (simp add: dataMember_def dataField_def filed_def)
    show "dataMember u (dataMember u d (filed y)) (filed x) = dataMember u (dataMember u d (filed x)) (filed y)"
      if "x \<in> set ?ns" "y \<in> set ?ns" for d x y
      using that by (auto simp: dataMember_def fieldFor_exact setStringPtr_def filed_def)
  qed
  then show ?thesis
    using parseJson_showDoc [OF assms(1)]
    by (simp add: unmarshalData_def dataMember_def fieldFor_exact setStringPtr_def)
qed

lemma unmarshalEnvelope_event:
  assumes "plainDoc maxNestingDepth (DObj ms)" and "typeKey = ''eventType'' \<or> typeKey = ''type''"
    and "mset (filter (\<lambda>m. envelopeField u (fst m) \<noteq> None) ms) = {#(''id'', DStr i), (typeKey, DStr t), (''data'', d)#}"
  shows "\<exists>e. unmarshalEnvelope u (showDoc (DObj ms)) = Some e
    \<and> ee_ID e = i \<and> ee_Data e = showDoc d \<and> (if ee_EventType e = [] then ee_Type e else ee_EventType e) = t"
proof -
  let ?ns = "[(''id'', DStr i), (typeKey, DStr t), (''data'', d)]"
  have "foldl (envelopeMember u) z (toMembers ms) = foldl (envelopeMember u) z (toMembers ?ns)" for z
  proof (rule foldl_permuted)
    show "mset (filter (\<lambda>m. envelopeField u (fst m) \<noteq> None) ms) = mset ?ns" using assms(3) by simp
    show "envelopeMember u z (filed m) = z" if "\<not> envelopeField u (fst m) \<noteq> None" for z m
      using that by (simp add: envelopeMember_def envelopeField_def filed_def)
    show "envelopeMember u (envelopeMember u z (filed y)) (filed x) = envelopeMember u (envelopeMember u z (filed x)) (filed y)"
      if "x \<in> set ?ns" "y \<in> set ?ns" for z x y
      using that assms(2) by (auto simp: envelopeMember_def fieldFor_exact setString_def filed_def)
  qed
  then show ?thesis
    using parseJson_showDoc [OF assms(1)] assms(2)
    by (auto simp: unmarshalEnvelope_def envelopeMember_def fieldFor_exact setString_def)
qed

text \<open>The two schemas side by side: the same envelope with the type under the other name.\<close>

lemma sameEnvelope_member:
  assumes "sameEnvelope d d'" and "envelopeField u (fst m) \<notin> {Some ''eventType'', Some ''type''}"
  shows "sameEnvelope (envelopeMember u d m) (envelopeMember u d' m)"
proof -
  obtain key raw v where m: "m = (key, raw, v)" by (cases m)
  show ?thesis
  proof (cases "envelopeField u key")
    case None
    then show ?thesis using assms(1) by (simp add: m envelopeMember_def envelopeField_def)
  next
    case (Some f)
    then have "f \<in> {''id'', ''data''}"
      using fieldFor_name assms(2) by (force simp: envelopeField_def m)
    then show ?thesis
      using assms(1) Some
      by (auto simp: m envelopeMember_def envelopeField_def sameEnvelope_def setString_def split: json.split)
  qed
qed

lemma sameEnvelope_members:
  "sameEnvelope d d' \<Longrightarrow> \<forall>m \<in> set ms. envelopeField u (fst m) \<notin> {Some ''eventType'', Some ''type''} \<Longrightarrow>
   sameEnvelope (foldl (envelopeMember u) d (toMembers ms)) (foldl (envelopeMember u) d' (toMembers ms))"
proof (induction ms arbitrary: d d')
  case (Cons m ms)
  have "sameEnvelope (envelopeMember u d (fst m, showDoc (snd m), toJson (snd m)))
      (envelopeMember u d' (fst m, showDoc (snd m), toJson (snd m)))"
    by (rule sameEnvelope_member) (use Cons.prems in simp_all)
  from Cons.IH [OF this] Cons.prems show ?case by (simp add: toMembers_Cons)
qed simp

lemma sameEnvelope_type:
  assumes "sameEnvelope d d"
  shows "sameEnvelope (envelopeMember u d (''eventType'', raw, v)) (envelopeMember u d (''type'', raw, v))"
proof -
  obtain i et t b failed where "d = (\<lparr>ee_ID = i, ee_EventType = et, ee_Type = t, ee_Data = b\<rparr>, failed)"
    by (metis eventEnvelope.cases surj_pair)
  with assms show ?thesis
    by (auto simp: envelopeMember_def fieldFor_exact sameEnvelope_def setString_def split: json.split)
qed

lemma Parse_event:
  assumes "carries u ms ev" and "plainDoc maxNestingDepth (DObj ms)"
  shows "Parse u (message (DObj ms)) = Inr (Some ev)"
proof -
  obtain typeKey objectType ds where key: "typeKey = ''eventType'' \<or> typeKey = ''type''"
    and ot: "EqualFold u objectType ''secret''"
    and envelope: "mset (filter (\<lambda>m. envelopeField u (fst m) \<noteq> None) ms) =
      {#(''id'', DStr (pe_ID ev)), (typeKey, DStr TypeKeyVaultSecretNewVersionCreated), (''data'', DObj ds)#}"
    and data: "mset (filter (\<lambda>m. dataField u (fst m) \<noteq> None) ds) =
      {#(''VaultName'', DStr (pe_VaultName ev)), (''ObjectType'', DStr objectType),
        (''ObjectName'', DStr (pe_SecretName ev)), (''Version'', DStr (pe_Version ev))#}"
    using assms(1) unfolding carries_def by blast
  have "(''data'', DObj ds) \<in># mset (filter (\<lambda>m. envelopeField u (fst m) \<noteq> None) ms)"
    unfolding envelope by simp
  then have "(''data'', DObj ds) \<in> set ms" by simp
  then have "plainDoc (maxNestingDepth - 1) (DObj ds)" using plainMembersD [of "maxNestingDepth - 1" ms] assms(2) by fastforce
  then have plain: "plainDoc maxNestingDepth (DObj ds)" by (rule plain_mono) simp
  obtain e where e: "unmarshalEnvelope u (showDoc (DObj ms)) = Some e" "ee_ID e = pe_ID ev" "ee_Data e = showDoc (DObj ds)"
      "(if ee_EventType e = [] then ee_Type e else ee_EventType e) = TypeKeyVaultSecretNewVersionCreated"
    using unmarshalEnvelope_event [OF assms(2) key envelope] by blast
  have "showDoc (DObj ds) \<noteq> ''null''" by simp
  then show ?thesis
    unfolding Parse_def message_decodes option.case e(1) Let_def e(3,4) trim_object
      unmarshalData_event [OF plain data]
    using ot e(2) by (simp add: derefString_def)
qed

lemmas sample_defs = eventGridSample_def cloudEventSample_def sampleData_def sampleEvent_def

lemma sample_fields:
  "map (\<lambda>k. envelopeField asciiTables k \<noteq> None) [''id'', ''topic'', ''subject'', ''eventType'', ''eventTime'', ''dataVersion'',
     ''metadataVersion'', ''data'', ''source'', ''type'', ''time'', ''specversion'', ''tags''] =
   [True, False, False, True, False, False, False, True, False, True, False, False, False]"
  "map (\<lambda>k. dataField asciiTables k \<noteq> None) [''Id'', ''VaultName'', ''ObjectType'', ''ObjectName'', ''Version'', ''NBF'', ''EXP''] =
   [False, True, True, True, True, False, False]"
  by code_simp+

lemma samples_carry:
  "carries asciiTables eventGridSample sampleEvent" "carries asciiTables cloudEventSample sampleEvent"
  "plainDoc maxNestingDepth (DObj eventGridSample)" "plainDoc maxNestingDepth (DObj cloudEventSample)"
proof -
  have "EqualFold asciiTables ''Secret'' ''secret''" by code_simp
  then show "carries asciiTables eventGridSample sampleEvent"
    using sample_fields
    by (intro carries_def [THEN iffD2] exI [of _ "''eventType''"] exI [of _ "''Secret''"]
        exI [of _ "sampleData (DStr ''1559081980'') (DStr ''1559082102'')"]) (simp add: sample_defs)
  from \<open>EqualFold asciiTables ''Secret'' ''secret''\<close> show "carries asciiTables cloudEventSample sampleEvent"
    using sample_fields
    by (intro carries_def [THEN iffD2] exI [of _ "''type''"] exI [of _ "''Secret''"]
        exI [of _ "sampleData (DNum [] ''1559081980'' [] []) (DNum [] ''1'' ''.559082102'' ''e+9'')"]) (simp add: sample_defs)
  show "plainDoc maxNestingDepth (DObj eventGridSample)" "plainDoc maxNestingDepth (DObj cloudEventSample)"
    by (simp_all add: sample_defs plainChar_def byte_def isIntPart_def isFraction_def isExponent_def digits_def digit_def)
qed

section \<open>Properties\<close>

text \<open>
  An error of \<open>Parse\<close> never echoes the message (constitution I, rule 1 of contracts/queue-message.md).
  Whatever the body, an error is one of five fixed values, each of which wraps \<open>ErrMalformedMessage\<close>: the
  text that reaches the log depends on the body only through which of the five applies.
\<close>

lemma parse_errors_fixed:
  assumes "Parse u body = Inl e"
  shows "e \<in> set parseErrors \<and> errors_Is e ErrMalformedMessage"
  using assms
  by (auto simp: Parse_def parseErrors_def malformed_def Let_def split: option.splits if_splits)

text \<open>
  (C26) What Event Grid writes is read back, in both delivery schemas. A message whose envelope has, in any
  order, one id, one event type under \<open>eventType\<close> or \<open>type\<close> and one data object with the four names, with any
  other members before, between and after them and with values of any type (NBF and EXP as strings, numbers or
  null among them), and the object type in whatever case, parses to exactly the event that was written. The
  document is printed without white space and its strings need no escape.
\<close>

theorem parse_roundtrip:
  assumes "carries u ms ev" and "plainDoc maxNestingDepth (DObj ms)"
  shows "Parse u (message (DObj ms)) = Inr (Some ev)"
  by (rule Parse_event [OF assms])

theorem parse_roundtrip_witness:
  "Parse asciiTables (message (DObj eventGridSample)) = Inr (Some sampleEvent)
   \<and> Parse asciiTables (message (DObj cloudEventSample)) = Inr (Some sampleEvent)"
  by (intro conjI parse_roundtrip samples_carry)

text \<open>
  (C27) The delivery schema does not matter. Take any printed envelope, actionable or not, with data or
  without, in which the type is the only member that names one: renaming that member from \<open>eventType\<close> to
  \<open>type\<close> changes nothing of the result of \<open>Parse\<close>, be it an event, a discard or an error.
\<close>

theorem parse_schemas_agree:
  assumes "\<forall>m \<in> set (before @ after). envelopeField u (fst m) \<notin> {Some ''eventType'', Some ''type''}"
    and "plainDoc maxNestingDepth (DObj (before @ (''eventType'', d) # after))"
  shows "Parse u (message (DObj (before @ (''eventType'', d) # after))) =
    Parse u (message (DObj (before @ (''type'', d) # after)))"
proof -
  let ?zero = "(\<lparr>ee_ID = [], ee_EventType = [], ee_Type = [], ee_Data = []\<rparr>, False)"
  let ?run = "\<lambda>key. foldl (envelopeMember u) ?zero (toMembers (before @ (key, d) # after))"
  have plain: "plainDoc maxNestingDepth (DObj (before @ (''type'', d) # after))"
    using assms(2) by (simp add: plainMembers_append plainMembers_Cons plainChar_def byte_def)
  have "sameEnvelope (foldl (envelopeMember u) ?zero (toMembers before)) (foldl (envelopeMember u) ?zero (toMembers before))"
    by (rule sameEnvelope_members) (use assms(1) in \<open>simp_all add: sameEnvelope_def\<close>)
  then have "sameEnvelope (?run ''eventType'') (?run ''type'')"
    using assms(1) by (auto simp: toMembers_append toMembers_Cons intro!: sameEnvelope_members sameEnvelope_type)
  moreover have "unmarshalEnvelope u (showDoc (DObj (before @ (key, d) # after))) =
      (if snd (?run key) then None else Some (fst (?run key)))"
    if "plainDoc maxNestingDepth (DObj (before @ (key, d) # after))" for key
    using parseJson_showDoc [OF that] by (simp add: unmarshalEnvelope_def Let_def split: prod.split)
  moreover obtain i et t b failed where
    "?run ''eventType'' = (\<lparr>ee_ID = i, ee_EventType = et, ee_Type = t, ee_Data = b\<rparr>, failed)"
    by (metis eventEnvelope.cases surj_pair)
  moreover obtain e failed' where "?run ''type'' = (e, failed')" by fastforce
  ultimately show ?thesis
    using assms(2) plain unfolding Parse_def message_decodes
    by (simp add: sameEnvelope_def Let_def split: option.split)
qed

theorem parse_schemas_agree_witness:
  "Parse asciiTables (message (DObj [(''eventType'', DStr ''Microsoft.KeyVault.SecretExpired'')])) =
   Parse asciiTables (message (DObj [(''type'', DStr ''Microsoft.KeyVault.SecretExpired'')]))"
  using parse_schemas_agree [of "[]" "[]" asciiTables "DStr ''Microsoft.KeyVault.SecretExpired''"]
  by (simp add: plainChar_def byte_def)

end
