(* ===== verification/Events_Listener.thy ===== *)
theory Events_Listener
  imports Azure_Queue Events_Parser
begin

text \<open>
  \<open>internal/events/listener.go\<close> and \<open>metrics.go\<close>: the listener polls the queue, matches each notification
  against the declarations of the cluster, sends the matching ones to the reconciler and deletes the
  message.

  What the listener calls is the record \<open>'w lenv\<close>: the queue, the cached client, the channel to the
  reconciler (a send either is accepted or loses to the cancellation of the context), the timer and
  the clock. Nothing is assumed of them. \<open>'w lsys\<close> is the process: the world behind these, the
  listener's own record, every call made with its answer, the outcome counter, the two gauges and
  the log. A gauge holds the value before its conversion to a float; the timestamp is in nanoseconds.
  The registration of the metrics, which \<open>NewListener\<close> and \<open>applyDefaults\<close> ask for and which happens once
  in a process, is part of the start-up (\<open>Operator_Main\<close>).
\<close>

section \<open>Constants and state\<close>

abbreviation DefaultBatchSize :: int where "DefaultBatchSize \<equiv> 32"
abbreviation DefaultPoisonThreshold :: int where "DefaultPoisonThreshold \<equiv> 5"
abbreviation DefaultBusyPollInterval :: duration where "DefaultBusyPollInterval \<equiv> 2 * Second"
abbreviation DefaultIdlePollInterval :: duration where "DefaultIdlePollInterval \<equiv> 30 * Second"
abbreviation DefaultQueueCallTimeout :: duration where "DefaultQueueCallTimeout \<equiv> 30 * Second"

abbreviation outcomeDispatched :: string where "outcomeDispatched \<equiv> ''dispatched''"
abbreviation outcomeUnmatched :: string where "outcomeUnmatched \<equiv> ''unmatched''"
abbreviation outcomeNonActionable :: string where "outcomeNonActionable \<equiv> ''nonactionable''"
abbreviation outcomeMalformed :: string where "outcomeMalformed \<equiv> ''malformed''"
abbreviation outcomePoison :: string where "outcomePoison \<equiv> ''poison''"

record Listener =
  li_BatchSize :: int
  li_PoisonThreshold :: int
  li_BusyPollInterval :: duration
  li_IdlePollInterval :: duration
  li_QueueCallTimeout :: duration
  li_consecutiveReceiveFailures :: int
  li_lastSuccessfulReceive :: time

definition NewListener :: Listener where
  "NewListener =
     \<lparr>li_BatchSize = DefaultBatchSize, li_PoisonThreshold = DefaultPoisonThreshold,
      li_BusyPollInterval = DefaultBusyPollInterval, li_IdlePollInterval = DefaultIdlePollInterval,
      li_QueueCallTimeout = DefaultQueueCallTimeout, li_consecutiveReceiveFailures = 0,
      li_lastSuccessfulReceive = 0\<rparr>"

text \<open>The listener runs only where the reconciler, the only reader of its channel, runs.\<close>

definition NeedLeaderElection :: "Listener \<Rightarrow> bool" where
  "NeedLeaderElection l = True"

text \<open>A call with its answer. \<open>Send\<close>: whether the channel took the object (else the context was
  cancelled); \<open>Sleep\<close>: whether the timer fired (else the context was cancelled); \<open>Cancelled\<close>: the
  answer of \<open>ctx.Err() != nil\<close>; \<open>Clock\<close>: a reading of \<open>time.Now()\<close>.\<close>

datatype lcall =
    Receive goctx int "goerr + QueueMessage list"
  | Delete goctx string string "goerr option"
  | ListAll goctx "goerr + SecretSync list"
  | Send SecretSync bool
  | Sleep duration bool
  | Cancelled bool
  | Clock time

record 'w lenv =
  le_unicode :: unicode
  le_Receive :: "goctx \<Rightarrow> int \<Rightarrow> 'w \<Rightarrow> (goerr + QueueMessage list) \<times> 'w"
  le_Delete :: "goctx \<Rightarrow> string \<Rightarrow> string \<Rightarrow> 'w \<Rightarrow> goerr option \<times> 'w"
  le_List :: "goctx \<Rightarrow> 'w \<Rightarrow> (goerr + SecretSync list) \<times> 'w"
  le_Send :: "SecretSync \<Rightarrow> 'w \<Rightarrow> bool \<times> 'w"
  le_Sleep :: "duration \<Rightarrow> 'w \<Rightarrow> bool \<times> 'w"
  le_Cancelled :: "'w \<Rightarrow> bool \<times> 'w"
  le_Now :: "'w \<Rightarrow> time \<times> 'w"

record 'w lsys =
  ls_world :: 'w
  ls_listener :: Listener
  ls_calls :: "lcall list"
  ls_outcomes :: "string \<Rightarrow> nat"
  ls_failuresGauge :: int
  ls_lastReceiveGauge :: int
  ls_logs :: "logline list"

definition performL :: "('r \<Rightarrow> lcall) \<Rightarrow> ('w \<Rightarrow> 'r \<times> 'w) \<Rightarrow> ('w lsys, 'r) state" where
  "performL c f =
     State (\<lambda>s. case f (ls_world s) of
        (r, w') \<Rightarrow> (r, s\<lparr>ls_world := w', ls_calls := ls_calls s @ [c r]\<rparr>))"

definition logL :: "loglevel \<Rightarrow> string \<Rightarrow> (string \<times> logval) list \<Rightarrow> ('w lsys, unit) state" where
  "logL lvl msg kv =
     modify (\<lambda>s. s\<lparr>ls_logs := ls_logs s @ [\<lparr>log_Level = lvl, log_Msg = msg, log_KV = kv\<rparr>]\<rparr>)"

section \<open>Metric descriptors\<close>

definition queueLastSuccessfulReceiveTimestamp :: metricDesc where
  "queueLastSuccessfulReceiveTimestamp = \<lparr>md_Name = ''kvsynk8s_queue_last_successful_receive_timestamp_seconds'',
     md_Help = ''Unix timestamp of the last successful Storage Queue Receive call ''
       @ ''(including empty receives). 0 until the first success after startup. ''
       @ ''A stale value means the operator cannot reach the queue; periodic ''
       @ ''reconciliation still converges secrets, only near-realtime propagation ''
       @ ''is degraded.'',
     md_Labels = []\<rparr>"

definition queueConsecutiveReceiveFailures :: metricDesc where
  "queueConsecutiveReceiveFailures = \<lparr>md_Name = ''kvsynk8s_queue_consecutive_receive_failures'',
     md_Help = ''Number of consecutive failed Storage Queue Receive calls. Reset to 0 ''
       @ ''by every successful receive. A persistently growing value means the ''
       @ ''queue-notification path is down (network, auth, or queue configuration); ''
       @ ''secrets still converge via periodic reconciliation.'',
     md_Labels = []\<rparr>"

abbreviation queueMessagesMetric :: string where "queueMessagesMetric \<equiv> ''kvsynk8s_queue_messages_total''"

definition queueMessagesTotal :: metricDesc where
  "queueMessagesTotal = \<lparr>md_Name = queueMessagesMetric,
     md_Help = ''Queue messages handled, by outcome: dispatched (matched at least one ''
       @ ''SecretSync and triggered a reconcile), unmatched (no SecretSync declares ''
       @ ''that vault secret; expected traffic when the Event Grid subscription covers ''
       @ ''a whole vault), nonactionable (an event type this operator ignores), ''
       @ ''malformed (undecodable body), poison (exceeded the dequeue threshold and ''
       @ ''was dropped unparsed).'',
     md_Labels = [''outcome'']\<rparr>"

section \<open>Health and outcomes\<close>

definition recordReceiveSuccess :: "time \<Rightarrow> ('w lsys, unit) state" where
  "recordReceiveSuccess t =
     modify (\<lambda>s. s\<lparr>ls_listener := (ls_listener s)\<lparr>li_consecutiveReceiveFailures := 0,
         li_lastSuccessfulReceive := t\<rparr>,
       ls_failuresGauge := 0, ls_lastReceiveGauge := t\<rparr>)"

definition recordReceiveFailure :: "('w lsys, unit) state" where
  "recordReceiveFailure =
     modify (\<lambda>s. let n = li_consecutiveReceiveFailures (ls_listener s) + 1 in
       s\<lparr>ls_listener := (ls_listener s)\<lparr>li_consecutiveReceiveFailures := n\<rparr>, ls_failuresGauge := n\<rparr>)"

definition recordMessageOutcome :: "string \<Rightarrow> ('w lsys, unit) state" where
  "recordMessageOutcome outcome =
     modify (\<lambda>s. s\<lparr>ls_outcomes := (ls_outcomes s)(outcome := Suc (ls_outcomes s outcome))\<rparr>)"

section \<open>Handling one message\<close>

definition applyDefaults :: "Listener \<Rightarrow> Listener" where
  "applyDefaults l =
     (let l = (if li_BatchSize l = 0 then l\<lparr>li_BatchSize := DefaultBatchSize\<rparr> else l);
          l = (if li_PoisonThreshold l = 0 then l\<lparr>li_PoisonThreshold := DefaultPoisonThreshold\<rparr> else l);
          l = (if li_BusyPollInterval l = 0 then l\<lparr>li_BusyPollInterval := DefaultBusyPollInterval\<rparr> else l);
          l = (if li_IdlePollInterval l = 0 then l\<lparr>li_IdlePollInterval := DefaultIdlePollInterval\<rparr> else l) in
      if li_QueueCallTimeout l = 0 then l\<lparr>li_QueueCallTimeout := DefaultQueueCallTimeout\<rparr> else l)"

definition queueCallContext :: "Listener \<Rightarrow> goctx \<Rightarrow> goctx" where
  "queueCallContext l ctx =
     (if li_QueueCallTimeout l \<le> 0 then WithCancel ctx else WithTimeout ctx (li_QueueCallTimeout l))"

definition deleteMessage :: "'w lenv \<Rightarrow> goctx \<Rightarrow> QueueMessage \<Rightarrow> ('w lsys, unit) state" where
  "deleteMessage E ctx m =
     do {
       l \<leftarrow> gets ls_listener;
       let delCtx = queueCallContext l ctx;
       r \<leftarrow> performL (Delete delCtx (qm_ID m) (qm_PopReceipt m)) (le_Delete E delCtx (qm_ID m) (qm_PopReceipt m));
       (case r of
          None \<Rightarrow> State_Monad.return ()
        | Some err \<Rightarrow> logL (LError (Some err)) ''failed to delete queue message'' [(''messageID'', LStr (qm_ID m))])
     }"

definition matchesEvent :: "unicode \<Rightarrow> ParsedEvent \<Rightarrow> SecretSync \<Rightarrow> bool" where
  "matchesEvent u parsed ss \<longleftrightarrow>
     EqualFold u (vault_Name (spec_Vault (ss_Spec ss))) (pe_VaultName parsed)
     \<and> EqualFold u (vault_Secret (spec_Vault (ss_Spec ss))) (pe_SecretName parsed)"

definition matchingSecretSyncs ::
    "'w lenv \<Rightarrow> goctx \<Rightarrow> ParsedEvent \<Rightarrow> ('w lsys, goerr + SecretSync list) state" where
  "matchingSecretSyncs E ctx parsed =
     do {
       r \<leftarrow> performL (ListAll ctx) (le_List E ctx);
       State_Monad.return (case r of
          Inl err \<Rightarrow> Inl err
        | Inr items \<Rightarrow> Inr (filter (matchesEvent (le_unicode E) parsed) items))
     }"

text \<open>The loop over the matches; \<open>False\<close> when the context was cancelled before the last was sent.\<close>

fun dispatch :: "'w lenv \<Rightarrow> SecretSync list \<Rightarrow> ('w lsys, bool) state" where
  "dispatch E [] = State_Monad.return True"
| "dispatch E (x # xs) =
     do {
       sent \<leftarrow> performL (Send x) (le_Send E x);
       if sent then dispatch E xs else State_Monad.return False
     }"

text \<open>\<open>err.Error()\<close> of an error of \<open>Parse\<close>, whose node carries its whole text.\<close>

fun errorText :: "goerr \<Rightarrow> string" where
  "errorText (Err (KErrorf t) es) = t"
| "errorText e = []"

definition handleMessage :: "'w lenv \<Rightarrow> goctx \<Rightarrow> QueueMessage \<Rightarrow> ('w lsys, unit) state" where
  "handleMessage E ctx m =
     do {
       l \<leftarrow> gets ls_listener;
       if qm_DequeueCount m > li_PoisonThreshold l then do {
         logL LInfo ''discarding poison message''
           [(''messageID'', LStr (qm_ID m)), (''dequeueCount'', LInt (qm_DequeueCount m))];
         recordMessageOutcome outcomePoison;
         deleteMessage E ctx m
       }
       else (case Parse (le_unicode E) (qm_Text m) of
          Inl err \<Rightarrow> do {
            logL LInfo ''discarding malformed message''
              [(''messageID'', LStr (qm_ID m)), (''dequeueCount'', LInt (qm_DequeueCount m)),
               (''reason'', LStr (errorText err))];
            recordMessageOutcome outcomeMalformed;
            deleteMessage E ctx m
          }
        | Inr None \<Rightarrow> do {
            logL LV1 ''discarding non-actionable event'' [(''messageID'', LStr (qm_ID m))];
            recordMessageOutcome outcomeNonActionable;
            deleteMessage E ctx m
          }
        | Inr (Some parsed) \<Rightarrow> do {
            r \<leftarrow> matchingSecretSyncs E ctx parsed;
            (case r of
               Inl err \<Rightarrow>
                 logL (LError (Some err)) ''failed to list SecretSyncs for event''
                   [(''messageID'', LStr (qm_ID m)), (''eventID'', LStr (pe_ID parsed))]
             | Inr matches \<Rightarrow>
                 if matches = [] then do {
                   logL LV1 ''discarding unmatched event''
                     [(''messageID'', LStr (qm_ID m)), (''eventID'', LStr (pe_ID parsed)),
                      (''vault'', LStr (pe_VaultName parsed)), (''secret'', LStr (pe_SecretName parsed))];
                   recordMessageOutcome outcomeUnmatched;
                   deleteMessage E ctx m
                 }
                 else do {
                   sent \<leftarrow> dispatch E matches;
                   if \<not> sent then State_Monad.return ()
                   else do {
                     logL LInfo ''dispatched reconcile requests for event''
                       [(''messageID'', LStr (qm_ID m)), (''eventID'', LStr (pe_ID parsed)),
                        (''vault'', LStr (pe_VaultName parsed)), (''secret'', LStr (pe_SecretName parsed)),
                        (''version'', LStr (pe_Version parsed)), (''matches'', LInt (int (length matches)))];
                     recordMessageOutcome outcomeDispatched;
                     deleteMessage E ctx m
                   }
                 })
          })
     }"

section \<open>Polling\<close>

fun handleAll :: "'w lenv \<Rightarrow> goctx \<Rightarrow> QueueMessage list \<Rightarrow> ('w lsys, unit) state" where
  "handleAll E ctx [] = State_Monad.return ()"
| "handleAll E ctx (m # ms) = do { handleMessage E ctx m; handleAll E ctx ms }"

definition pollOnce :: "'w lenv \<Rightarrow> goctx \<Rightarrow> ('w lsys, goerr + nat) state" where
  "pollOnce E ctx =
     do {
       l \<leftarrow> gets ls_listener;
       let recvCtx = queueCallContext l ctx;
       r \<leftarrow> performL (Receive recvCtx (li_BatchSize l)) (le_Receive E recvCtx (li_BatchSize l));
       (case r of
          Inl err \<Rightarrow> do { recordReceiveFailure; State_Monad.return (Inl err) }
        | Inr msgs \<Rightarrow> do {
            t \<leftarrow> performL Clock (le_Now E);
            recordReceiveSuccess t;
            handleAll E ctx msgs;
            State_Monad.return (Inr (length msgs))
          })
     }"

definition sleepOrDone :: "'w lenv \<Rightarrow> duration \<Rightarrow> ('w lsys, bool) state" where
  "sleepOrDone E d = performL (Sleep d) (le_Sleep E d)"

text \<open>One turn of the loop of \<open>Start\<close>: \<open>False\<close> when \<open>Start\<close> returns.\<close>

definition pollTurn :: "'w lenv \<Rightarrow> goctx \<Rightarrow> ('w lsys, bool) state" where
  "pollTurn E ctx =
     do {
       cancelled \<leftarrow> performL Cancelled (le_Cancelled E);
       if cancelled then State_Monad.return False
       else do {
         r \<leftarrow> pollOnce E ctx;
         l \<leftarrow> gets ls_listener;
         (case r of
            Inl err \<Rightarrow> do {
              logL (LError (Some err)) ''failed to receive queue messages'' [];
              sleepOrDone E (li_IdlePollInterval l)
            }
          | Inr n \<Rightarrow> sleepOrDone E (if n > 0 then li_BusyPollInterval l else li_IdlePollInterval l))
       }
     }"

text \<open>The loop, which may run forever: \<open>None\<close> when it does, else the state in which \<open>Start\<close> returns nil.\<close>

partial_function (option) pollLoop :: "'w lenv \<Rightarrow> goctx \<Rightarrow> 'w lsys \<Rightarrow> 'w lsys option" where
  "pollLoop E ctx s =
     (case run_state (pollTurn E ctx) s of
        (again, s') \<Rightarrow> if again then pollLoop E ctx s' else Some s')"

definition Start :: "'w lenv \<Rightarrow> goctx \<Rightarrow> 'w lsys \<Rightarrow> 'w lsys option" where
  "Start E ctx s = pollLoop E ctx (s\<lparr>ls_listener := applyDefaults (ls_listener s)\<rparr>)"

end
