(* ===== verification/Listener_Rules.thy ===== *)
theory Listener_Rules
  imports Events_Listener
begin

text \<open>
  What the listener guarantees. \<open>messageRules\<close> states the processing rules of
  \<open>contracts/queue-message.md\<close> as a relation between a message and the calls made for it, and
  \<open>handleMessage\<close> refines it; the locale \<open>loop_invariant\<close> carries what one turn of the loop keeps through
  the whole run of \<open>Start\<close>, and is interpreted for the health gauges, for the time limits and for the pauses between polls.
\<close>

section \<open>The processing rules\<close>

text \<open>
  The contract of one message: the calls made for it, in order, and the outcome counted, if any. A
  message is deleted exactly when an outcome is counted, and after everything else.
\<close>

abbreviation deleteOf :: "Listener \<Rightarrow> goctx \<Rightarrow> QueueMessage \<Rightarrow> goerr option \<Rightarrow> lcall" where
  "deleteOf l ctx m r \<equiv> Delete (queueCallContext l ctx) (qm_ID m) (qm_PopReceipt m) r"

inductive messageRules ::
    "unicode \<Rightarrow> Listener \<Rightarrow> goctx \<Rightarrow> QueueMessage \<Rightarrow> lcall list \<Rightarrow> string option \<Rightarrow> bool"
  for u l ctx m where
  poison: "qm_DequeueCount m > li_PoisonThreshold l \<Longrightarrow>
    messageRules u l ctx m [deleteOf l ctx m r] (Some outcomePoison)"
| malformed: "qm_DequeueCount m \<le> li_PoisonThreshold l \<Longrightarrow> Parse u (qm_Text m) = Inl e \<Longrightarrow>
    messageRules u l ctx m [deleteOf l ctx m r] (Some outcomeMalformed)"
| nonActionable: "qm_DequeueCount m \<le> li_PoisonThreshold l \<Longrightarrow> Parse u (qm_Text m) = Inr None \<Longrightarrow>
    messageRules u l ctx m [deleteOf l ctx m r] (Some outcomeNonActionable)"
| listFailed: "qm_DequeueCount m \<le> li_PoisonThreshold l \<Longrightarrow> Parse u (qm_Text m) = Inr (Some ev) \<Longrightarrow>
    messageRules u l ctx m [ListAll ctx (Inl e)] None"
| unmatched: "qm_DequeueCount m \<le> li_PoisonThreshold l \<Longrightarrow> Parse u (qm_Text m) = Inr (Some ev) \<Longrightarrow>
    filter (matchesEvent u ev) items = [] \<Longrightarrow>
    messageRules u l ctx m [ListAll ctx (Inr items), deleteOf l ctx m r] (Some outcomeUnmatched)"
| dispatched: "qm_DequeueCount m \<le> li_PoisonThreshold l \<Longrightarrow> Parse u (qm_Text m) = Inr (Some ev) \<Longrightarrow>
    filter (matchesEvent u ev) items \<noteq> [] \<Longrightarrow>
    messageRules u l ctx m
      (ListAll ctx (Inr items) # map (\<lambda>x. Send x True) (filter (matchesEvent u ev) items)
         @ [deleteOf l ctx m r]) (Some outcomeDispatched)"
| cancelled: "qm_DequeueCount m \<le> li_PoisonThreshold l \<Longrightarrow> Parse u (qm_Text m) = Inr (Some ev) \<Longrightarrow>
    filter (matchesEvent u ev) items = sent @ x # rest \<Longrightarrow>
    messageRules u l ctx m
      (ListAll ctx (Inr items) # map (\<lambda>x. Send x True) sent @ [Send x False]) None"

text \<open>From \<open>s\<close> to \<open>s'\<close> exactly the calls \<open>cs\<close> were made and only the outcome \<open>out\<close> was counted; the
  listener's record and the gauges are untouched.\<close>

definition countOutcome :: "string option \<Rightarrow> (string \<Rightarrow> nat) \<Rightarrow> string \<Rightarrow> nat" where
  "countOutcome out f = (case out of None \<Rightarrow> f | Some k \<Rightarrow> f(k := Suc (f k)))"

definition made :: "'w lsys \<Rightarrow> lcall list \<Rightarrow> string option \<Rightarrow> 'w lsys \<Rightarrow> bool" where
  "made s cs out s' \<longleftrightarrow>
     ls_calls s' = ls_calls s @ cs \<and> ls_outcomes s' = countOutcome out (ls_outcomes s)
     \<and> ls_listener s' = ls_listener s \<and> ls_failuresGauge s' = ls_failuresGauge s
     \<and> ls_lastReceiveGauge s' = ls_lastReceiveGauge s"

fun isDelete :: "lcall \<Rightarrow> bool" where
  "isDelete (Delete _ _ _ _) = True"
| "isDelete _ = False"

text \<open>The states the loop of \<open>Start\<close> goes through.\<close>

inductive polls :: "'w lenv \<Rightarrow> goctx \<Rightarrow> 'w lsys \<Rightarrow> 'w lsys \<Rightarrow> bool" for E ctx s0 where
  start: "polls E ctx s0 s0"
| turn: "polls E ctx s0 s \<Longrightarrow> run_state (pollTurn E ctx) s = (again, s') \<Longrightarrow> polls E ctx s0 s'"

text \<open>The failed receives since the last successful one.\<close>

fun failuresSince :: "int \<Rightarrow> lcall list \<Rightarrow> int" where
  "failuresSince n [] = n"
| "failuresSince n (Receive _ _ (Inl _) # cs) = failuresSince (n + 1) cs"
| "failuresSince n (Receive _ _ (Inr _) # cs) = failuresSince 0 cs"
| "failuresSince n (_ # cs) = failuresSince n cs"

text \<open>The clock reading taken right after the last successful receive.\<close>

fun lastReceived :: "time \<Rightarrow> lcall list \<Rightarrow> time" where
  "lastReceived t (Receive _ _ (Inr _) # Clock t' # cs) = lastReceived t' cs"
| "lastReceived t (_ # cs) = lastReceived t cs"
| "lastReceived t [] = t"

definition healthy :: "'w lsys \<Rightarrow> bool" where
  "healthy s \<longleftrightarrow>
     li_consecutiveReceiveFailures (ls_listener s) = failuresSince 0 (ls_calls s)
     \<and> ls_failuresGauge s = failuresSince 0 (ls_calls s)
     \<and> li_lastSuccessfulReceive (ls_listener s) = lastReceived 0 (ls_calls s)
     \<and> ls_lastReceiveGauge s = lastReceived 0 (ls_calls s)"

text \<open>A queue call whose context ends within the time \<open>d\<close>.\<close>

fun withinTime :: "duration \<Rightarrow> lcall \<Rightarrow> bool" where
  "withinTime d (Receive ctx _ _) = (\<exists>b. ctx_budget ctx = Some b \<and> b \<le> d)"
| "withinTime d (Delete ctx _ _ _) = (\<exists>b. ctx_budget ctx = Some b \<and> b \<le> d)"
| "withinTime d _ = True"

text \<open>The pauses: after a receive with messages the busy interval, after an empty or a failed one the idle
  interval.\<close>

fun receivedSome :: "bool \<Rightarrow> lcall \<Rightarrow> bool" where
  "receivedSome b (Receive _ _ (Inr msgs)) = (msgs \<noteq> [])"
| "receivedSome b (Receive _ _ (Inl _)) = False"
| "receivedSome b _ = b"

fun waits :: "Listener \<Rightarrow> bool \<Rightarrow> lcall list \<Rightarrow> bool" where
  "waits l busy [] = True"
| "waits l busy (c # cs) =
     ((case c of Sleep d _ \<Rightarrow> d = (if busy then li_BusyPollInterval l else li_IdlePollInterval l) | _ \<Rightarrow> True)
      \<and> waits l (receivedSome busy c) cs)"

text \<open>A call that is neither a poll nor a pause.\<close>

fun handling :: "lcall \<Rightarrow> bool" where
  "handling (Delete _ _ _ _) = True"
| "handling (ListAll _ _) = True"
| "handling (Send _ _) = True"
| "handling _ = False"

text \<open>The listener's settings, which no poll changes.\<close>

definition settings :: "Listener \<Rightarrow> Listener" where
  "settings l = l\<lparr>li_consecutiveReceiveFailures := 0, li_lastSuccessfulReceive := 0\<rparr>"

text \<open>The settings are those of \<open>l\<close>, and every queue call so far was bounded by its timeout.\<close>

definition timely :: "Listener \<Rightarrow> 'w lsys \<Rightarrow> bool" where
  "timely l s \<longleftrightarrow>
     settings (ls_listener s) = settings l \<and> 0 < li_QueueCallTimeout l
     \<and> list_all (withinTime (li_QueueCallTimeout l)) (ls_calls s)"

definition paced :: "Listener \<Rightarrow> 'w lsys \<Rightarrow> bool" where
  "paced l s \<longleftrightarrow> settings (ls_listener s) = settings l \<and> waits l False (ls_calls s)"

definition freshListener :: "Listener \<Rightarrow> 'w \<Rightarrow> 'w lsys" where
  "freshListener l w =
     \<lparr>ls_world = w, ls_listener = settings l, ls_calls = [], ls_outcomes = (\<lambda>_. 0), ls_failuresGauge = 0,
      ls_lastReceiveGauge = 0, ls_logs = []\<rparr>"

text \<open>The context of \<open>Start\<close> is cancelled in the end: \<open>left\<close> bounds the sleeps that can still pass, no
  other call adds to it.\<close>

definition cancelledWithin :: "'w lenv \<Rightarrow> ('w \<Rightarrow> nat) \<Rightarrow> bool" where
  "cancelledWithin E left \<longleftrightarrow>
     (\<forall>d w w'. le_Sleep E d w = (True, w') \<longrightarrow> left w' < left w)
     \<and> (\<forall>ctx n w. left (snd (le_Receive E ctx n w)) \<le> left w)
     \<and> (\<forall>ctx i p w. left (snd (le_Delete E ctx i p w)) \<le> left w)
     \<and> (\<forall>ctx w. left (snd (le_List E ctx w)) \<le> left w)
     \<and> (\<forall>x w. left (snd (le_Send E x w)) \<le> left w)
     \<and> (\<forall>w. left (snd (le_Cancelled E w)) \<le> left w)
     \<and> (\<forall>w. left (snd (le_Now E w)) \<le> left w)"

text \<open>An effect that does not add to \<open>left\<close>.\<close>

definition noLater :: "('w \<Rightarrow> nat) \<Rightarrow> ('w lsys, 'a) state \<Rightarrow> bool" where
  "noLater left m \<longleftrightarrow> (\<forall>s. left (ls_world (snd (run_state m s))) \<le> left (ls_world s))"

text \<open>A name as Key Vault compares it.\<close>

definition lowered :: "string \<Rightarrow> nat list" where
  "lowered s = map (\<lambda>c. lowerByte (byte c)) s"

text \<open>A world for the examples: a queue of batches, a list of declarations, a number of sleeps until the
  context is cancelled.\<close>

record demoWorld =
  dw_Batches :: "(goerr + QueueMessage list) list"
  dw_Syncs :: "SecretSync list"
  dw_Sleeps :: nat

definition demoListenerEnv :: "demoWorld lenv" where
  "demoListenerEnv =
     \<lparr>le_unicode = asciiTables,
      le_Receive = (\<lambda>ctx n w. case dw_Batches w of [] \<Rightarrow> (Inr [], w) | b # bs \<Rightarrow> (b, w\<lparr>dw_Batches := bs\<rparr>)),
      le_Delete = (\<lambda>ctx i p w. (None, w)),
      le_List = (\<lambda>ctx w. (Inr (dw_Syncs w), w)),
      le_Send = (\<lambda>x w. (True, w)),
      le_Sleep = (\<lambda>d w. (0 < dw_Sleeps w, w\<lparr>dw_Sleeps := dw_Sleeps w - 1\<rparr>)),
      le_Cancelled = (\<lambda>w. (dw_Sleeps w = 0, w)),
      le_Now = (\<lambda>w. (1000, w))\<rparr>"

definition demoDeclaration :: SecretSync where
  "demoDeclaration =
     \<lparr>ss_Meta = zeroObjectMeta,
      ss_Spec = \<lparr>spec_Vault = \<lparr>vault_Name = ''KV-prod'', vault_Secret = ''db-password''\<rparr>,
        spec_Target = \<lparr>target_SecretName = [], target_DataKey = []\<rparr>\<rparr>,
      ss_Status = zeroStatus\<rparr>"

definition demoEvent :: ParsedEvent where
  "demoEvent = \<lparr>pe_ID = ''e1'', pe_VaultName = ''kv-prod'', pe_SecretName = ''DB-password'', pe_Version = ''7''\<rparr>"

definition demoData :: "(string \<times> jdoc) list" where
  "demoData =
     [(''Id'', DStr ''https://kv-prod.vault.azure.net/secrets/DB-password/7''), (''VaultName'', DStr ''kv-prod''),
      (''ObjectType'', DStr ''Secret''), (''ObjectName'', DStr ''DB-password''), (''Version'', DStr ''7''),
      (''NBF'', DNum [] ''1559081980'' [] []), (''EXP'', DNull)]"

definition demoDocument :: "(string \<times> jdoc) list" where
  "demoDocument =
     [(''source'', DStr ''/subscriptions''), (''id'', DStr ''e1''), (''subject'', DStr ''DB-password''),
      (''data'', DObj demoData), (''type'', DStr TypeKeyVaultSecretNewVersionCreated), (''specversion'', DStr ''1.0'')]"

definition demoMessage :: QueueMessage where
  "demoMessage =
     \<lparr>qm_ID = ''1'', qm_PopReceipt = ''p'', qm_Text = message (DObj demoDocument), qm_DequeueCount = 1\<rparr>"

definition demoListening :: "demoWorld lsys" where
  "demoListening = freshListener NewListener \<lparr>dw_Batches = [], dw_Syncs = [demoDeclaration], dw_Sleeps = 0\<rparr>"

text \<open>A queue that holds one message, and one that answers once and then fails.\<close>

definition demoBusy :: "demoWorld lsys" where
  "demoBusy = freshListener NewListener \<lparr>dw_Batches = [Inr [demoMessage]], dw_Syncs = [demoDeclaration], dw_Sleeps = 0\<rparr>"

definition demoOutage :: "demoWorld lsys" where
  "demoOutage = freshListener NewListener
     \<lparr>dw_Batches = [Inr [], Inl (errors_New ''down'')], dw_Syncs = [], dw_Sleeps = 3\<rparr>"

text \<open>The listener over the storage queue: its queue is the source of \<open>Azure_Queue\<close> on the client \<open>Q\<close>.\<close>

definition listenOn :: "'w queueEnv \<Rightarrow> 'w lenv \<Rightarrow> 'w lenv" where
  "listenOn Q E = E\<lparr>le_Receive := Receive_queue Q, le_Delete := Delete_queue Q\<rparr>"

text \<open>A client that cannot reach the queue at a URL with the given query, and a listener that is stopped in its
  first pause.\<close>

definition transportError :: "string \<Rightarrow> goerr" where
  "transportError q =
     Err (KExternal False ''do request'') [Err (KURLError ''Get'' (''https://q.example.net/events'' @ ''?'' @ q)) []]"

definition unreachable :: "string \<Rightarrow> unit queueEnv" where
  "unreachable q =
     \<lparr>qe_lit = (\<lambda>_. None), qe_DequeueMessages = (\<lambda>ctx n v. (Inl (transportError q), v)),
      qe_DeleteMessage = (\<lambda>ctx i p v. (Some (transportError q), v))\<rparr>"

definition stoppedEnv :: "unit lenv" where
  "stoppedEnv =
     \<lparr>le_unicode = asciiTables, le_Receive = (\<lambda>ctx n w. (Inr [], w)), le_Delete = (\<lambda>ctx i p w. (None, w)),
      le_List = (\<lambda>ctx w. (Inr [], w)), le_Send = (\<lambda>x w. (True, w)), le_Sleep = (\<lambda>d w. (False, w)),
      le_Cancelled = (\<lambda>w. (False, w)), le_Now = (\<lambda>w. (1000, w))\<rparr>"

section \<open>Invariants of the loop\<close>

text \<open>What one turn keeps holds in every state the loop goes through and when it returns.\<close>

locale loop_invariant =
  fixes E :: "'w lenv" and ctx :: goctx and inv :: "'w lsys \<Rightarrow> bool"
  assumes turn_keeps: "inv s \<Longrightarrow> run_state (pollTurn E ctx) s = (again, s') \<Longrightarrow> inv s'"
begin

lemma always: "polls E ctx s0 s \<Longrightarrow> inv s0 \<Longrightarrow> inv s"
  by (induction rule: polls.induct) (auto intro: turn_keeps)

end

section \<open>Lemmas\<close>

lemma run_performL:
  "run_state (performL c f) s = (r, s') \<Longrightarrow>
   \<exists>w'. f (ls_world s) = (r, w') \<and> s' = s\<lparr>ls_world := w', ls_calls := ls_calls s @ [c r]\<rparr>"
  by (auto simp: performL_def split: prod.splits)

lemma made_refl: "made s [] None s"
  by (simp add: made_def countOutcome_def)

lemma made_trans: "made s cs None s1 \<Longrightarrow> made s1 cs' out s' \<Longrightarrow> made s (cs @ cs') out s'"
  by (auto simp: made_def countOutcome_def)

lemma made_performL: "run_state (performL c f) s = (r, s') \<Longrightarrow> made s [c r] None s'"
  by (auto dest!: run_performL simp: made_def countOutcome_def)

text \<open>A discard: the outcome, then the deletion.\<close>

lemma made_discard:
  "\<exists>r. made s [deleteOf (ls_listener s) ctx m r] (Some k)
     (snd (run_state (do { logL lvl msg kv; recordMessageOutcome k; deleteMessage E ctx m }) s))"
  by (auto simp: deleteMessage_def recordMessageOutcome_def performL_def logL_def made_def countOutcome_def
      Let_def split: prod.split option.split)

lemma made_dispatch:
  assumes "run_state (dispatch E xs) s = (all, s')"
  shows "(all \<and> made s (map (\<lambda>x. Send x True) xs) None s')
    \<or> (\<not> all \<and> (\<exists>sent x rest. xs = sent @ x # rest \<and> made s (map (\<lambda>x. Send x True) sent @ [Send x False]) None s'))"
  using assms
proof (induction xs arbitrary: s)
  case Nil
  then show ?case by (simp add: made_refl)
next
  case (Cons x xs)
  obtain sent s1 where send: "run_state (performL (Send x) (le_Send E x)) s = (sent, s1)" by fastforce
  note m = made_performL [OF send]
  show ?case
  proof (cases sent)
    case False
    with Cons.prems send have "\<not> all" "s' = s1" by simp_all
    with m False show ?thesis by (intro disjI2 conjI exI [of _ "[]"]) auto
  next
    case True
    with Cons.prems send have "run_state (dispatch E xs) s1 = (all, s')" by simp
    from Cons.IH [OF this] show ?thesis
    proof (elim disjE conjE exE)
      assume "made s1 (map (\<lambda>x. Send x True) xs) None s'" "all"
      with made_trans [OF m this(1)] True show ?thesis by simp
    next
      fix sent' y rest
      assume "\<not> all" "xs = sent' @ y # rest" "made s1 (map (\<lambda>x. Send x True) sent' @ [Send y False]) None s'"
      with made_trans [OF m this(3)] True show ?thesis
        by (intro disjI2 conjI exI [of _ "x # sent'"] exI [of _ y] exI [of _ rest]) auto
    qed
  qed
qed

lemma made_logged: "made s cs out (snd (run_state (logL lvl msg kv) s1)) \<longleftrightarrow> made s cs out s1"
  by (simp add: made_def logL_def)

text \<open>The case of an event, after the listing.\<close>

lemma handleMessage_event:
  assumes fresh: "qm_DequeueCount m \<le> li_PoisonThreshold (ls_listener s)"
    and ev: "Parse (le_unicode E) (qm_Text m) = Inr (Some ev)"
  shows "\<exists>cs out. made s cs out (snd (run_state (handleMessage E ctx m) s))
     \<and> messageRules (le_unicode E) (ls_listener s) ctx m cs out"
proof -
  obtain r s1 where list: "run_state (performL (ListAll ctx) (le_List E ctx)) s = (r, s1)" by fastforce
  note listed = made_performL [OF list]
  then have l: "ls_listener s1 = ls_listener s" by (simp add: made_def)
  show ?thesis
  proof (cases r)
    case (Inl e)
    with fresh ev list have "snd (run_state (handleMessage E ctx m) s) =
        snd (run_state (logL (LError (Some e)) ''failed to list SecretSyncs for event''
          [(''messageID'', LStr (qm_ID m)), (''eventID'', LStr (pe_ID ev))]) s1)"
      by (simp add: handleMessage_def matchingSecretSyncs_def)
    with listed Inl messageRules.listFailed [OF fresh ev] show ?thesis by (auto simp: made_logged)
  next
    case (Inr items)
    let ?ms = "filter (matchesEvent (le_unicode E) ev) items"
    show ?thesis
    proof (cases "?ms = []")
      case True
      obtain d where "made s1 [deleteOf (ls_listener s1) ctx m d] (Some outcomeUnmatched)
          (snd (run_state (handleMessage E ctx m) s))"
        using made_discard [of s1 ctx m outcomeUnmatched LV1 "''discarding unmatched event''" _ E] fresh ev list Inr True
        by (simp add: handleMessage_def matchingSecretSyncs_def) blast
      from made_trans [OF listed this] messageRules.unmatched [OF fresh ev True, of ctx d] Inr l
      show ?thesis by auto
    next
      case False
      obtain all s2 where sends: "run_state (dispatch E ?ms) s1 = (all, s2)" by fastforce
      from made_dispatch [OF this] show ?thesis
      proof (elim disjE conjE exE)
        assume all: "all" and sent: "made s1 (map (\<lambda>x. Send x True) ?ms) None s2"
        then have l2: "ls_listener s2 = ls_listener s" using l by (simp add: made_def)
        obtain d where "made s2 [deleteOf (ls_listener s2) ctx m d] (Some outcomeDispatched)
            (snd (run_state (handleMessage E ctx m) s))"
          using made_discard [of s2 ctx m outcomeDispatched LInfo "''dispatched reconcile requests for event''" _ E]
            fresh ev list Inr False sends all by (simp add: handleMessage_def matchingSecretSyncs_def) blast
        from made_trans [OF listed made_trans [OF sent this]] messageRules.dispatched [OF fresh ev False, of ctx d]
          Inr l2 show ?thesis by auto
      next
        fix sent x rest
        assume "\<not> all" "?ms = sent @ x # rest" and made: "made s1 (map (\<lambda>x. Send x True) sent @ [Send x False]) None s2"
        with fresh ev list Inr False sends have "snd (run_state (handleMessage E ctx m) s) = s2"
          by (simp add: handleMessage_def matchingSecretSyncs_def)
        with made_trans [OF listed made] messageRules.cancelled [OF fresh ev \<open>?ms = sent @ x # rest\<close>, of ctx] Inr
        show ?thesis by auto
      qed
    qed
  qed
qed

text \<open>The refinement: what \<open>handleMessage\<close> does for a message follows the rules.\<close>

lemma handleMessage_rules:
  "\<exists>cs out. made s cs out (snd (run_state (handleMessage E ctx m) s))
     \<and> messageRules (le_unicode E) (ls_listener s) ctx m cs out"
proof (cases "qm_DequeueCount m > li_PoisonThreshold (ls_listener s)")
  case True
  with made_discard show ?thesis
    by (fastforce simp: handleMessage_def intro: messageRules.poison)
next
  case fresh: False
  note discard = made_discard [of s ctx m _ _ _ _ E]
  show ?thesis
  proof (cases "Parse (le_unicode E) (qm_Text m)")
    case (Inl e)
    with fresh discard show ?thesis
      by (fastforce simp: handleMessage_def intro: messageRules.malformed)
  next
    case (Inr r)
    show ?thesis
    proof (cases r)
      case None
      with fresh Inr discard show ?thesis
        by (fastforce simp: handleMessage_def intro: messageRules.nonActionable)
    next
      case (Some ev)
      with fresh Inr show ?thesis by (intro handleMessage_event) simp_all
    qed
  qed
qed

text \<open>The rules look at the settings only.\<close>

lemma settings_fields:
  assumes "settings l = settings l'"
  shows "li_PoisonThreshold l = li_PoisonThreshold l'" "li_BatchSize l = li_BatchSize l'"
    "queueCallContext l = queueCallContext l'" "li_BusyPollInterval l = li_BusyPollInterval l'"
    "li_IdlePollInterval l = li_IdlePollInterval l'"
proof -
  have "f (settings l) = f (settings l')" for f :: "Listener \<Rightarrow> int" using assms by simp
  from this [of li_PoisonThreshold] this [of li_BatchSize] this [of li_QueueCallTimeout]
    this [of li_BusyPollInterval] this [of li_IdlePollInterval]
  show "li_PoisonThreshold l = li_PoisonThreshold l'" "li_BatchSize l = li_BatchSize l'"
    "queueCallContext l = queueCallContext l'" "li_BusyPollInterval l = li_BusyPollInterval l'"
    "li_IdlePollInterval l = li_IdlePollInterval l'"
    by (simp_all add: settings_def queueCallContext_def fun_eq_iff)
qed

lemma messageRules_mono:
  assumes "settings l = settings l'" and "messageRules u l ctx m cs out"
  shows "messageRules u l' ctx m cs out"
  using assms(2) unfolding settings_fields(3) [OF assms(1)]
  by (cases rule: messageRules.cases)
    (use settings_fields [OF assms(1)] in \<open>auto intro: messageRules.intros\<close>)

lemma messageRules_settings:
  assumes "settings l = settings l'"
  shows "messageRules u l = messageRules u l'"
  using messageRules_mono [OF assms] messageRules_mono [OF assms [symmetric]] by (intro ext) blast

text \<open>The batch of a poll, message by message.\<close>

lemma handleAll_rules:
  "\<exists>parts. list_all2 (\<lambda>m p. messageRules (le_unicode E) (ls_listener s) ctx m (fst p) (snd p)) ms parts
     \<and> ls_calls (snd (run_state (handleAll E ctx ms) s)) = ls_calls s @ concat (map fst parts)
     \<and> ls_outcomes (snd (run_state (handleAll E ctx ms) s)) = fold countOutcome (map snd parts) (ls_outcomes s)
     \<and> ls_listener (snd (run_state (handleAll E ctx ms) s)) = ls_listener s
     \<and> ls_failuresGauge (snd (run_state (handleAll E ctx ms) s)) = ls_failuresGauge s
     \<and> ls_lastReceiveGauge (snd (run_state (handleAll E ctx ms) s)) = ls_lastReceiveGauge s"
proof (induction ms arbitrary: s)
  case (Cons m ms)
  obtain s1 where run: "run_state (handleMessage E ctx m) s = ((), s1)"
    by (metis old.unit.exhaust surj_pair)
  then obtain cs out where m: "made s cs out s1" "messageRules (le_unicode E) (ls_listener s) ctx m cs out"
    using handleMessage_rules [of s E ctx m] by auto
  then have eqs: "ls_calls s1 = ls_calls s @ cs" "ls_outcomes s1 = countOutcome out (ls_outcomes s)"
    "ls_listener s1 = ls_listener s" "ls_failuresGauge s1 = ls_failuresGauge s"
    "ls_lastReceiveGauge s1 = ls_lastReceiveGauge s"
    by (simp_all add: made_def)
  obtain parts where "list_all2 (\<lambda>m p. messageRules (le_unicode E) (ls_listener s1) ctx m (fst p) (snd p)) ms parts"
     "ls_calls (snd (run_state (handleAll E ctx ms) s1)) = ls_calls s1 @ concat (map fst parts)"
     "ls_outcomes (snd (run_state (handleAll E ctx ms) s1)) = fold countOutcome (map snd parts) (ls_outcomes s1)"
     "ls_listener (snd (run_state (handleAll E ctx ms) s1)) = ls_listener s1"
     "ls_failuresGauge (snd (run_state (handleAll E ctx ms) s1)) = ls_failuresGauge s1"
     "ls_lastReceiveGauge (snd (run_state (handleAll E ctx ms) s1)) = ls_lastReceiveGauge s1"
    using Cons.IH [of s1] by blast
  with run eqs m(2) show ?case by (intro exI [of _ "(cs, out) # parts"]) simp
qed simp

lemma pollOnce_cases:
  assumes "run_state (pollOnce E ctx) s = (r, s')"
  obtains (failed) e where "r = Inl e"
      "ls_calls s' = ls_calls s @ [Receive (queueCallContext (ls_listener s) ctx) (li_BatchSize (ls_listener s)) (Inl e)]"
      "ls_outcomes s' = ls_outcomes s" "settings (ls_listener s') = settings (ls_listener s)"
      "li_consecutiveReceiveFailures (ls_listener s') = li_consecutiveReceiveFailures (ls_listener s) + 1"
      "li_lastSuccessfulReceive (ls_listener s') = li_lastSuccessfulReceive (ls_listener s)"
      "ls_failuresGauge s' = li_consecutiveReceiveFailures (ls_listener s) + 1"
      "ls_lastReceiveGauge s' = ls_lastReceiveGauge s"
  | (received) msgs parts t where "r = Inr (length msgs)"
      "list_all2 (\<lambda>m p. messageRules (le_unicode E) (ls_listener s) ctx m (fst p) (snd p)) msgs parts"
      "ls_calls s' = ls_calls s @ Receive (queueCallContext (ls_listener s) ctx) (li_BatchSize (ls_listener s)) (Inr msgs)
         # Clock t # concat (map fst parts)"
      "ls_outcomes s' = fold countOutcome (map snd parts) (ls_outcomes s)"
      "settings (ls_listener s') = settings (ls_listener s)"
      "li_consecutiveReceiveFailures (ls_listener s') = 0" "li_lastSuccessfulReceive (ls_listener s') = t"
      "ls_failuresGauge s' = 0" "ls_lastReceiveGauge s' = t"
proof -
  let ?ctx = "queueCallContext (ls_listener s) ctx" and ?n = "li_BatchSize (ls_listener s)"
  obtain got w1 where got: "le_Receive E ?ctx ?n (ls_world s) = (got, w1)" by fastforce
  show thesis
  proof (cases got)
    case (Inl e)
    with got assms show thesis
      by (intro failed [of e])
        (auto simp: pollOnce_def performL_def recordReceiveFailure_def settings_def Let_def)
  next
    case (Inr msgs)
    obtain t w2 where t: "le_Now E w1 = (t, w2)" by fastforce
    let ?s = "s\<lparr>ls_world := w2, ls_calls := ls_calls s @ [Receive ?ctx ?n (Inr msgs), Clock t],
      ls_listener := (ls_listener s)\<lparr>li_consecutiveReceiveFailures := 0, li_lastSuccessfulReceive := t\<rparr>,
      ls_failuresGauge := 0, ls_lastReceiveGauge := t\<rparr>"
    have "r = Inr (length msgs)" "s' = snd (run_state (handleAll E ctx msgs) ?s)"
      using assms got Inr t
      by (auto simp: pollOnce_def performL_def recordReceiveSuccess_def Let_def split: prod.splits)
    moreover have "messageRules (le_unicode E) (ls_listener ?s) = messageRules (le_unicode E) (ls_listener s)"
      by (rule messageRules_settings) (simp add: settings_def)
    ultimately show thesis
      using handleAll_rules [of E ?s ctx msgs]
      by (elim exE conjE, intro received) (simp_all add: settings_def)
  qed
qed

lemma pollOnce_receives:
  assumes "le_Receive E (queueCallContext (ls_listener s) ctx) (li_BatchSize (ls_listener s)) (ls_world s) = (Inr msgs, w1)"
    and "run_state (pollOnce E ctx) s = (r, s')"
  shows "\<exists>cs. ls_calls s' = ls_calls s @ Receive (queueCallContext (ls_listener s) ctx) (li_BatchSize (ls_listener s)) (Inr msgs) # cs"
proof -
  obtain t w2 where t: "le_Now E w1 = (t, w2)" by fastforce
  let ?c = "Receive (queueCallContext (ls_listener s) ctx) (li_BatchSize (ls_listener s)) (Inr msgs)"
  let ?s1 = "s\<lparr>ls_world := w2, ls_calls := ls_calls s @ [?c, Clock t],
    ls_listener := (ls_listener s)\<lparr>li_consecutiveReceiveFailures := 0, li_lastSuccessfulReceive := t\<rparr>,
    ls_failuresGauge := 0, ls_lastReceiveGauge := t\<rparr>"
  have "s' = snd (run_state (handleAll E ctx msgs) ?s1)"
    using assms t by (auto simp: pollOnce_def performL_def recordReceiveSuccess_def Let_def split: prod.splits)
  with handleAll_rules [of E ?s1 ctx msgs] show ?thesis by auto
qed

lemma pollTurn_cases:
  assumes "run_state (pollTurn E ctx) s = (again, s')"
  obtains (stop) "\<not> again" "made s [Cancelled True] None s'"
  | (poll) s1 r s2 d where "made s [Cancelled False] None s1" "run_state (pollOnce E ctx) s1 = (r, s2)"
      "made s2 [Sleep d again] None s'"
      "d = (case r of Inr (Suc n) \<Rightarrow> li_BusyPollInterval (ls_listener s2) | _ \<Rightarrow> li_IdlePollInterval (ls_listener s2))"
proof -
  obtain c s1 where c: "run_state (performL Cancelled (le_Cancelled E)) s = (c, s1)" by fastforce
  note first = made_performL [OF c]
  show thesis
  proof (cases c)
    case True
    with c assms first show thesis by (intro stop) (simp_all add: pollTurn_def)
  next
    case False
    obtain r s2 where p: "run_state (pollOnce E ctx) s1 = (r, s2)" by fastforce
    let ?d = "case r of Inr (Suc n) \<Rightarrow> li_BusyPollInterval (ls_listener s2) | _ \<Rightarrow> li_IdlePollInterval (ls_listener s2)"
    have "made s2 [Sleep ?d again] None s'"
      using assms c p False
      by (auto simp: pollTurn_def sleepOrDone_def performL_def logL_def made_def countOutcome_def
          split: prod.splits sum.splits nat.split)
    with first p False show thesis by (intro poll) auto
  qed
qed

lemma messageRules_handling: "messageRules u l ctx m cs out \<Longrightarrow> list_all handling cs"
  by (cases rule: messageRules.cases) (auto simp: list_all_iff)

lemma parts_handling:
  "list_all2 (\<lambda>m p. messageRules u l ctx m (fst p) (snd p)) ms parts \<Longrightarrow> list_all handling (concat (map fst parts))"
  by (induction rule: list_all2_induct) (auto dest: messageRules_handling)

text \<open>What the calls for messages do to the three readings of a run: nothing.\<close>

lemma handling_failures: "list_all handling cs \<Longrightarrow> failuresSince n (cs @ cs') = failuresSince n cs'"
proof (induction cs)
  case (Cons c cs)
  then show ?case by (cases c) auto
qed simp

lemma handling_received: "list_all handling cs \<Longrightarrow> lastReceived t cs = t"
proof (induction cs)
  case (Cons c cs)
  then show ?case by (cases c) auto
qed simp

lemma handling_waits: "list_all handling cs \<Longrightarrow> waits l b cs \<and> foldl receivedSome b cs = b"
proof (induction cs)
  case (Cons c cs)
  then show ?case by (cases c) auto
qed simp

lemma failuresSince_append: "failuresSince n (cs @ cs') = failuresSince (failuresSince n cs) cs'"
  by (induction n cs rule: failuresSince.induct) auto

lemma lastReceived_skip:
  assumes "\<And>t cs. cs' \<noteq> Clock t # cs"
  shows "lastReceived t (c # cs') = lastReceived t cs'"
proof (cases cs')
  case (Cons c' cs)
  with assms show ?thesis by (cases c' ) (cases c; auto)+
qed (cases c; auto)

lemma lastReceived_append:
  "(\<And>t cs. cs' \<noteq> Clock t # cs) \<Longrightarrow> lastReceived t (cs @ cs') = lastReceived (lastReceived t cs) cs'"
  by (induction t cs rule: lastReceived.induct) (auto simp: lastReceived_skip)

lemma waits_append: "waits l b (cs @ cs') \<longleftrightarrow> waits l b cs \<and> waits l (foldl receivedSome b cs) cs'"
  by (induction cs arbitrary: b) auto

lemma healthy_pollOnce:
  assumes "healthy s" and "run_state (pollOnce E ctx) s = (r, s')"
  shows "healthy s'"
  using assms(2)
proof (cases rule: pollOnce_cases)
  case (failed e)
  with assms(1) show ?thesis by (simp add: healthy_def failuresSince_append lastReceived_append)
next
  case (received msgs parts t)
  note quiet = parts_handling [OF received(2)]
  from received handling_failures [OF quiet, of 0 "[]"] handling_received [OF quiet, of t] show ?thesis
    by (simp add: healthy_def failuresSince_append lastReceived_append)
qed

lemma healthy_made:
  assumes "healthy s" and "made s [c] None s'" and "\<And>n. failuresSince n [c] = n" and "\<And>t. c \<noteq> Clock t"
    and "\<And>t. lastReceived t [c] = t"
  shows "healthy s'"
  using assms by (simp add: healthy_def made_def failuresSince_append lastReceived_append)

interpretation health: loop_invariant E ctx healthy
proof
  fix s s' :: "'a lsys" and again
  assume h: "healthy s" and "run_state (pollTurn E ctx) s = (again, s')"
  from this(2) show "healthy s'"
  proof (cases rule: pollTurn_cases)
    case stop
    with h show ?thesis by (auto intro: healthy_made)
  next
    case (poll s1 r s2 d)
    from healthy_made [OF h poll(1)] healthy_pollOnce [OF _ poll(2)] healthy_made [OF _ poll(3)]
    show ?thesis by simp
  qed
qed

text \<open>Queue calls are bounded.\<close>

lemma queueCallContext_budget:
  "0 < li_QueueCallTimeout l \<Longrightarrow>
   \<exists>b. ctx_budget (queueCallContext l ctx) = Some b \<and> b \<le> li_QueueCallTimeout l"
  by (auto simp: queueCallContext_def split: option.split)

lemma messageRules_within:
  assumes "messageRules u l ctx m cs out" and "0 < li_QueueCallTimeout l"
  shows "list_all (withinTime (li_QueueCallTimeout l)) cs"
  using assms(1) by cases (use queueCallContext_budget [OF assms(2)] in \<open>auto simp: list_all_iff\<close>)

lemma parts_within:
  "list_all2 (\<lambda>m p. messageRules u l ctx m (fst p) (snd p)) ms parts \<Longrightarrow> 0 < li_QueueCallTimeout l \<Longrightarrow>
   list_all (withinTime (li_QueueCallTimeout l)) (concat (map fst parts))"
  by (induction rule: list_all2_induct) (auto simp: messageRules_within)

lemma timely_pollOnce:
  assumes "timely l s" and "run_state (pollOnce E ctx) s = (r, s')"
  shows "timely l s'"
proof -
  have l: "settings (ls_listener s) = settings l" "0 < li_QueueCallTimeout l"
    using assms(1) by (simp_all add: timely_def)
  note queueCallContext_budget [OF l(2), of ctx] and same = settings_fields [OF l(1)]
  from assms(2) show ?thesis
  proof (cases rule: pollOnce_cases)
    case (failed e)
    with assms(1) queueCallContext_budget [OF l(2), of ctx] show ?thesis
      by (auto simp: timely_def same)
  next
    case (received msgs parts t)
    from parts_within [OF received(2) [unfolded messageRules_settings [OF l(1)]] l(2)] received assms(1)
      queueCallContext_budget [OF l(2), of ctx]
    show ?thesis by (auto simp: timely_def same)
  qed
qed

lemma timely_made: "timely l s \<Longrightarrow> made s [c] None s' \<Longrightarrow> (\<And>d. withinTime d c) \<Longrightarrow> timely l s'"
  by (auto simp: timely_def made_def)

interpretation bounded: loop_invariant E ctx "timely l"
proof
  fix s s' :: "'a lsys" and again
  assume h: "timely l s" and "run_state (pollTurn E ctx) s = (again, s')"
  from this(2) show "timely l s'"
  proof (cases rule: pollTurn_cases)
    case stop
    with h show ?thesis by (auto intro: timely_made)
  next
    case (poll s1 r s2 d)
    from timely_made [OF h poll(1)] timely_pollOnce [OF _ poll(2)] timely_made [OF _ poll(3)]
    show ?thesis by simp
  qed
qed

text \<open>The pauses follow the receives.\<close>

lemma paced_pollOnce:
  assumes "paced l s" and "run_state (pollOnce E ctx) s = (r, s')"
  shows "paced l s' \<and> foldl receivedSome False (ls_calls s') = (case r of Inr (Suc n) \<Rightarrow> True | _ \<Rightarrow> False)"
  using assms(2)
proof (cases rule: pollOnce_cases)
  case (failed e)
  with assms(1) show ?thesis by (simp add: paced_def waits_append)
next
  case (received msgs parts t)
  note quiet = handling_waits [OF parts_handling [OF received(2)]]
  from received assms(1) quiet [of l "msgs \<noteq> []"] show ?thesis
    by (cases msgs) (simp_all add: paced_def waits_append)
qed

interpretation pauses: loop_invariant E ctx "paced l"
proof
  fix s s' :: "'a lsys" and again
  assume h: "paced l s" and "run_state (pollTurn E ctx) s = (again, s')"
  from this(2) show "paced l s'"
  proof (cases rule: pollTurn_cases)
    case stop
    with h show ?thesis by (simp add: paced_def made_def waits_append)
  next
    case (poll s1 r s2 d)
    have "paced l s1" using h poll(1) by (simp add: paced_def made_def waits_append)
    note p = paced_pollOnce [OF this poll(2)]
    then have "settings (ls_listener s2) = settings l" by (simp add: paced_def)
    from settings_fields(4,5) [OF this] p poll(3,4) show ?thesis
      by (auto simp: paced_def made_def waits_append split: sum.splits nat.splits)
  qed
qed

text \<open>The loop ends when the context is cancelled in the end.\<close>

lemma noLater_bind [intro]: "noLater left m \<Longrightarrow> (\<And>a. noLater left (f a)) \<Longrightarrow> noLater left (State_Monad.bind m f)"
  by (auto simp: noLater_def split: prod.split) (metis le_trans snd_conv)

lemma noLater_return [intro]: "noLater left (State_Monad.return a)"
  by (simp add: noLater_def)

lemma noLater_quiet [intro]:
  "noLater left (gets f)" "noLater left (logL lvl msg kv)" "noLater left (recordMessageOutcome k)"
  "noLater left recordReceiveFailure" "noLater left (recordReceiveSuccess t)"
  by (simp_all add: noLater_def logL_def recordMessageOutcome_def recordReceiveFailure_def
      recordReceiveSuccess_def Let_def)

lemma noLater_performL: "(\<And>w. left (snd (f w)) \<le> left w) \<Longrightarrow> noLater left (performL c f)"
  by (auto simp: noLater_def performL_def split: prod.split) (metis snd_conv)

lemma noLater_handleMessage:
  assumes "cancelledWithin E left"
  shows "noLater left (handleMessage E ctx m)"
proof -
  have d: "noLater left (deleteMessage E ctx m)"
    unfolding deleteMessage_def Let_def
    by (intro noLater_bind noLater_quiet noLater_performL)
      (use assms in \<open>auto simp: cancelledWithin_def split: option.split\<close>)
  have l: "noLater left (matchingSecretSyncs E ctx ev)" for ev
    unfolding matchingSecretSyncs_def
    by (intro noLater_bind noLater_return noLater_performL) (use assms in \<open>simp add: cancelledWithin_def\<close>)
  have s: "noLater left (dispatch E xs)" for xs
  proof (induction xs)
    case (Cons x xs)
    have "noLater left (performL (Send x) (le_Send E x))"
      by (rule noLater_performL) (use assms in \<open>simp add: cancelledWithin_def\<close>)
    with Cons show ?case by (auto intro!: noLater_bind)
  qed auto
  show ?thesis
    unfolding handleMessage_def
    by (intro noLater_bind noLater_quiet) (auto intro!: noLater_bind noLater_quiet noLater_return d l s split: sum.split option.split)
qed

lemma noLater_pollOnce:
  assumes "cancelledWithin E left"
  shows "noLater left (pollOnce E ctx)"
proof -
  have all: "noLater left (handleAll E ctx ms)" for ms
    by (induction ms) (auto intro!: noLater_bind noLater_handleMessage [OF assms])
  have t: "noLater left (performL Clock (le_Now E))"
    by (rule noLater_performL) (use assms in \<open>simp add: cancelledWithin_def\<close>)
  have r: "noLater left (performL (Receive c n) (le_Receive E c n))" for c n
    by (rule noLater_performL) (use assms in \<open>simp add: cancelledWithin_def\<close>)
  show ?thesis
    unfolding pollOnce_def Let_def
    by (auto intro!: noLater_bind noLater_quiet noLater_return all t r split: sum.split)
qed

lemma pollTurn_shrinks:
  assumes "cancelledWithin E left" and "run_state (pollTurn E ctx) s = (True, s')"
  shows "left (ls_world s') < left (ls_world s)"
proof -
  obtain c s1 where c: "run_state (performL Cancelled (le_Cancelled E)) s = (c, s1)" by fastforce
  obtain r s2 where p: "run_state (pollOnce E ctx) s1 = (r, s2)" by fastforce
  have "left (ls_world s1) \<le> left (ls_world s)"
    using c assms(1) by (auto simp: performL_def cancelledWithin_def split: prod.splits) (metis snd_conv)
  moreover have "left (ls_world s2) \<le> left (ls_world s1)"
    using noLater_pollOnce [OF assms(1), of ctx] p unfolding noLater_def by (metis snd_conv)
  moreover have "\<exists>d w'. le_Sleep E d (ls_world s2) = (True, w') \<and> ls_world s' = w'"
    using assms(2) c p
    by (auto simp: pollTurn_def sleepOrDone_def performL_def logL_def split: prod.splits sum.splits if_splits)
  ultimately show ?thesis
    using assms(1) unfolding cancelledWithin_def by (metis dual_order.strict_trans1 dual_order.trans)
qed

lemma pollLoop_returns:
  assumes "cancelledWithin E left"
  shows "\<exists>s'. pollLoop E ctx s = Some s'"
proof (induction "left (ls_world s)" arbitrary: s rule: less_induct)
  case less
  obtain again s1 where run: "run_state (pollTurn E ctx) s = (again, s1)" by fastforce
  show ?case
  proof (cases again)
    case True
    with run have "run_state (pollTurn E ctx) s = (True, s1)" by simp
    from less [OF pollTurn_shrinks [OF assms this]] this show ?thesis
      by (simp add: pollLoop.simps [of E ctx s])
  next
    case False
    with run show ?thesis by (simp add: pollLoop.simps [of E ctx s])
  qed
qed

text \<open>The state in which the loop returns, and why.\<close>

lemma polls_first:
  "polls E ctx s1 s2 \<Longrightarrow> run_state (pollTurn E ctx) s = (again, s1) \<Longrightarrow> polls E ctx s s2"
  by (induction rule: polls.induct) (auto intro: polls.intros)

lemma pollLoop_polls:
  assumes "pollLoop E ctx s = Some s'"
  shows "\<exists>s1. polls E ctx s s1 \<and> run_state (pollTurn E ctx) s1 = (False, s')"
proof (rule pollLoop.raw_induct [OF _ assms])
  fix loop E ctx and s s' :: "'a lsys"
  assume later: "\<And>E ctx s s'. loop E ctx s = Some s' \<Longrightarrow>
      \<exists>s1. polls E ctx s s1 \<and> run_state (pollTurn E ctx) s1 = (False, s')"
    and body: "(case run_state (pollTurn E ctx) s of (again, s') \<Rightarrow> if again then loop E ctx s' else Some s') = Some s'"
  obtain again s1 where run: "run_state (pollTurn E ctx) s = (again, s1)" by fastforce
  show "\<exists>s1. polls E ctx s s1 \<and> run_state (pollTurn E ctx) s1 = (False, s')"
  proof (cases again)
    case True
    with body run have "loop E ctx s1 = Some s'" by simp
    from later [OF this] polls_first [OF _ run] show ?thesis by blast
  next
    case False
    with body run show ?thesis by (auto intro: polls.start)
  qed
qed

text \<open>What the rules say about deletions.\<close>

lemma messageRules_deletes:
  assumes "messageRules u l ctx m cs out"
  shows "length (filter isDelete cs) = (if out = None then 0 else 1)"
proof -
  have "filter isDelete (map (\<lambda>x. Send x b) xs) = []" for b xs by (induction xs) auto
  with assms show ?thesis by cases auto
qed

lemma parts_deletes:
  "list_all2 (\<lambda>m p. messageRules u l ctx m (fst p) (snd p)) ms parts \<Longrightarrow>
   length (filter isDelete (concat (map fst parts))) = length (filter (\<lambda>p. snd p \<noteq> None) parts)"
  by (induction rule: list_all2_induct) (auto simp: messageRules_deletes)

lemma messageRules_deleted:
  assumes "messageRules u l ctx m cs out"
  shows "(\<exists>d \<in> set cs. isDelete d) \<longleftrightarrow>
    (\<exists>r. cs = [deleteOf l ctx m r]
       \<and> (qm_DequeueCount m > li_PoisonThreshold l \<or> isl (Parse u (qm_Text m)) \<or> Parse u (qm_Text m) = Inr None))
    \<or> (\<exists>ev items r. qm_DequeueCount m \<le> li_PoisonThreshold l \<and> Parse u (qm_Text m) = Inr (Some ev)
       \<and> cs = ListAll ctx (Inr items) # map (\<lambda>ss. Send ss True) (filter (matchesEvent u ev) items) @ [deleteOf l ctx m r])"
  using assms
proof cases
  case (cancelled ev items sent x rest)
  then show ?thesis by (auto simp: append_eq_append_conv2 append_eq_Cons_conv Cons_eq_append_conv)
qed auto

lemma admitted_ascii:
  assumes "admitted sp"
  shows "list_all (\<lambda>c. byte c < 128) (vault_Name (spec_Vault sp))"
    "list_all (\<lambda>c. byte c < 128) (vault_Secret (spec_Vault sp))"
proof -
  have small: "isAlnum x \<or> x = CHR ''-'' \<Longrightarrow> byte x < 128" for x
    by (auto simp: char_class_defs byte_def)
  show "list_all (\<lambda>c. byte c < 128) (vault_Secret (spec_Vault sp))"
    using assms small by (auto simp: admitted_def validVaultSecret_def list_all_iff)
  show "list_all (\<lambda>c. byte c < 128) (vault_Name (spec_Vault sp))"
    using assms small
    by (cases "vault_Name (spec_Vault sp)") (auto simp: admitted_def list_all_iff isAlnum_def)
qed

text \<open>On admitted declarations, matching is equality of the lowered names.\<close>

lemma matchesEvent_lowered:
  assumes "admitted (ss_Spec ss)" and "list_all (\<lambda>c. byte c < 128) (pe_VaultName ev @ pe_SecretName ev)"
  shows "matchesEvent u ev ss \<longleftrightarrow>
    lowered (vault_Name (spec_Vault (ss_Spec ss))) = lowered (pe_VaultName ev)
    \<and> lowered (vault_Secret (spec_Vault (ss_Spec ss))) = lowered (pe_SecretName ev)"
  unfolding matchesEvent_def lowered_def
  using admitted_ascii [OF assms(1)] assms(2) by (simp add: EqualFold_ascii)

lemma lowered_ascii:
  assumes "list_all (\<lambda>c. byte c < 128) s" and "lowered s = lowered s'"
  shows "list_all (\<lambda>c. byte c < 128) s'"
proof -
  have same: "lowerByte b < 128 \<longleftrightarrow> b < 128" for b by (simp add: lowerByte_def)
  have "list_all (\<lambda>b. b < 128) (lowered x) \<longleftrightarrow> list_all (\<lambda>c. byte c < 128) x" for x
    by (simp add: lowered_def list_all_iff same)
  with assms show ?thesis by metis
qed

lemma matchesEvent_of_lowered:
  assumes "admitted (ss_Spec ss)"
    and "lowered (vault_Name (spec_Vault (ss_Spec ss))) = lowered (pe_VaultName ev)"
    and "lowered (vault_Secret (spec_Vault (ss_Spec ss))) = lowered (pe_SecretName ev)"
  shows "matchesEvent u ev ss"
  using assms(2,3) lowered_ascii [OF admitted_ascii(1) [OF assms(1)] assms(2)]
    lowered_ascii [OF admitted_ascii(2) [OF assms(1)] assms(3)]
  by (subst matchesEvent_lowered [OF assms(1)]) simp_all

text \<open>With a listing that answers and a channel that accepts.\<close>

lemma dispatch_accepted: "(\<And>x w. fst (le_Send E x w)) \<Longrightarrow> fst (run_state (dispatch E xs) s)"
proof (induction xs arbitrary: s)
  case (Cons x xs)
  have "fst (le_Send E x (ls_world s))" by (rule Cons.prems)
  with Cons.IH [OF Cons.prems] show ?case by (auto simp: performL_def split: prod.split)
qed simp

lemma handleMessage_listed:
  assumes "qm_DequeueCount m \<le> li_PoisonThreshold (ls_listener s)"
    and "Parse (le_unicode E) (qm_Text m) = Inr (Some ev)"
    and "le_List E ctx (ls_world s) = (Inr items, w1)" and "\<And>x w. fst (le_Send E x w)"
  shows "\<exists>cs. ls_calls (snd (run_state (handleMessage E ctx m) s)) = ls_calls s @ ListAll ctx (Inr items) # cs
    \<and> (\<forall>ss. Send ss False \<notin> set cs)"
proof -
  let ?ms = "filter (matchesEvent (le_unicode E) ev) items"
  let ?s = "s\<lparr>ls_world := w1, ls_calls := ls_calls s @ [ListAll ctx (Inr items)]\<rparr>"
  obtain all s2 where sends: "run_state (dispatch E ?ms) ?s = (all, s2)" by fastforce
  with dispatch_accepted [OF assms(4), of ?ms ?s] made_dispatch [OF sends]
  have all: "all" and sent: "made ?s (map (\<lambda>x. Send x True) ?ms) None s2" by auto
  have list: "run_state (performL (ListAll ctx) (le_List E ctx)) s = (Inr items, ?s)"
    using assms(3) by (simp add: performL_def)
  obtain msg kv lvl k where "snd (run_state (handleMessage E ctx m) s) =
      snd (run_state (do { logL lvl msg kv; recordMessageOutcome k; deleteMessage E ctx m }) s2)"
  proof (cases "?ms = []")
    case True
    with sends have "s2 = ?s" by simp
    with True assms(1,2) list show thesis by (intro that) (simp add: handleMessage_def matchingSecretSyncs_def)
  next
    case False
    with all sends assms(1,2) list show thesis
      by (intro that) (simp add: handleMessage_def matchingSecretSyncs_def)
  qed
  with made_discard [of s2 ctx m k lvl msg kv E] sent show ?thesis by (auto simp: made_def)
qed

lemma demo_fields:
  "map (\<lambda>k. envelopeField asciiTables k \<noteq> None) [''source'', ''id'', ''subject'', ''data'', ''type'', ''specversion''] =
   [False, True, False, True, True, False]"
  "map (\<lambda>k. dataField asciiTables k \<noteq> None) [''Id'', ''VaultName'', ''ObjectType'', ''ObjectName'', ''Version'', ''NBF'', ''EXP''] =
   [False, True, True, True, True, False, False]"
  by code_simp+

lemma demoMessage_parsed: "Parse asciiTables (qm_Text demoMessage) = Inr (Some demoEvent)"
proof -
  have "EqualFold asciiTables ''Secret'' ''secret''" by code_simp
  then have "carries asciiTables demoDocument demoEvent"
    using demo_fields
    by (intro carries_def [THEN iffD2] exI [of _ "''type''"] exI [of _ "''Secret''"] exI [of _ demoData])
      (simp add: demoDocument_def demoData_def demoEvent_def)
  moreover have "plainDoc maxNestingDepth (DObj demoDocument)"
    by (simp add: demoDocument_def demoData_def plainChar_def byte_def isIntPart_def isFraction_def isExponent_def
        digits_def digit_def)
  ultimately show ?thesis by (simp add: demoMessage_def Parse_event)
qed

section \<open>Properties\<close>

text \<open>
  (C28) A poll follows the processing rules (contracts/queue-message.md). \<open>pollOnce\<close> makes one receive. When
  it fails, nothing else happens, no message is counted and the error is returned. When it succeeds,
  the clock is read and the messages are handled one after the other, each by the calls and with the outcome that
  \<open>messageRules\<close> allows for it, the outcome counters grow by exactly these outcomes, and there are as
  many deletions as outcomes counted.
\<close>

theorem listener_poll_rules:
  assumes "run_state (pollOnce E ctx) s = (r, s')"
  shows "(\<exists>e. r = Inl e \<and> ls_outcomes s' = ls_outcomes s
      \<and> ls_calls s' = ls_calls s @ [Receive (queueCallContext (ls_listener s) ctx) (li_BatchSize (ls_listener s)) (Inl e)])
    \<or> (\<exists>msgs t parts. r = Inr (length msgs)
      \<and> list_all2 (\<lambda>m p. messageRules (le_unicode E) (ls_listener s) ctx m (fst p) (snd p)) msgs parts
      \<and> ls_calls s' = ls_calls s @ Receive (queueCallContext (ls_listener s) ctx) (li_BatchSize (ls_listener s)) (Inr msgs)
          # Clock t # concat (map fst parts)
      \<and> ls_outcomes s' = fold countOutcome (map snd parts) (ls_outcomes s)
      \<and> length (filter isDelete (concat (map fst parts))) = length (filter (\<lambda>p. snd p \<noteq> None) parts))"
  using assms
proof (cases rule: pollOnce_cases)
  case (received msgs parts t)
  with parts_deletes [OF received(2)] show ?thesis by blast
qed blast

theorem listener_poll_rules_witness:
  "\<exists>s' t p. run_state (pollOnce demoListenerEnv RootCtx) demoBusy = (Inr 1, s')
    \<and> messageRules asciiTables (ls_listener demoBusy) RootCtx demoMessage (fst p) (snd p)
    \<and> ls_calls s' = Receive (queueCallContext (ls_listener demoBusy) RootCtx) (li_BatchSize (ls_listener demoBusy))
        (Inr [demoMessage]) # Clock t # fst p"
proof -
  obtain r s' where run: "run_state (pollOnce demoListenerEnv RootCtx) demoBusy = (r, s')" by fastforce
  have "\<exists>cs. ls_calls s' = ls_calls demoBusy @ Receive (queueCallContext (ls_listener demoBusy) RootCtx)
      (li_BatchSize (ls_listener demoBusy)) (Inr [demoMessage]) # cs"
    by (rule pollOnce_receives [OF _ run]) (simp add: demoListenerEnv_def demoBusy_def freshListener_def)
  moreover have "ls_calls demoBusy = []" "le_unicode demoListenerEnv = asciiTables"
    by (simp_all add: demoBusy_def freshListener_def demoListenerEnv_def)
  ultimately obtain t parts where "r = Inr 1"
      "list_all2 (\<lambda>m p. messageRules asciiTables (ls_listener demoBusy) RootCtx m (fst p) (snd p)) [demoMessage] parts"
      "ls_calls s' = Receive (queueCallContext (ls_listener demoBusy) RootCtx) (li_BatchSize (ls_listener demoBusy))
        (Inr [demoMessage]) # Clock t # concat (map fst parts)"
    using listener_poll_rules [OF run] by auto
  moreover from this(2) obtain p where "parts = [p]"
      "messageRules asciiTables (ls_listener demoBusy) RootCtx demoMessage (fst p) (snd p)"
    by (auto simp: list_all2_Cons1)
  ultimately show ?thesis using run by (intro exI [of _ s'] exI [of _ t] exI [of _ p]) simp
qed

text \<open>
  (C29) A message leaves the queue only when it is finished (rules 1 to 6). Handling a message deletes it exactly in two
  cases. Either the deletion is the only call, and the message is over the poison threshold, malformed or not
  actionable; or it is the last call, after one listing that succeeded and one accepted send for every matching
  declaration of that listing and no other. Otherwise it is kept, to be delivered again, and this is so exactly when the
  listing failed or the context was cancelled during a send.
\<close>

theorem listener_deletes_only_finished:
  assumes "run_state (handleMessage E ctx m) s = (x, s')"
  shows "\<exists>cs. ls_calls s' = ls_calls s @ cs
    \<and> ((\<exists>d \<in> set cs. isDelete d) \<longleftrightarrow>
        (\<exists>r. cs = [deleteOf (ls_listener s) ctx m r]
           \<and> (qm_DequeueCount m > li_PoisonThreshold (ls_listener s) \<or> isl (Parse (le_unicode E) (qm_Text m))
              \<or> Parse (le_unicode E) (qm_Text m) = Inr None))
        \<or> (\<exists>ev items r. qm_DequeueCount m \<le> li_PoisonThreshold (ls_listener s)
           \<and> Parse (le_unicode E) (qm_Text m) = Inr (Some ev)
           \<and> cs = ListAll ctx (Inr items) # map (\<lambda>ss. Send ss True) (filter (matchesEvent (le_unicode E) ev) items)
               @ [deleteOf (ls_listener s) ctx m r]))
    \<and> ((\<forall>d \<in> set cs. \<not> isDelete d) \<longleftrightarrow>
         (\<exists>e. ListAll ctx (Inl e) \<in> set cs) \<or> (\<exists>ss. Send ss False \<in> set cs))"
proof -
  obtain cs out where m: "made s cs out s'" and rules: "messageRules (le_unicode E) (ls_listener s) ctx m cs out"
    using handleMessage_rules [of s E ctx m] assms by auto
  have kept: "(\<forall>d \<in> set cs. \<not> isDelete d) \<longleftrightarrow>
      (\<exists>e. ListAll ctx (Inl e) \<in> set cs) \<or> (\<exists>ss. Send ss False \<in> set cs)"
    using rules by cases auto
  have "ls_calls s' = ls_calls s @ cs" using m by (simp add: made_def)
  then show ?thesis by (intro exI [of _ cs] conjI messageRules_deleted [OF rules] kept)
qed

theorem listener_deletes_only_finished_witness:
  "\<exists>s' items r. run_state (handleMessage demoListenerEnv RootCtx demoMessage) demoListening = ((), s')
    \<and> ls_calls s' = ListAll RootCtx (Inr items) # map (\<lambda>ss. Send ss True) (filter (matchesEvent asciiTables demoEvent) items)
        @ [deleteOf (ls_listener demoListening) RootCtx demoMessage r]"
proof -
  obtain s' where run: "run_state (handleMessage demoListenerEnv RootCtx demoMessage) demoListening = ((), s')"
    by (metis old.unit.exhaust surj_pair)
  have env: "le_unicode demoListenerEnv = asciiTables" "ls_calls demoListening = []"
      "qm_DequeueCount demoMessage \<le> li_PoisonThreshold (ls_listener demoListening)"
    by (simp_all add: demoListenerEnv_def demoListening_def freshListener_def demoMessage_def NewListener_def settings_def)
  obtain cs where cs: "ls_calls s' = ListAll RootCtx (Inr [demoDeclaration]) # cs" "\<forall>ss. Send ss False \<notin> set cs"
    using handleMessage_listed [of demoMessage demoListening demoListenerEnv demoEvent RootCtx "[demoDeclaration]"
        "ls_world demoListening"] demoMessage_parsed env run
    by (auto simp: demoListenerEnv_def demoListening_def freshListener_def)
  obtain out where "messageRules asciiTables (ls_listener demoListening) RootCtx demoMessage (ls_calls s') out"
    using handleMessage_rules [of demoListening demoListenerEnv RootCtx demoMessage] run env by (auto simp: made_def)
  then have "\<exists>d \<in> set (ls_calls s'). isDelete d" by cases (use cs in auto)
  with listener_deletes_only_finished [OF run] demoMessage_parsed env run show ?thesis by auto
qed

text \<open>
  (C30) The realtime path, from the queue to the reconciler. A message that parses to an event with ASCII names, as
  Key Vault's are, not over the poison threshold, listed against admitted declarations with a channel that accepts,
  makes exactly these calls: one listing, one send for each declaration whose vault and secret names equal the
  event's up to letter case, in the order of the listing, and then the deletion.
\<close>

theorem listener_reaches_every_declaration:
  assumes "qm_DequeueCount m \<le> li_PoisonThreshold (ls_listener s)"
    and "Parse (le_unicode E) (qm_Text m) = Inr (Some ev)"
    and "list_all (\<lambda>c. byte c < 128) (pe_VaultName ev @ pe_SecretName ev)"
    and "le_List E ctx (ls_world s) = (Inr items, w1)" and "\<forall>ss \<in> set items. admitted (ss_Spec ss)"
    and "\<And>x w. fst (le_Send E x w)"
    and "run_state (handleMessage E ctx m) s = (x, s')"
  shows "\<exists>r. ls_calls s' = ls_calls s @ ListAll ctx (Inr items)
    # map (\<lambda>ss. Send ss True)
        (filter (\<lambda>ss. lowered (vault_Name (spec_Vault (ss_Spec ss))) = lowered (pe_VaultName ev)
           \<and> lowered (vault_Secret (spec_Vault (ss_Spec ss))) = lowered (pe_SecretName ev)) items)
    @ [deleteOf (ls_listener s) ctx m r]"
proof -
  let ?u = "le_unicode E"
  have same: "filter (matchesEvent ?u ev) items =
      filter (\<lambda>ss. lowered (vault_Name (spec_Vault (ss_Spec ss))) = lowered (pe_VaultName ev)
        \<and> lowered (vault_Secret (spec_Vault (ss_Spec ss))) = lowered (pe_SecretName ev)) items"
    by (intro filter_cong refl) (rule matchesEvent_lowered, use assms(3,5) in simp_all)
  obtain cs out where m: "made s cs out s'" and rules: "messageRules ?u (ls_listener s) ctx m cs out"
    using handleMessage_rules [of s E ctx m] assms(7) by auto
  obtain cs' where "cs = ListAll ctx (Inr items) # cs'" "\<forall>ss. Send ss False \<notin> set cs'"
    using handleMessage_listed [OF assms(1,2,4,6)] m assms(7) by (auto simp: made_def)
  with rules m assms(1,2) same show ?thesis
    by cases (auto simp: made_def)
qed

theorem listener_reaches_every_declaration_witness:
  "\<exists>s' r. run_state (handleMessage demoListenerEnv RootCtx demoMessage) demoListening = ((), s')
    \<and> ls_calls s' = [ListAll RootCtx (Inr [demoDeclaration]), Send demoDeclaration True,
         deleteOf (ls_listener demoListening) RootCtx demoMessage r]"
proof -
  obtain s' where run: "run_state (handleMessage demoListenerEnv RootCtx demoMessage) demoListening = ((), s')"
    by (metis old.unit.exhaust surj_pair)
  have "\<exists>r. ls_calls s' = ls_calls demoListening @ ListAll RootCtx (Inr [demoDeclaration])
      # map (\<lambda>ss. Send ss True)
          (filter (\<lambda>ss. lowered (vault_Name (spec_Vault (ss_Spec ss))) = lowered (pe_VaultName demoEvent)
             \<and> lowered (vault_Secret (spec_Vault (ss_Spec ss))) = lowered (pe_SecretName demoEvent)) [demoDeclaration])
      @ [deleteOf (ls_listener demoListening) RootCtx demoMessage r]"
  proof (rule listener_reaches_every_declaration [OF _ _ _ _ _ _ run])
    show "Parse (le_unicode demoListenerEnv) (qm_Text demoMessage) = Inr (Some demoEvent)"
      using demoMessage_parsed by (simp add: demoListenerEnv_def)
    show "\<forall>ss \<in> set [demoDeclaration]. admitted (ss_Spec ss)"
      by (simp add: demoDeclaration_def admitted_def validVaultSecret_def char_class_defs byte_def)
  qed (simp_all add: demoMessage_def demoListening_def freshListener_def NewListener_def settings_def
      demoListenerEnv_def demoEvent_def byte_def)
  then show ?thesis
    using run by (simp add: demoListening_def freshListener_def demoDeclaration_def demoEvent_def lowered_def
        lowerByte_def byte_def)
qed

text \<open>
  (C31) The health signal is truthful (US3). Through any number of polls of a fresh listener, the
  consecutive-failure count and its gauge both equal the number of receives that failed since the
  last one that succeeded, and the last-receive time and its gauge both equal the clock reading taken right after the
  last receive that succeeded, or 0 before the first: a failed receive never stamps the time.
\<close>

theorem listener_health:
  assumes "polls E ctx (freshListener l w) s"
  shows "li_consecutiveReceiveFailures (ls_listener s) = failuresSince 0 (ls_calls s)
    \<and> ls_failuresGauge s = failuresSince 0 (ls_calls s)
    \<and> li_lastSuccessfulReceive (ls_listener s) = lastReceived 0 (ls_calls s)
    \<and> ls_lastReceiveGauge s = lastReceived 0 (ls_calls s)"
proof -
  have "healthy (freshListener l w)" by (simp add: healthy_def freshListener_def settings_def)
  from health.always [OF assms this] show ?thesis by (simp add: healthy_def)
qed

theorem listener_health_witness:
  "\<exists>s' s''. run_state (pollTurn demoListenerEnv RootCtx) demoOutage = (True, s')
    \<and> run_state (pollTurn demoListenerEnv RootCtx) s' = (True, s'')
    \<and> ls_failuresGauge s'' = 1 \<and> ls_lastReceiveGauge s'' = 1000"
proof -
  obtain again s' where run: "run_state (pollTurn demoListenerEnv RootCtx) demoOutage = (again, s')" by fastforce
  obtain again' s'' where run': "run_state (pollTurn demoListenerEnv RootCtx) s' = (again', s'')" by fastforce
  have "polls demoListenerEnv RootCtx demoOutage s''" by (rule polls.turn [OF polls.turn [OF polls.start run] run'])
  from listener_health [OF this [unfolded demoOutage_def]]
  have "ls_failuresGauge s'' = failuresSince 0 (ls_calls s'')" "ls_lastReceiveGauge s'' = lastReceived 0 (ls_calls s'')" by simp_all
  with run run' show ?thesis
    by (auto simp: demoOutage_def pollTurn_def pollOnce_def sleepOrDone_def performL_def logL_def recordReceiveFailure_def
        recordReceiveSuccess_def demoListenerEnv_def freshListener_def Let_def)
qed

text \<open>
  (C32) The polling of \<open>Start\<close> is bounded and paced. From its start, every pause is the busy interval after a receive that
  returned messages and the idle interval after one that was empty or failed, with the defaults for what was
  not set; and with a timeout that is not negative, every receive and every deletion of every poll
  runs on a context that ends within the queue call timeout, which is the default of thirty seconds when none was set: no
  queue call can hang the listener.
\<close>

theorem listener_calls_bounded:
  assumes "polls E ctx (freshListener (applyDefaults l) w) s"
  shows "waits (applyDefaults l) False (ls_calls s)
    \<and> li_BusyPollInterval (applyDefaults l) = (if li_BusyPollInterval l = 0 then DefaultBusyPollInterval else li_BusyPollInterval l)
    \<and> li_IdlePollInterval (applyDefaults l) = (if li_IdlePollInterval l = 0 then DefaultIdlePollInterval else li_IdlePollInterval l)
    \<and> li_QueueCallTimeout (applyDefaults l) = (if li_QueueCallTimeout l = 0 then DefaultQueueCallTimeout else li_QueueCallTimeout l)
    \<and> (0 \<le> li_QueueCallTimeout l \<longrightarrow> 0 < li_QueueCallTimeout (applyDefaults l)
         \<and> list_all (withinTime (li_QueueCallTimeout (applyDefaults l))) (ls_calls s))"
proof -
  let ?s = "freshListener (applyDefaults l) w"
  have t: "li_BusyPollInterval (applyDefaults l) = (if li_BusyPollInterval l = 0 then DefaultBusyPollInterval else li_BusyPollInterval l)"
      "li_IdlePollInterval (applyDefaults l) = (if li_IdlePollInterval l = 0 then DefaultIdlePollInterval else li_IdlePollInterval l)"
      "li_QueueCallTimeout (applyDefaults l) = (if li_QueueCallTimeout l = 0 then DefaultQueueCallTimeout else li_QueueCallTimeout l)"
    by (simp_all add: applyDefaults_def Let_def)
  have "paced (applyDefaults l) ?s" by (simp add: paced_def freshListener_def settings_def)
  from pauses.always [OF assms this] have "waits (applyDefaults l) False (ls_calls s)" by (simp add: paced_def)
  moreover have "timely (applyDefaults l) s" if "0 \<le> li_QueueCallTimeout l"
    by (rule bounded.always [OF assms]) (use that t(3) in \<open>simp add: timely_def freshListener_def settings_def\<close>)
  ultimately show ?thesis using t by (simp add: timely_def)
qed

theorem listener_calls_bounded_witness:
  "list_all (withinTime DefaultQueueCallTimeout)
     (ls_calls (snd (run_state (pollTurn demoListenerEnv RootCtx) (freshListener (applyDefaults NewListener)
        \<lparr>dw_Batches = [], dw_Syncs = [], dw_Sleeps = 1\<rparr>))))
   \<and> last (ls_calls (snd (run_state (pollTurn demoListenerEnv RootCtx) (freshListener (applyDefaults NewListener)
        \<lparr>dw_Batches = [], dw_Syncs = [], dw_Sleeps = 1\<rparr>)))) = Sleep DefaultIdlePollInterval True"
proof -
  let ?s = "freshListener (applyDefaults NewListener) \<lparr>dw_Batches = [], dw_Syncs = [], dw_Sleeps = 1\<rparr>"
  let ?cs = "ls_calls (snd (run_state (pollTurn demoListenerEnv RootCtx) ?s))"
  have polled: "polls demoListenerEnv RootCtx ?s (snd (run_state (pollTurn demoListenerEnv RootCtx) ?s))"
    by (rule polls.turn [OF polls.start]) (rule prod.collapse [symmetric])
  obtain c c' t d where cs: "?cs = [Cancelled False, Receive c c' (Inr []), Clock t, Sleep d True]"
    by (auto simp: pollTurn_def pollOnce_def sleepOrDone_def performL_def recordReceiveSuccess_def demoListenerEnv_def
        freshListener_def Let_def)
  with listener_calls_bounded [OF polled] have "d = DefaultIdlePollInterval" by (simp add: NewListener_def applyDefaults_def)
  with cs listener_calls_bounded [OF polled] show ?thesis by (simp add: NewListener_def applyDefaults_def)
qed

text \<open>
  (C33) \<open>Start\<close> returns when, and only when, its context is cancelled. If the context is cancelled after
  finitely many sleeps, \<open>Start\<close> returns nil, whatever the queue, the client and the channel answer;
  and whenever it returns, its last question to the context, before a poll or during a sleep, was answered by a
  cancellation: a queue outage never stops the listener (constitution II).
\<close>

theorem listener_returns:
  assumes "cancelledWithin E left"
  shows "\<exists>s'. Start E ctx s = Some s' \<and> (last (ls_calls s') = Cancelled True \<or> (\<exists>d. last (ls_calls s') = Sleep d False))"
proof -
  let ?s = "s\<lparr>ls_listener := applyDefaults (ls_listener s)\<rparr>"
  obtain s' where loop: "pollLoop E ctx ?s = Some s'" using pollLoop_returns [OF assms] by blast
  then obtain s1 where "run_state (pollTurn E ctx) s1 = (False, s')" using pollLoop_polls by blast
  then have "last (ls_calls s') = Cancelled True \<or> (\<exists>d. last (ls_calls s') = Sleep d False)"
    by (cases rule: pollTurn_cases) (auto simp: made_def)
  with loop show ?thesis by (simp add: Start_def)
qed

theorem listener_returns_witness:
  "\<exists>s'. Start demoListenerEnv RootCtx (freshListener NewListener
      \<lparr>dw_Batches = [Inl (errors_New ''down'')], dw_Syncs = [], dw_Sleeps = 3\<rparr>) = Some s'"
proof -
  have "cancelledWithin demoListenerEnv dw_Sleeps"
    by (auto simp: cancelledWithin_def demoListenerEnv_def split: list.split)
  from listener_returns [OF this] show ?thesis by blast
qed

text \<open>
  (C35) No SAS token in the log of the listener. The listener runs over the storage queue on an SDK client. Two
  clients that answer alike, except that where one fails with an error carrying a request URL the other
  fails with the same error but for the query of that URL, give the same run of \<open>Start\<close>: the same
  calls, health record, outcome counters and log lines, forever or until it returns.
\<close>

theorem listener_hides_sas:
  assumes "sdkAlike Q Q'"
  shows "Start (listenOn Q E) ctx s = Start (listenOn Q' E) ctx s"
  using sdkAlike_source [OF assms] by (simp add: listenOn_def)

theorem listener_hides_sas_witness:
  "transportError ''sig=a'' \<noteq> transportError ''sig=b''
   \<and> Start (listenOn (unreachable ''sig=a'') stoppedEnv) RootCtx (freshListener NewListener ()) =
     Start (listenOn (unreachable ''sig=b'') stoppedEnv) RootCtx (freshListener NewListener ())"
proof -
  have ctl: "\<not> containsCTLByte ''sig=a''" "\<not> containsCTLByte ''sig=b''" by code_simp+
  have "urlAlike (transportError ''sig=a'') (transportError ''sig=b'')"
    unfolding urlAlike_def
    by (rule exI [of _ "''Get''"], rule exI [of _ "''https://q.example.net/events''"], rule exI [of _ "''sig=a''"],
        rule exI [of _ "''sig=b''"], rule exI [of _ "[]"]) (simp add: transportError_def ctl)
  then have "sdkAlike (unreachable ''sig=a'') (unreachable ''sig=b'')" by (simp add: sdkAlike_def unreachable_def)
  moreover have "transportError ''sig=a'' \<noteq> transportError ''sig=b''" by (simp add: transportError_def)
  ultimately show ?thesis using listener_hides_sas by blast
qed

end
