(* ===== verification/Event_Delivery.thy ===== *)
theory Event_Delivery
  imports Reconcile_Converges Listener_Rules
begin

text \<open>
  The realtime path end to end: a notification in the queue, the listener that sends the declarations it
  concerns, the requests these become, and the reconciles of those requests. Reconciles of different
  declarations do not undo each other: run one after the other, in any order, each reaches its
  value and the earlier ones keep theirs. With the listener in front, a notification brings every
  declaration of the vault secret to the value the vault holds.
\<close>

section \<open>Vocabulary\<close>

text \<open>\<open>handler.EnqueueRequestForObject\<close>: an object the channel took becomes a request for its key.\<close>

fun requestOf :: "lcall \<Rightarrow> NamespacedName list" where
  "requestOf (Send ss True) = [syncKey ss]"
| "requestOf _ = []"

definition requestsOf :: "lcall list \<Rightarrow> NamespacedName list" where
  "requestsOf cs = concat (map requestOf cs)"

text \<open>A worker: it reconciles the requests one after the other.\<close>

fun reconcileEach ::
    "'w env \<Rightarrow> 'w SecretSyncReconciler \<Rightarrow> goctx \<Rightarrow> NamespacedName list
     \<Rightarrow> ('w sys, (Result \<times> goerr option) list) state" where
  "reconcileEach E r ctx [] = State_Monad.return []"
| "reconcileEach E r ctx (req # reqs) = do {
     res \<leftarrow> Reconcile E r ctx req;
     rest \<leftarrow> reconcileEach E r ctx reqs;
     State_Monad.return (res # rest) }"

text \<open>What the vault holds for a declaration, and a declaration that nothing keeps from reaching it.\<close>

abbreviation declared :: "(string \<Rightarrow> string \<Rightarrow> (string \<times> string) option) \<Rightarrow> SecretSync \<Rightarrow> (string \<times> string) option" where
  "declared vault ss \<equiv> vault (vault_Name (spec_Vault (ss_Spec ss))) (vault_Secret (spec_Vault (ss_Spec ss)))"

definition attainable ::
    "'w env \<Rightarrow> (Secret \<Rightarrow> bool) \<Rightarrow> (string \<Rightarrow> string \<Rightarrow> (string \<times> string) option) \<Rightarrow> (NamespacedName \<Rightarrow> Secret option)
     \<Rightarrow> (NamespacedName \<Rightarrow> SecretSync option) \<Rightarrow> SecretSync \<Rightarrow> bool" where
  "attainable E admits vault secs syncs ss \<longleftrightarrow>
     syncs (syncKey ss) = Some ss \<and> om_DeletionTimestamp (ss_Meta ss) = 0 \<and> ss_Namespace ss \<noteq> []
     \<and> unopposed syncs ss \<and> sweepable E ss secs
     \<and> (\<exists>value version. declared vault ss = Some (value, version)
          \<and> (\<forall>x. secs (targetKeyOf ss) = Some x \<longrightarrow> reclaimable E ss value x)
          \<and> storable E admits ss value version (startingAt secs (targetKeyOf ss)))"

text \<open>Declarations of different targets; names and UIDs are the server's.\<close>

definition separate :: "SecretSync list \<Rightarrow> bool" where
  "separate sss \<longleftrightarrow> distinct (map syncKey sss) \<and> distinct (map targetKeyOf sss) \<and> distinct (map ss_UID sss)"

definition attained ::
    "'w env \<Rightarrow> (string \<Rightarrow> string \<Rightarrow> (string \<times> string) option) \<Rightarrow> (NamespacedName \<Rightarrow> Secret option)
     \<Rightarrow> (NamespacedName \<Rightarrow> SecretSync option) \<Rightarrow> SecretSync \<Rightarrow> bool" where
  "attained E vault secs syncs ss \<longleftrightarrow>
     (\<exists>value version x ss'. declared vault ss = Some (value, version)
        \<and> secs (targetKeyOf ss) = Some x \<and> upToDate E ss value version x
        \<and> syncs (syncKey ss) = Some ss' \<and> syncedAt ss version ss')"

text \<open>What a sequence of reconciles leaves alone.\<close>

definition framed ::
    "'w env \<Rightarrow> SecretSync list \<Rightarrow> (NamespacedName \<Rightarrow> Secret option) \<Rightarrow> (NamespacedName \<Rightarrow> SecretSync option)
     \<Rightarrow> (NamespacedName \<Rightarrow> Secret option) \<Rightarrow> (NamespacedName \<Rightarrow> SecretSync option) \<Rightarrow> bool" where
  "framed E sss secs syncs secs' syncs' \<longleftrightarrow>
     (\<forall>key. key \<notin> syncKey ` set sss \<longrightarrow> syncs' key = syncs key)
     \<and> (\<forall>key x. secs key = Some x \<and> key \<notin> targetKeyOf ` set sss \<and> (\<forall>ss\<in>set sss. \<not> leftover E ss x) \<longrightarrow>
          secs' key = Some x)"

text \<open>A concrete pair: the target of the first has lost its label, the target of the second is labelled, has no
  controller and holds an older value.\<close>

definition otherSync :: SecretSync where
  "otherSync = demoSync\<lparr>ss_Meta := (ss_Meta demoSync)\<lparr>om_Name := ''cache'', om_UID := ''u2''\<rparr>\<rparr>"

definition otherSecret :: Secret where
  "otherSecret = foreignSecret\<lparr>sec_Meta := (sec_Meta foreignSecret)\<lparr>om_Name := ''cache'',
     om_Labels := fmupd LabelManagedBy LabelManagedByValue fmempty\<rparr>\<rparr>"

abbreviation demoPair :: "cluster sys" where
  "demoPair \<equiv> demoSys [strippedSecret, otherSecret] [demoSync, otherSync]"

abbreviation demoWork :: "NamespacedName list \<Rightarrow> (Result \<times> goerr option) list \<times> cluster sys" where
  "demoWork reqs \<equiv> run_state (reconcileEach refEnv (demoReconciler demoVault) RootCtx reqs) demoPair"

definition pairListening :: "demoWorld lsys" where
  "pairListening = freshListener NewListener \<lparr>dw_Batches = [], dw_Syncs = [demoSync, otherSync], dw_Sleeps = 0\<rparr>"

section \<open>One reconcile among others\<close>

lemma upToDate_not_leftover:
  "upToDate E ss value version x \<Longrightarrow> ss_UID other \<noteq> ss_UID ss \<Longrightarrow> \<not> leftover E other x"
  by (auto simp: upToDate_def managedBy_def leftover_def ControllerOwnedBy_def split: option.splits)

lemma unopposed_after:
  assumes "unopposed syncs ss" and "copyOf other' other" and "targetKeyOf ss \<noteq> targetKeyOf other" and "ss_Namespace ss \<noteq> []"
  shows "unopposed (syncs(syncKey other \<mapsto> other')) ss"
  unfolding unopposed_def
proof (intro allI impI, elim conjE)
  fix key ss'
  assume ss': "(syncs(syncKey other \<mapsto> other')) key = Some ss'" "ss_Namespace ss = [] \<or> nn_Namespace key = ss_Namespace ss"
    "ss_Name ss' \<noteq> ss_Name ss" "resolveTargetName ss' = resolveTargetName ss" "\<not> defeated ss'"
  show "\<not> takesPrecedence ss' ss"
  proof (cases "key = syncKey other")
    case True
    with ss' assms(4) copyOfD [OF assms(2)] have "targetKeyOf ss = targetKeyOf other"
      by (auto simp: targetKeyOf_def)
    with assms(3) show ?thesis by simp
  next
    case False
    with ss' assms(1) show ?thesis unfolding unopposed_def by auto
  qed
qed

text \<open>The target of another declaration is not collected.\<close>

lemma collected_reclaimable:
  "reclaimable E ss value x \<Longrightarrow> ss_UID ss \<noteq> ss_UID other \<Longrightarrow> secs key = Some x \<Longrightarrow> collected E other secs key = Some x"
  by (auto simp: collected_def leftover_def ControllerOwnedBy_def reclaimable_def split: option.splits)

lemma attainable_after:
  assumes "attainable E admits vault secs syncs ss" and "syncedAt other version' other'" and "upToDate E other value' version' x"
    and "syncKey ss \<noteq> syncKey other" and "targetKeyOf ss \<noteq> targetKeyOf other" and "ss_UID ss \<noteq> ss_UID other"
  shows "attainable E admits vault ((collected E other secs)(targetKeyOf other \<mapsto> x)) (syncs(syncKey other \<mapsto> other')) ss"
proof -
  let ?secs = "(collected E other secs)(targetKeyOf other \<mapsto> x)"
  obtain "value" version where v: "declared vault ss = Some (value, version)"
      "\<And>x. secs (targetKeyOf ss) = Some x \<Longrightarrow> reclaimable E ss value x"
      "storable E admits ss value version (startingAt secs (targetKeyOf ss))"
    using assms(1) by (auto simp: attainable_def)
  have same: "?secs (targetKeyOf ss) = secs (targetKeyOf ss)"
    using assms(5) collected_reclaimable [OF v(2) assms(6)]
    by (cases "secs (targetKeyOf ss)") (simp_all add: collected_def)
  have "sweepable E ss ?secs"
    using assms(1) upToDate_not_leftover [OF assms(3,6)]
    by (auto simp: attainable_def sweepable_def collected_def split: if_splits option.splits)
  moreover have "unopposed (syncs(syncKey other \<mapsto> other')) ss"
    by (rule unopposed_after) (use assms(1,2,5) in \<open>simp_all add: attainable_def syncedAt_def\<close>)
  ultimately show ?thesis
    using assms(1,4) v same unfolding attainable_def startingAt_def by fastforce
qed

context kube_vault
begin

lemma Reconcile_attains:
  assumes "holds s secs syncs" and "attainable E admits vault secs syncs ss"
    and "rc_Client r = ManagerClient" and "rc_APIReader r = Some APIReader" and "rc_Reader r = Some rd"
    and "\<And>value version x ss' s'. declared vault ss = Some (value, version) \<Longrightarrow> upToDate E ss value version x \<Longrightarrow>
      syncedAt ss version ss' \<Longrightarrow>
      holds s' ((collected E ss secs)(targetKeyOf ss \<mapsto> x)) (syncs(syncKey ss \<mapsto> ss')) \<Longrightarrow>
      Q (\<lparr>res_RequeueAfter = reconcileInterval r\<rparr>, None) s'"
  shows "wp (Reconcile E r ctx (syncKey ss)) Q s"
proof -
  obtain "value" version where v: "declared vault ss = Some (value, version)"
      "\<And>x. secs (targetKeyOf ss) = Some x \<Longrightarrow> reclaimable E ss value x"
      "storable E admits ss value version (startingAt secs (targetKeyOf ss))" "sweepable E ss secs"
    and ss: "syncs (syncKey ss) = Some ss" "om_DeletionTimestamp (ss_Meta ss) = 0" "unopposed syncs ss"
    using assms(2) by (auto simp: attainable_def)
  show ?thesis
    by (rule Reconcile_wp [OF assms(1) ss assms(3-5) v(2-4,1)]) (use assms(6) v(1) in blast)+
qed

lemma reconcileEach_attains:
  assumes "holds s secs syncs" and "\<forall>ss\<in>set sss. attainable E admits vault secs syncs ss" and "separate sss"
    and client: "rc_Client r = ManagerClient" "rc_APIReader r = Some APIReader" "rc_Reader r = Some rd"
    and "\<And>secs' syncs' s'. holds s' secs' syncs' \<Longrightarrow> \<forall>ss\<in>set sss. attained E vault secs' syncs' ss \<Longrightarrow>
      framed E sss secs syncs secs' syncs' \<Longrightarrow>
      Q (replicate (length sss) (\<lparr>res_RequeueAfter = reconcileInterval r\<rparr>, None)) s'"
  shows "wp (reconcileEach E r ctx (map syncKey sss)) Q s"
  using assms(1-3,7)
proof (induction sss arbitrary: s secs syncs Q)
  case Nil
  then show ?case using Nil.prems(4) [OF Nil.prems(1)] by (simp add: wp_return framed_def)
next
  case (Cons ss sss)
  have apart: "syncKey ss' \<noteq> syncKey ss" "targetKeyOf ss' \<noteq> targetKeyOf ss" "ss_UID ss' \<noteq> ss_UID ss" if "ss' \<in> set sss" for ss'
    using Cons.prems(3) that by (auto simp: separate_def image_iff)
  have rest: "separate sss" using Cons.prems(3) by (simp add: separate_def)
  have first: "attainable E admits vault secs syncs ss" using Cons.prems(2) by simp
  show ?case
    unfolding list.map reconcileEach.simps wp_bind
  proof (rule Reconcile_attains [OF Cons.prems(1) first client])
    fix v n x ss' s1
    let ?secs = "(collected E ss secs)(targetKeyOf ss \<mapsto> x)" and ?syncs = "syncs(syncKey ss \<mapsto> ss')"
    assume v: "declared vault ss = Some (v, n)" and x: "upToDate E ss v n x" and ss': "syncedAt ss n ss'"
      and s1: "holds s1 ?secs ?syncs"
    have "\<forall>ss\<in>set sss. attainable E admits vault ?secs ?syncs ss"
      using Cons.prems(2) apart by (auto intro!: attainable_after [OF _ ss' x])
    then show "wp (reconcileEach E r ctx (map syncKey sss)) (\<lambda>rest. wp (State_Monad.return
        ((\<lparr>res_RequeueAfter = reconcileInterval r\<rparr>, None) # rest)) Q) s1"
    proof (rule Cons.IH [OF s1 _ rest])
      fix secs' syncs' s2
      assume s2: "holds s2 secs' syncs'" and all: "\<forall>ss\<in>set sss. attained E vault secs' syncs' ss"
        and frame: "framed E sss ?secs ?syncs secs' syncs'"
      have key: "syncKey ss \<notin> syncKey ` set sss" "targetKeyOf ss \<notin> targetKeyOf ` set sss"
        using apart(1,2) by (metis imageE)+
      have "\<forall>other\<in>set sss. \<not> leftover E other x" using apart(3) upToDate_not_leftover [OF x] by blast
      with frame key have "syncs' (syncKey ss) = Some ss'" "secs' (targetKeyOf ss) = Some x"
        by (auto simp: framed_def)
      with v x ss' have "attained E vault secs' syncs' ss" unfolding attained_def by blast
      moreover have "framed E (ss # sss) secs syncs secs' syncs'"
        using frame by (auto simp: framed_def collected_def)
      ultimately show "wp (State_Monad.return ((\<lparr>res_RequeueAfter = reconcileInterval r\<rparr>, None)
          # replicate (length sss) (\<lparr>res_RequeueAfter = reconcileInterval r\<rparr>, None))) Q s2"
        using Cons.prems(4) [OF s2] all by (simp add: wp_return)
    qed
  qed
qed

end

section \<open>Requests\<close>

lemma requestsOf_simps [simp]:
  "requestsOf [] = []" "requestsOf (c # cs) = requestOf c @ requestsOf cs" "requestsOf (cs @ cs') = requestsOf cs @ requestsOf cs'"
  by (simp_all add: requestsOf_def)

lemma requestsOf_sends: "requestsOf (map (\<lambda>ss. Send ss True) sss) = map syncKey sss"
  by (induction sss) auto

lemma requestOf_delete [simp]: "requestOf (deleteOf l ctx m r) = []"
  by simp

text \<open>The requests a message of the queue turns into.\<close>

lemma handleMessage_requests:
  assumes "qm_DequeueCount m \<le> li_PoisonThreshold (ls_listener s)"
    and "Parse (le_unicode E) (qm_Text m) = Inr (Some ev)"
    and "le_List E ctx (ls_world s) = (Inr items, w1)" and "\<And>x w. fst (le_Send E x w)"
    and "run_state (handleMessage E ctx m) s = (u, s')"
  shows "\<exists>cs. ls_calls s' = ls_calls s @ cs \<and> requestsOf cs = map syncKey (filter (matchesEvent (le_unicode E) ev) items)"
proof -
  obtain cs out where m: "made s cs out s'" and rules: "messageRules (le_unicode E) (ls_listener s) ctx m cs out"
    using handleMessage_rules [of s E ctx m] assms(5) by auto
  obtain cs' where "cs = ListAll ctx (Inr items) # cs'" "\<forall>ss. Send ss False \<notin> set cs'"
    using handleMessage_listed [OF assms(1-4)] m assms(5) by (auto simp: made_def)
  with rules m assms(1,2) show ?thesis
    by cases (auto simp: made_def requestsOf_sends)
qed

section \<open>The reference cluster\<close>

lemma demoPair_ok: "refInv (world demoPair)"
  by (simp add: refInv_def otherSync_def otherSecret_def demo_defs ref_defs)

lemma demoPair_separate: "separate [demoSync, otherSync]"
  by (simp add: separate_def otherSync_def demo_defs ref_defs targetKeyOf_def resolveTargetName_def)

lemma demoPair_storable:
  assumes "ss \<in> {demoSync, otherSync}"
  shows "storable refEnv refAdmits ss ''s3cret'' ''v1'' (startingAt (refSecret (world demoPair)) (targetKeyOf ss))"
  using assms
  by (elim insertE emptyE; intro ref_storable)
    (simp_all add: startingAt_def refSecret_def targetKeyOf_def resolveTargetName_def resolveDataKey_def otherSync_def
      otherSecret_def demo_defs ref_defs)

lemma demoPair_attainable:
  "\<forall>ss\<in>set [demoSync, otherSync].
     attainable refEnv refAdmits (\<lambda>_ _. Some (''s3cret'', ''v1'')) (refSecret (world demoPair)) (refSync (world demoPair)) ss"
proof -
  have "attainable refEnv refAdmits (\<lambda>_ _. Some (''s3cret'', ''v1'')) (refSecret (world demoPair)) (refSync (world demoPair)) demoSync"
    using demoPair_storable [of demoSync]
    by (simp add: attainable_def) (simp add: unopposed_def sweepable_def refSecret_def refSync_def targetKeyOf_def resolveTargetName_def
        reclaimable_def labelled_def immutableBlocksWrite_def takesPrecedence_def otherSync_def otherSecret_def
        leftover_def demo_defs ref_defs)
  moreover have "attainable refEnv refAdmits (\<lambda>_ _. Some (''s3cret'', ''v1'')) (refSecret (world demoPair)) (refSync (world demoPair)) otherSync"
    using demoPair_storable [of otherSync]
    by (simp add: attainable_def) (simp add: unopposed_def sweepable_def refSecret_def refSync_def targetKeyOf_def resolveTargetName_def
        reclaimable_def labelled_def immutableBlocksWrite_def takesPrecedence_def otherSync_def otherSecret_def
        leftover_def demo_defs ref_defs)
  ultimately show ?thesis by simp
qed

lemma demoPair_matching: "filter (matchesEvent asciiTables demoEvent) [demoSync, otherSync] = [demoSync, otherSync]"
  by code_simp

section \<open>Properties\<close>

text \<open>
  (C12) Reconciles of different declarations do not disturb each other. Against an API server and a vault
  that answer as documented, reconcile any number of declarations of different targets one after the
  other, in any order, none of them opposed and each with a target it may take (\<open>attainable\<close>: the conditions of
  a single reconcile). Every reconcile succeeds; at the end each of them has its Secret at the
  vault's value and its status InSync, the ones reconciled first included; and no other declaration, and
  no Secret that is neither a target nor a leftover of one of them, has changed.
\<close>

theorem reconciles_independent:
  assumes "kube_vault E ok secretOf syncOf admits rd vault" and "ok (world s)" and "separate sss"
    and "\<forall>ss\<in>set sss. attainable E admits vault (secretOf (world s)) (syncOf (world s)) ss"
    and "rc_Client r = ManagerClient" and "rc_APIReader r = Some APIReader" and "rc_Reader r = Some rd"
    and "run_state (reconcileEach E r ctx (map syncKey sss)) s = (res, s')"
  shows "res = replicate (length sss) (\<lparr>res_RequeueAfter = reconcileInterval r\<rparr>, None)
    \<and> (\<forall>ss\<in>set sss. attained E vault (secretOf (world s')) (syncOf (world s')) ss)
    \<and> framed E sss (secretOf (world s)) (syncOf (world s)) (secretOf (world s')) (syncOf (world s'))"
  by (rule wp_run [OF assms(8)], rule kube_vault.reconcileEach_attains [OF assms(1) _ assms(4,3,5-7)])
    (use assms(2) in \<open>auto simp: stores_def\<close>)

theorem reconciles_independent_witness:
  "fst (demoWork (map syncKey [demoSync, otherSync])) =
     replicate (length [demoSync, otherSync]) (\<lparr>res_RequeueAfter = reconcileInterval (demoReconciler demoVault)\<rparr>, None)
   \<and> list_all (attained refEnv (\<lambda>_ _. Some (''s3cret'', ''v1''))
        (refSecret (world (snd (demoWork (map syncKey [demoSync, otherSync])))))
        (refSync (world (snd (demoWork (map syncKey [demoSync, otherSync])))))) [demoSync, otherSync]
   \<and> framed refEnv [demoSync, otherSync] (refSecret (world demoPair)) (refSync (world demoPair))
        (refSecret (world (snd (demoWork (map syncKey [demoSync, otherSync])))))
        (refSync (world (snd (demoWork (map syncKey [demoSync, otherSync])))))"
  unfolding list_all_iff
  by (rule reconciles_independent [OF reference.kube_vault_axioms _ _ _ _ _ _ surjective_pairing])
    (simp_all add: demoPair_attainable demoPair_separate demoPair_ok, simp_all add: demoReconciler_def)

text \<open>
  (C2) The realtime path end to end (US2). A message that parses to a change event, not over the poison threshold, is
  handled while the API server, the channel and the vault answer; then the requests that result are
  reconciled. The declarations that match the event have different targets and nothing stands against them
  (\<open>attainable\<close>); nothing is asked of the others. Then every admitted declaration whose vault and secret names equal the
  event's up to letter case has afterwards its Secret at the value the vault holds and its status InSync at that version.
\<close>

theorem event_reaches_secret:
  assumes "kube_vault E ok secretOf syncOf admits rd vault" and "ok (world s)"
    and "rc_Client r = ManagerClient" and "rc_APIReader r = Some APIReader" and "rc_Reader r = Some rd"
    and "qm_DequeueCount m \<le> li_PoisonThreshold (ls_listener l)"
    and "Parse (le_unicode L) (qm_Text m) = Inr (Some ev)"
    and "le_List L ctx (ls_world l) = (Inr items, w1)" and "\<And>x w. fst (le_Send L x w)"
    and "separate (filter (matchesEvent (le_unicode L) ev) items)"
    and "\<forall>ss\<in>set (filter (matchesEvent (le_unicode L) ev) items).
      attainable E admits vault (secretOf (world s)) (syncOf (world s)) ss"
    and "run_state (handleMessage L ctx m) l = (u, l')"
    and "run_state (reconcileEach E r ctx' (requestsOf (drop (length (ls_calls l)) (ls_calls l')))) s = (res, s')"
    and "ss \<in> set items" and "admitted (ss_Spec ss)"
    and "lowered (vault_Name (spec_Vault (ss_Spec ss))) = lowered (pe_VaultName ev)"
    and "lowered (vault_Secret (spec_Vault (ss_Spec ss))) = lowered (pe_SecretName ev)"
  shows "attained E vault (secretOf (world s')) (syncOf (world s')) ss"
proof -
  let ?sss = "filter (matchesEvent (le_unicode L) ev) items"
  have ss: "ss \<in> set ?sss" using assms(14) matchesEvent_of_lowered [OF assms(15-17)] by simp
  have requests: "requestsOf (drop (length (ls_calls l)) (ls_calls l')) = map syncKey ?sss"
    using handleMessage_requests [OF assms(6-9,12)] by auto
  have "\<forall>ss\<in>set ?sss. attained E vault (secretOf (world s')) (syncOf (world s')) ss"
    by (rule wp_run [OF assms(13) [unfolded requests]],
        rule kube_vault.reconcileEach_attains [OF assms(1) _ assms(11,10,3-5)])
      (use assms(2) in \<open>auto simp: stores_def\<close>)
  with ss show ?thesis by blast
qed

theorem event_reaches_secret_witness:
  "\<exists>l'. run_state (handleMessage demoListenerEnv RootCtx demoMessage) pairListening = ((), l')
     \<and> attained refEnv (\<lambda>_ _. Some (''s3cret'', ''v1''))
         (refSecret (world (snd (demoWork (requestsOf (drop (length (ls_calls pairListening)) (ls_calls l')))))))
         (refSync (world (snd (demoWork (requestsOf (drop (length (ls_calls pairListening)) (ls_calls l'))))))) otherSync"
proof -
  obtain l' where run: "run_state (handleMessage demoListenerEnv RootCtx demoMessage) pairListening = ((), l')"
    by (metis old.unit.exhaust surj_pair)
  let ?res = "demoWork (requestsOf (drop (length (ls_calls pairListening)) (ls_calls l')))"
  have env: "le_unicode demoListenerEnv = asciiTables" by (simp add: demoListenerEnv_def)
  have "attained refEnv (\<lambda>_ _. Some (''s3cret'', ''v1'')) (refSecret (world (snd ?res))) (refSync (world (snd ?res))) otherSync"
  proof (rule event_reaches_secret [where items = "[demoSync, otherSync]" and ev = demoEvent,
        OF reference.kube_vault_axioms demoPair_ok _ _ _ _ _ _ _ _ _ run surjective_pairing, unfolded env demoPair_matching])
    show "Parse asciiTables (qm_Text demoMessage) = Inr (Some demoEvent)" by (rule demoMessage_parsed)
    show "separate [demoSync, otherSync]" by (rule demoPair_separate)
    show "\<forall>ss\<in>set [demoSync, otherSync]. attainable refEnv refAdmits (\<lambda>_ _. Some (''s3cret'', ''v1''))
        (refSecret (world demoPair)) (refSync (world demoPair)) ss"
      by (rule demoPair_attainable)
    show "admitted (ss_Spec otherSync)"
      by (simp add: otherSync_def demoSync_def admitted_def validVaultSecret_def char_class_defs byte_def)
  qed (simp_all add: demoMessage_def pairListening_def freshListener_def NewListener_def settings_def demoReconciler_def
      demoListenerEnv_def demoEvent_def byte_def otherSync_def demoSync_def lowered_def lowerByte_def)
  with run show ?thesis by blast
qed

end
