(* ===== verification/Stale_Cache.thy ===== *)
theory Stale_Cache
  imports Reconcile_Converges
begin

text \<open>
  The writer over a cache that lags. The client of the manager reads Secrets from an informer's cache, which may
  be behind the server: it may not know a Secret yet, or still hold an earlier version of it. The locale
  \<open>kube_lagging\<close> extends the working server by such a cache and by optimistic concurrency: a resource version names
  one state of an object, and an update built on any other state is refused with a conflict. The recovery paths
  of \<open>internal/sync/writer.go\<close> (\<open>recoverAlreadyExists\<close>, \<open>recoverConflict\<close>) are shown to be enough for it.

  The instance is the reference cluster behind a cache that is only refreshed from outside.
\<close>

section \<open>A server behind a lagging cache\<close>

abbreviation versionOf :: "Secret \<Rightarrow> string" where "versionOf x \<equiv> om_ResourceVersion (sec_Meta x)"

text \<open>The reference cluster with the cached Secrets and with all states of Secrets so far. A state is new when its
  version is one the server had not reached before the call.\<close>

record lagging =
  lg_cluster :: cluster
  lg_cache :: "Secret list"
  lg_past :: "Secret list"

definition lagged :: "(cluster \<Rightarrow> 'r \<times> cluster) \<Rightarrow> lagging \<Rightarrow> 'r \<times> lagging" where
  "lagged f w =
     (case f (lg_cluster w) of (a, c) \<Rightarrow>
        (a, w\<lparr>lg_cluster := c,
           lg_past := lg_past w @ filter (\<lambda>x. cl_Version (lg_cluster w) \<le> length (versionOf x)) (cl_Secrets c)\<rparr>))"

definition lagGetSecret ::
    "client \<Rightarrow> goctx \<Rightarrow> NamespacedName \<Rightarrow> lagging \<Rightarrow> (goerr + Secret) \<times> lagging" where
  "lagGetSecret c ctx key w =
     (if c = ManagerClient
      then ((case find (secretAt key) (lg_cache w) of None \<Rightarrow> Inl (apiError ''NotFound'') | Some x \<Rightarrow> Inr x), w)
      else lagged (refGetSecret c ctx key) w)"

definition lagListSecrets ::
    "goctx \<Rightarrow> string \<Rightarrow> string \<Rightarrow> string \<Rightarrow> lagging \<Rightarrow> (goerr + Secret list) \<times> lagging" where
  "lagListSecrets ctx ns k v w = (Inr (filter (\<lambda>x. sec_Namespace x = ns \<and> hasLabel k v x) (lg_cache w)), w)"

definition lagEnv :: "lagging env" where
  "lagEnv =
     \<lparr>env_unicode = env_unicode refEnv,
      env_IsNotFound = env_IsNotFound refEnv,
      env_IsAlreadyExists = env_IsAlreadyExists refEnv,
      env_IsConflict = env_IsConflict refEnv,
      env_IsInvalid = env_IsInvalid refEnv,
      env_GetControllerOf = refGetControllerOf,
      env_SetStatusCondition = refSetStatusCondition,
      env_SetControllerReference = refSetControllerReference,
      env_ContainsFinalizer = refContainsFinalizer,
      env_AddFinalizer = refAddFinalizer,
      env_RemoveFinalizer = refRemoveFinalizer,
      env_GetSecretSync = (\<lambda>ctx key. lagged (refGetSecretSync ctx key)),
      env_ListSecretSyncs = (\<lambda>ctx ns. lagged (refListSecretSyncs ctx ns)),
      env_GetSecret = lagGetSecret,
      env_ListSecrets = lagListSecrets,
      env_CreateSecret = (\<lambda>ctx x. lagged (refCreateSecret ctx x)),
      env_UpdateSecret = (\<lambda>ctx x. lagged (refUpdateSecret ctx x)),
      env_DeleteSecret = (\<lambda>ctx x. lagged (refDeleteSecret ctx x)),
      env_UpdateSecretSync = (\<lambda>ctx ss. lagged (refUpdateSecretSync ctx ss)),
      env_UpdateStatus = (\<lambda>ctx ss. lagged (refUpdateStatus ctx ss)),
      env_Now = lagged refNow\<rparr>"

text \<open>Each state of a Secret has a version of its own, below the next one of the server.\<close>

definition lagInv :: "lagging \<Rightarrow> bool" where
  "lagInv w \<longleftrightarrow> refInv (lg_cluster w) \<and> 0 < cl_Version (lg_cluster w)
     \<and> set (cl_Secrets (lg_cluster w)) \<subseteq> set (lg_past w) \<and> set (lg_cache w) \<subseteq> set (lg_past w)
     \<and> (\<forall>x \<in> set (lg_past w). versionOf x \<noteq> [] \<and> length (versionOf x) < cl_Version (lg_cluster w))
     \<and> (\<forall>x \<in> set (lg_past w). \<forall>y \<in> set (lg_past w). secretKey x = secretKey y \<and> versionOf x = versionOf y \<longrightarrow> x = y)"

text \<open>A step of the server: Secrets stay, go, or are stored under the next version.\<close>

definition revision :: "cluster \<Rightarrow> cluster \<Rightarrow> bool" where
  "revision c c' \<longleftrightarrow>
     set (cl_Secrets c') \<subseteq> set (cl_Secrets c) \<and> cl_Version c' = cl_Version c
     \<or> (\<exists>x. set (cl_Secrets c') \<subseteq> insert (bumped x c) (set (cl_Secrets c))) \<and> cl_Version c' = Suc (cl_Version c)"

text \<open>A start: another client has labelled the managed Secret, and the cache has not seen it yet.\<close>

definition cachedSecret :: Secret where
  "cachedSecret = heldSecret\<lparr>sec_Meta := (sec_Meta heldSecret)\<lparr>om_ResourceVersion := ''iiiii''\<rparr>\<rparr>"

definition taggedSecret :: Secret where
  "taggedSecret = cachedSecret\<lparr>sec_Meta := (sec_Meta cachedSecret)\<lparr>om_ResourceVersion := ''iiiiii'',
     om_Labels := fmupd ''team'' ''db'' (om_Labels (sec_Meta cachedSecret))\<rparr>\<rparr>"

definition lagStart :: "lagging sys" where
  "lagStart =
     \<lparr>world = \<lparr>lg_cluster = \<lparr>cl_Secrets = [taggedSecret], cl_Syncs = [demoSync], cl_Clock = 100 * Second, cl_Version = 7\<rparr>,
        lg_cache = [cachedSecret], lg_past = [cachedSecret, taggedSecret]\<rparr>,
      calls = [], emitted = [], syncTotal = (\<lambda>_. 0), logs = []\<rparr>"

definition lagRun :: "goerr option \<times> lagging sys" where
  "lagRun = run_state (CreateOrUpdate lagEnv \<lparr>sw_Client = Some ManagerClient, sw_Reader = Some APIReader\<rparr> RootCtx demoSync
     ''app'' ''db'' (resolveDataKey demoSync) ''n3w'' ''v2'') lagStart"

locale kube_lagging = kube_server E inv secretOf syncOf admits
  for E :: "'w env" and inv :: "'w \<Rightarrow> bool" and secretOf :: "'w \<Rightarrow> NamespacedName \<Rightarrow> Secret option"
    and syncOf :: "'w \<Rightarrow> NamespacedName \<Rightarrow> SecretSync option" and admits :: "Secret \<Rightarrow> bool" +
  fixes past :: "'w \<Rightarrow> Secret set"
  assumes stored_past: "inv w \<Longrightarrow> secretOf w key = Some x \<Longrightarrow> x \<in> past w"
    and versions: "inv w \<Longrightarrow> x \<in> past w \<Longrightarrow> y \<in> past w \<Longrightarrow> secretKey x = secretKey y \<Longrightarrow>
        versionOf x = versionOf y \<Longrightarrow> x = y"
    and lagging_get: "inv w \<Longrightarrow> \<exists>a. env_GetSecret E ManagerClient ctx key w = (a, w)
        \<and> (case a of Inl e \<Rightarrow> env_IsNotFound E e | Inr x \<Rightarrow> x \<in> past w \<and> secretKey x = key)"
    and stale_update: "inv w \<Longrightarrow> secretOf w (secretKey x) = Some old \<Longrightarrow> versionOf x \<noteq> versionOf old \<Longrightarrow>
        \<exists>e. env_UpdateSecret E ctx x w = (Some e, w) \<and> env_IsConflict E e"
    and conflict_wrapped: "env_IsConflict E e \<Longrightarrow> env_IsConflict E (Errorf message [e])"
begin

lemma cachedGet_lag_wp:
  assumes "holds s secs syncs"
    and "\<And>e s'. holds s' secs syncs \<Longrightarrow> env_IsNotFound E e \<Longrightarrow> Q (Inl e) s'"
    and "\<And>x s'. env_GetSecret E ManagerClient ctx key (world s) = (Inr x, world s) \<Longrightarrow> x \<in> past (world s) \<Longrightarrow>
      secretKey x = key \<Longrightarrow> world s' = world s \<Longrightarrow> Q (Inr x) s'"
  shows "wp (getSecret E ManagerClient ctx key) Q s"
proof -
  obtain a where a: "env_GetSecret E ManagerClient ctx key (world s) = (a, world s)"
      "case a of Inl e \<Rightarrow> env_IsNotFound E e | Inr x \<Rightarrow> x \<in> past (world s) \<and> secretKey x = key"
    using lagging_get [OF holdsD(1) [OF assms(1)], of ctx key] by blast
  with assms show ?thesis by (cases a) (auto simp: getSecret_def wp_perform)
qed

lemma staleUpdate_wp:
  assumes "holds s secs syncs" and "secs (secretKey x) = Some old" and "versionOf x \<noteq> versionOf old"
    and "\<And>e s'. holds s' secs syncs \<Longrightarrow> env_IsConflict E e \<Longrightarrow> Q (Some e) s'"
  shows "wp (updateSecret E ctx x) Q s"
proof -
  obtain e where "env_UpdateSecret E ctx x (world s) = (Some e, world s)" "env_IsConflict E e"
    using stale_update [OF holdsD(1) [OF assms(1)], of x old ctx] assms(2,3) holdsD(2) [OF assms(1)] by auto
  with assms show ?thesis by (simp add: updateSecret_def wp_perform)
qed

text \<open>An update built on a stale copy is refused once and then redone on the copy the server holds.\<close>

lemma applyUpdate_stale_wp:
  assumes "holds s secs syncs" and "secs (secretKey old) = Some x" and "versionOf old \<noteq> versionOf x"
    and "reclaimable E ss value old" and "sec_Namespace old = ss_Namespace ss"
    and "\<And>e s'. holds s' secs syncs \<Longrightarrow> env_IsConflict E e \<Longrightarrow> Q (Some e) s'"
  shows "wp (applyUpdate E ctx ss old (resolveDataKey ss) value version) Q s"
proof -
  obtain y where y: "stamped E ss (resolveDataKey ss) value version old y"
    by (rule stampable [OF assms(5)]) (use assms(4) in \<open>auto simp: reclaimable_def\<close>)
  note content = stamped_content [OF owner_laws y]
  have "\<not> immutableBlocksWrite old (resolveDataKey ss) value" using assms(4) by (simp add: reclaimable_def)
  with y [unfolded stamped_def] show ?thesis
    by (auto simp: applyUpdate_def Let_def wp_simps content(1,2) assms(3)
        intro!: staleUpdate_wp [OF assms(1)] assms(2,6) conflict_wrapped)
qed

lemma recoverConflict_wp:
  assumes "holds s secs syncs" and "secs \<lparr>nn_Namespace = ns, nn_Name = name\<rparr> = Some x"
    and "reclaimable E ss value x" and "sw_Reader w = Some APIReader"
    and "ns = ss_Namespace ss" and "storable E admits ss value version x"
    and "\<And>y x' s'. stamped E ss (resolveDataKey ss) value version x y \<Longrightarrow> sameContent x' y \<Longrightarrow>
      holds s' (secs(\<lparr>nn_Namespace = ns, nn_Name = name\<rparr> \<mapsto> x')) syncs \<Longrightarrow> Q None s'"
  shows "wp (recoverConflict E w ctx ss ns name (resolveDataKey ss) value version) Q s"
  using assms stored_key [OF assms(1,2)] reclaimable_writable [OF assms(3)]
  by (auto simp: recoverConflict_def freshCopy_def readerGet_def reader_def wp_bind wp_return
      intro!: apiGet_wp applyUpdate_wp)

lemma update_lag_wp:
  assumes "holds s secs syncs" and "secs (secretKey old) = Some x" and "old \<in> past (world s)"
    and "reclaimable E ss value old" and "reclaimable E ss value x" and "sw_Reader w = Some APIReader"
    and "sec_Namespace old = ss_Namespace ss" and "storable E admits ss value version x"
    and "\<And>y x' s'. stamped E ss (resolveDataKey ss) value version x y \<Longrightarrow> sameContent x' y \<Longrightarrow>
      holds s' (secs(secretKey old \<mapsto> x')) syncs \<Longrightarrow> Q None s'"
  shows "wp (update E w ctx ss old (resolveDataKey ss) value version) Q s"
proof (cases "versionOf old = versionOf x")
  case True
  have "x \<in> past (world s)" "secretKey x = secretKey old"
    using assms(1,2) by (auto simp: stores_def intro: stored_past secret_key)
  with True have "old = x" using versions [OF holdsD(1) [OF assms(1)] assms(3)] by simp
  with assms show ?thesis by (auto simp: update_def wp_bind wp_return intro!: applyUpdate_wp)
next
  case False
  have key: "\<lparr>nn_Namespace = sec_Namespace old, nn_Name = sec_Name old\<rparr> = secretKey old" by (simp add: secretKey_def)
  have "wp (recoverConflict E w ctx ss (sec_Namespace old) (sec_Name old) (resolveDataKey ss) value version) Q s'"
    if "holds s' secs syncs" for s'
    by (rule recoverConflict_wp [where x = x and ns = "sec_Namespace old" and name = "sec_Name old", unfolded key,
          OF that assms(2,5,6,7,8)]) (rule assms(9))
  then show ?thesis
    unfolding update_def wp_bind
    by (intro applyUpdate_stale_wp [OF assms(1,2) False assms(4,7)]) auto
qed

lemma CreateOrUpdate_lag_wp:
  assumes "holds s secs syncs" and "sw_Client w = Some ManagerClient" and "sw_Reader w = Some APIReader"
    and "ns = ss_Namespace ss" and "\<And>x. secs \<lparr>nn_Namespace = ns, nn_Name = name\<rparr> = Some x \<Longrightarrow> reclaimable E ss value x"
    and "storable E admits ss value version (startingAt secs \<lparr>nn_Namespace = ns, nn_Name = name\<rparr>)"
    and "\<And>old w'. env_GetSecret E ManagerClient ctx \<lparr>nn_Namespace = ns, nn_Name = name\<rparr> (world s) = (Inr old, w') \<Longrightarrow>
      reclaimable E ss value old \<and> secs \<lparr>nn_Namespace = ns, nn_Name = name\<rparr> \<noteq> None"
    and "\<And>y x' s'. stamped E ss (resolveDataKey ss) value version (startingAt secs \<lparr>nn_Namespace = ns, nn_Name = name\<rparr>) y \<Longrightarrow> sameContent x' y \<Longrightarrow>
      holds s' (secs(\<lparr>nn_Namespace = ns, nn_Name = name\<rparr> \<mapsto> x')) syncs \<Longrightarrow> Q None s'"
  shows "wp (CreateOrUpdate E w ctx ss ns name (resolveDataKey ss) value version) Q s"
proof -
  let ?key = "\<lparr>nn_Namespace = ns, nn_Name = name\<rparr>"
  have found: "wp (update E w ctx ss old (resolveDataKey ss) value version) Q s'"
    if old: "env_GetSecret E ManagerClient ctx ?key (world s) = (Inr old, world s)" "old \<in> past (world s)"
      "secretKey old = ?key" and s': "world s' = world s" for old s'
  proof -
    obtain x where x: "secs ?key = Some x" using assms(7) [OF old(1)] by blast
    have start: "startingAt secs ?key = x" using x by (simp add: startingAt_def)
    have "sec_Namespace old = ss_Namespace ss" using old(3) assms(4) by (simp add: secretKey_def)
    moreover have "holds s' secs syncs" using assms(1) s' by (simp add: stores_def)
    ultimately show ?thesis
      using assms(3) assms(5) [OF x] assms(6) [unfolded start] assms(7) [OF old(1)] old(2,3) s' x
      by (intro update_lag_wp [where x = x and secs = secs and syncs = syncs]) (auto intro: assms(8) [unfolded start])
  qed
  show ?thesis
    unfolding CreateOrUpdate_def assms(2) option.case wp_bind
    by (rule cachedGet_lag_wp [OF assms(1)])
      (use assms(3-6,8) found assms(7) in \<open>auto dest: reclaimable_writable intro!: create_wp\<close>)
qed

end

section \<open>The reference cluster behind a cache\<close>

lemma lagEnv_simps [simp]:
  "env_unicode lagEnv = env_unicode refEnv" "env_IsNotFound lagEnv = env_IsNotFound refEnv"
  "env_IsAlreadyExists lagEnv = env_IsAlreadyExists refEnv" "env_IsConflict lagEnv = env_IsConflict refEnv"
  "env_IsInvalid lagEnv = env_IsInvalid refEnv" "env_GetControllerOf lagEnv = refGetControllerOf"
  "env_SetStatusCondition lagEnv = refSetStatusCondition" "env_SetControllerReference lagEnv = refSetControllerReference"
  "env_ContainsFinalizer lagEnv = refContainsFinalizer" "env_AddFinalizer lagEnv = refAddFinalizer"
  "env_RemoveFinalizer lagEnv = refRemoveFinalizer" "env_GetSecret lagEnv = lagGetSecret"
  "env_ListSecrets lagEnv = lagListSecrets"
  "env_GetSecretSync lagEnv ctx key = lagged (env_GetSecretSync refEnv ctx key)"
  "env_ListSecretSyncs lagEnv ctx ns = lagged (env_ListSecretSyncs refEnv ctx ns)"
  "env_CreateSecret lagEnv ctx x = lagged (env_CreateSecret refEnv ctx x)"
  "env_UpdateSecret lagEnv ctx x = lagged (env_UpdateSecret refEnv ctx x)"
  "env_DeleteSecret lagEnv ctx x = lagged (env_DeleteSecret refEnv ctx x)"
  "env_UpdateSecretSync lagEnv ctx ss = lagged (env_UpdateSecretSync refEnv ctx ss)"
  "env_UpdateStatus lagEnv ctx ss = lagged (env_UpdateStatus refEnv ctx ss)"
  "env_Now lagEnv = lagged (env_Now refEnv)"
  by (simp_all add: lagEnv_def)

lemma revision_refl [simp]: "revision c c"
  by (simp add: revision_def)

lemma ref_revision:
  "env_GetSecretSync refEnv ctx key c = (a1, c') \<Longrightarrow> revision c c'"
  "env_ListSecretSyncs refEnv ctx ns c = (a2, c') \<Longrightarrow> revision c c'"
  "env_GetSecret refEnv cl ctx key c = (a3, c') \<Longrightarrow> revision c c'"
  "env_CreateSecret refEnv ctx x c = (a4, c') \<Longrightarrow> revision c c'"
  "env_UpdateSecret refEnv ctx x c = (a4, c') \<Longrightarrow> revision c c'"
  "env_DeleteSecret refEnv ctx x c = (a4, c') \<Longrightarrow> revision c c'"
  "env_UpdateSecretSync refEnv ctx ss c = (a1, c') \<Longrightarrow> revision c c'"
  "env_UpdateStatus refEnv ctx ss c = (a1, c') \<Longrightarrow> revision c c'"
  "env_Now refEnv c = (a5, c') \<Longrightarrow> revision c c'"
  by (auto simp: refGetSecretSync_def refListSecretSyncs_def refGetSecret_def refCreateSecret_def refUpdateSecret_def
      refDeleteSecret_def refUpdateSecretSync_def refUpdateStatus_def refPut_def refNow_def revision_def
      split: option.splits if_splits)

lemma lagInvD:
  assumes "lagInv w"
  shows "refInv (lg_cluster w)" "0 < cl_Version (lg_cluster w)" "set (cl_Secrets (lg_cluster w)) \<subseteq> set (lg_past w)"
    "set (lg_cache w) \<subseteq> set (lg_past w)" "x \<in> set (lg_past w) \<Longrightarrow> versionOf x \<noteq> []"
    "x \<in> set (lg_past w) \<Longrightarrow> length (versionOf x) < cl_Version (lg_cluster w)"
    "x \<in> set (lg_past w) \<Longrightarrow> y \<in> set (lg_past w) \<Longrightarrow> secretKey x = secretKey y \<Longrightarrow> versionOf x = versionOf y \<Longrightarrow> x = y"
  using assms by (auto simp: lagInv_def)

lemma lagInv_step:
  assumes "lagInv w" and "f (lg_cluster w) = (a, c')" and "revision (lg_cluster w) c'" and "refInv c'"
  shows "\<exists>w'. lagged f w = (a, w') \<and> lg_cluster w' = c' \<and> lg_cache w' = lg_cache w
    \<and> set (lg_past w') = set (lg_past w) \<union> set (cl_Secrets c') \<and> lagInv w'"
proof -
  let ?c = "lg_cluster w"
  let ?w' = "w\<lparr>lg_cluster := c', lg_past := lg_past w @ filter (\<lambda>x. cl_Version ?c \<le> length (versionOf x)) (cl_Secrets c')\<rparr>"
  note old = lagInvD [OF assms(1)]
  have "set (cl_Secrets c') \<subseteq> set (lg_past w) \<union> {x. cl_Version ?c \<le> length (versionOf x)}"
    using old(3) assms(3) by (auto simp: revision_def bumped_def)
  then have past: "set (lg_past ?w') = set (lg_past w) \<union> set (cl_Secrets c')" by auto
  obtain new where new: "set (lg_past ?w') \<subseteq> set (lg_past w) \<union> new"
      "new = {} \<and> cl_Version c' = cl_Version ?c \<or> (\<exists>x. new = {bumped x ?c}) \<and> cl_Version c' = Suc (cl_Version ?c)"
    using old(3) assms(3) unfolding past revision_def by blast
  have fresh: "versionOf y \<noteq> []" "length (versionOf y) = cl_Version ?c" "cl_Version c' = Suc (cl_Version ?c)" if "y \<in> new" for y
    using new(2) that old(2) by (auto simp: bumped_def)
  have grown: "cl_Version ?c \<le> cl_Version c'" using new(2) by auto
  have split: "z \<in> set (lg_past w) \<and> z \<notin> new \<and> length (versionOf z) < cl_Version ?c \<or> z \<in> new \<and> length (versionOf z) = cl_Version ?c"
    if "z \<in> set (lg_past ?w')" for z
    using that new(1) fresh(2) [of z] old(6) [of z] by blast
  have "lagInv ?w'"
    unfolding lagInv_def
  proof (intro conjI ballI impI)
    show "set (cl_Secrets (lg_cluster ?w')) \<subseteq> set (lg_past ?w')" "set (lg_cache ?w') \<subseteq> set (lg_past ?w')"
      unfolding past using old(4) by auto
    fix x
    assume x: "x \<in> set (lg_past ?w')"
    show "versionOf x \<noteq> []" using split [OF x] fresh(1) old(5) by blast
    show "length (versionOf x) < cl_Version (lg_cluster ?w')" using split [OF x] fresh(3) grown by auto
    fix y
    assume y: "y \<in> set (lg_past ?w')" and same: "secretKey x = secretKey y \<and> versionOf x = versionOf y"
    show "x = y" using split [OF x] split [OF y] same old(7) [of x y] new(2) by auto
  qed (use assms(4) old(2) grown in simp_all)
  with assms(2) past show ?thesis by (simp add: lagged_def)
qed

lemma lagged_read:
  assumes "lagInv w" and "f (lg_cluster w) = (a, lg_cluster w)"
  shows "lagged f w = (a, w)"
proof -
  have "filter (\<lambda>x. cl_Version (lg_cluster w) \<le> length (versionOf x)) (cl_Secrets (lg_cluster w)) = []"
    using lagInvD(3,6) [OF assms(1)] by (fastforce simp: filter_empty_conv)
  with assms(2) show ?thesis by (simp add: lagged_def)
qed

lemma lag_lift:
  assumes "lagInv w" and "\<exists>y c'. f (lg_cluster w) = (a y, c') \<and> refInv c' \<and> P y c'"
    and "\<And>y c'. f (lg_cluster w) = (a y, c') \<Longrightarrow> revision (lg_cluster w) c'"
  shows "\<exists>y w'. lagged f w = (a y, w') \<and> lagInv w' \<and> P y (lg_cluster w')"
proof -
  obtain y c' where c': "f (lg_cluster w) = (a y, c')" "refInv c'" "P y c'" using assms(2) by blast
  from lagInv_step [where f = f, OF assms(1) c'(1) assms(3) [OF c'(1)] c'(2)] c'(3) show ?thesis by blast
qed

abbreviation lagSecret :: "lagging \<Rightarrow> NamespacedName \<Rightarrow> Secret option" where "lagSecret w \<equiv> refSecret (lg_cluster w)"
abbreviation lagSync :: "lagging \<Rightarrow> NamespacedName \<Rightarrow> SecretSync option" where "lagSync w \<equiv> refSync (lg_cluster w)"

lemma lag_create:
  assumes "lagInv w" and "lagSecret w (secretKey x) = None" and "refAdmits x"
  shows "\<exists>x' w'. env_CreateSecret lagEnv ctx x w = (None, w') \<and> sameContent x' x \<and> lagInv w'
    \<and> lagSecret w' = (lagSecret w)(secretKey x \<mapsto> x') \<and> lagSync w' = lagSync w"
  using lag_lift [OF assms(1), where f = "env_CreateSecret refEnv ctx x" and a = "\<lambda>_. None"
      and P = "\<lambda>x' c'. sameContent x' x \<and> refSecret c' = (lagSecret w)(secretKey x \<mapsto> x') \<and> refSync c' = lagSync w"]
    ref_create [OF lagInvD(1) [OF assms(1)] assms(2,3), of ctx] ref_revision(4) [of ctx x "lg_cluster w"]
  unfolding lagEnv_simps by blast

lemma lag_update:
  assumes "lagInv w" and "lagSecret w (secretKey x) = Some old" and "revises x old" and "refAdmits x"
  shows "\<exists>x' w'. env_UpdateSecret lagEnv ctx x w = (None, w') \<and> sameContent x' x \<and> lagInv w'
    \<and> lagSecret w' = (lagSecret w)(secretKey x \<mapsto> x') \<and> lagSync w' = lagSync w"
  using lag_lift [OF assms(1), where f = "env_UpdateSecret refEnv ctx x" and a = "\<lambda>_. None"
      and P = "\<lambda>x' c'. sameContent x' x \<and> refSecret c' = (lagSecret w)(secretKey x \<mapsto> x') \<and> refSync c' = lagSync w"]
    ref_update [OF lagInvD(1) [OF assms(1)] assms(2-4), of ctx] ref_revision(5) [of ctx x "lg_cluster w"]
  unfolding lagEnv_simps by blast

lemma lag_delete:
  assumes "lagInv w" and "lagSecret w (secretKey x) = Some old" and "om_Finalizers (sec_Meta old) = []"
  shows "\<exists>w'. env_DeleteSecret lagEnv ctx x w = (None, w') \<and> lagInv w'
    \<and> lagSecret w' = (lagSecret w)(secretKey x := None) \<and> lagSync w' = lagSync w"
  using lag_lift [OF assms(1), where f = "env_DeleteSecret refEnv ctx x" and a = "\<lambda>_::unit. None"
      and P = "\<lambda>_ c'. refSecret c' = (lagSecret w)(secretKey x := None) \<and> refSync c' = lagSync w"]
    ref_delete [OF lagInvD(1) [OF assms(1)] assms(2,3), of ctx] ref_revision(6) [of ctx x "lg_cluster w"]
  unfolding lagEnv_simps by blast

lemma lag_delete_missing:
  assumes "lagInv w" and "lagSecret w (secretKey x) = None"
  shows "\<exists>e. env_DeleteSecret lagEnv ctx x w = (Some e, w) \<and> env_IsNotFound lagEnv e"
  using ref_delete_missing [OF assms(2), of ctx] by (auto dest: lagged_read [OF assms(1)])

lemma lag_update_sync:
  assumes "lagInv w" and "lagSync w (syncKey ss) = Some cur" and "ss = cur\<lparr>ss_Meta := (ss_Meta cur)\<lparr>om_Finalizers := fs\<rparr>\<rparr>"
  shows "\<exists>ss' w'. env_UpdateSecretSync lagEnv ctx ss w = (Inr ss', w') \<and> sameSync ss' ss \<and> lagInv w'
    \<and> lagSync w' = (lagSync w)(syncKey ss \<mapsto> ss') \<and> lagSecret w' = lagSecret w"
  using lag_lift [OF assms(1), where f = "env_UpdateSecretSync refEnv ctx ss" and a = Inr
      and P = "\<lambda>ss' c'. sameSync ss' ss \<and> refSync c' = (lagSync w)(syncKey ss \<mapsto> ss') \<and> refSecret c' = lagSecret w"]
    ref_update_sync [OF lagInvD(1) [OF assms(1)] assms(2,3), of ctx] ref_revision(7) [of ctx ss "lg_cluster w"]
  unfolding lagEnv_simps by blast

lemma lag_update_status:
  assumes "lagInv w" and "lagSync w (syncKey ss) = Some cur" and "ss = cur\<lparr>ss_Status := status\<rparr>"
  shows "\<exists>ss' w'. env_UpdateStatus lagEnv ctx ss w = (Inr ss', w') \<and> sameStatus (ss_Status ss') status
    \<and> sameSync ss' (ss\<lparr>ss_Status := ss_Status ss'\<rparr>) \<and> lagInv w'
    \<and> lagSync w' = (lagSync w)(syncKey ss \<mapsto> ss') \<and> lagSecret w' = lagSecret w"
  using lag_lift [OF assms(1), where f = "env_UpdateStatus refEnv ctx ss" and a = Inr
      and P = "\<lambda>ss' c'. sameStatus (ss_Status ss') status \<and> sameSync ss' (ss\<lparr>ss_Status := ss_Status ss'\<rparr>)
        \<and> refSync c' = (lagSync w)(syncKey ss \<mapsto> ss') \<and> refSecret c' = lagSecret w"]
    ref_update_status [OF lagInvD(1) [OF assms(1)] assms(2,3), of ctx] ref_revision(8) [of ctx ss "lg_cluster w"]
  unfolding lagEnv_simps by blast

lemma lag_clock:
  assumes "lagInv w"
  shows "\<exists>t w'. env_Now lagEnv w = (t, w') \<and> lagInv w' \<and> lagSecret w' = lagSecret w \<and> lagSync w' = lagSync w"
  using lag_lift [OF assms(1), where f = "env_Now refEnv" and a = "\<lambda>t. t"
      and P = "\<lambda>t c'. refSecret c' = lagSecret w \<and> refSync c' = lagSync w"]
    ref_clock [OF lagInvD(1) [OF assms(1)]] ref_revision(9) [of "lg_cluster w"]
  unfolding lagEnv_simps by blast

lemma ownerRefLaws_cong:
  assumes "env_SetControllerReference E' = env_SetControllerReference E" and "env_GetControllerOf E' = env_GetControllerOf E"
  shows "ownerRefLaws E' = ownerRefLaws E"
  using assms by (simp add: ownerRefLaws_def)

lemma lag_pure:
  "ownerRefLaws lagEnv" "conditionLaw lagEnv"
  "om_OwnerReferences (sec_Meta x) = [] \<Longrightarrow> env_GetControllerOf lagEnv x = None"
  "\<exists>fs. env_AddFinalizer lagEnv ss f = ss\<lparr>ss_Meta := (ss_Meta ss)\<lparr>om_Finalizers := fs\<rparr>\<rparr>"
  "\<exists>fs. env_RemoveFinalizer lagEnv ss f = ss\<lparr>ss_Meta := (ss_Meta ss)\<lparr>om_Finalizers := fs\<rparr>\<rparr>
     \<and> \<not> env_ContainsFinalizer lagEnv (env_RemoveFinalizer lagEnv ss f) f"
  "om_Finalizers (ss_Meta ss) = om_Finalizers (ss_Meta cur) \<Longrightarrow>
   env_ContainsFinalizer lagEnv ss f = env_ContainsFinalizer lagEnv cur f"
  using refEnv_ownerRefLaws ownerRefLaws_cong [of lagEnv refEnv] refEnv_conditionLaw reference.unowned [of x]
    ref_finalizers(1,2) [of ss f] ref_finalizers(3) [of ss cur f]
  by (simp_all add: conditionLaw_def)

lemma lag_reads:
  assumes "lagInv w"
  shows "lagSync w key = Some ss \<Longrightarrow> env_GetSecretSync lagEnv ctx key w = (Inr ss, w)"
    and "lagSecret w key = Some x \<Longrightarrow> env_GetSecret lagEnv APIReader ctx key w = (Inr x, w)"
    and "lagSecret w key = None \<Longrightarrow> \<exists>e. env_GetSecret lagEnv APIReader ctx key w = (Inl e, w) \<and> env_IsNotFound lagEnv e"
    and "\<exists>items. env_ListSecretSyncs lagEnv ctx ns w = (Inr items, w)
      \<and> set items = {ss. \<exists>key. lagSync w key = Some ss \<and> (ns = [] \<or> nn_Namespace key = ns)}"
  using ref_reads(1) [of "lg_cluster w" key ss ctx] ref_reads(2) [of "lg_cluster w" key x ctx]
    ref_reads(3) [of "lg_cluster w" key ctx] ref_lists(1) [OF lagInvD(1) [OF assms], of ctx ns]
  by (auto simp: lagGetSecret_def dest: lagged_read [OF assms])

lemma lag_create_exists:
  assumes "lagInv w" and "lagSecret w (secretKey x) = Some old"
  shows "\<exists>e. env_CreateSecret lagEnv ctx x w = (Some e, w) \<and> env_IsAlreadyExists lagEnv e"
  using ref_create_exists [OF assms(2), of ctx] by (auto dest: lagged_read [OF assms(1)])

lemma lag_conflict:
  assumes "lagInv w" and "lagSecret w (secretKey x) = Some old" and "versionOf x \<noteq> versionOf old"
  shows "\<exists>e. env_UpdateSecret lagEnv ctx x w = (Some e, w) \<and> env_IsConflict lagEnv e"
proof -
  have "env_UpdateSecret refEnv ctx x (lg_cluster w) = (Some (apiError ''Conflict''), lg_cluster w)"
    using assms(2,3) by (simp add: refUpdateSecret_def refSecret_def)
  then have "lagged (env_UpdateSecret refEnv ctx x) w = (Some (apiError ''Conflict''), w)" by (rule lagged_read [OF assms(1)])
  then show ?thesis by (simp add: hasReason_def apiError_def)
qed

lemmas lag_laws = lag_pure lag_reads lag_create lag_create_exists lag_update lag_delete lag_delete_missing lag_update_sync
  lag_clock ref_keys

interpretation lagging_server: kube_server lagEnv lagInv lagSecret lagSync refAdmits
proof
  fix owner x
  show "\<exists>x'. env_SetControllerReference lagEnv owner x = Inr x'"
    if "sec_Namespace x = ss_Namespace owner"
      "\<And>ref. env_GetControllerOf lagEnv x = Some ref \<Longrightarrow> or_Kind ref = secretSyncKind \<and> or_Name ref = ss_Name owner"
    using that ref_set_reference [of x owner] by simp
next
  fix w ss cur status and ctx :: goctx
  assume "lagInv w" "lagSync w (syncKey ss) = Some cur" "ss = cur\<lparr>ss_Status := status\<rparr>"
  then show "\<exists>ss' w'. env_UpdateStatus lagEnv ctx ss w = (Inr ss', w') \<and> sameStatus (ss_Status ss') status
      \<and> sameSync ss' (ss\<lparr>ss_Status := ss_Status ss'\<rparr>) \<and> lagInv w'
      \<and> lagSync w' = (lagSync w)(syncKey ss \<mapsto> ss') \<and> lagSecret w' = lagSecret w"
    by (rule lag_update_status)
next
  fix w ss cur fs and ctx :: goctx
  assume "lagInv w" "lagSync w (syncKey ss) = Some cur" "ss = cur\<lparr>ss_Meta := (ss_Meta cur)\<lparr>om_Finalizers := fs\<rparr>\<rparr>"
  from lag_update_sync [OF this]
  show "\<exists>ss' w'. env_UpdateSecretSync lagEnv ctx ss w = (Inr ss', w') \<and> sameSync ss' ss \<and> lagInv w' \<and> lagSecret w' = lagSecret w
      \<and> lagSync w' \<in> {(lagSync w)(syncKey ss := None), (lagSync w)(syncKey ss \<mapsto> ss')}" by blast
qed (rule lag_laws; assumption)+

interpretation lagging: kube_lagging lagEnv lagInv lagSecret lagSync refAdmits "\<lambda>w. set (lg_past w)"
proof
  fix w key and x y :: Secret and ctx :: goctx
  assume w: "lagInv w"
  show "x \<in> set (lg_past w)" if "lagSecret w key = Some x"
    using that refSecret_iff [OF lagInvD(1) [OF w]] lagInvD(3) [OF w] by auto
  show "x = y" if "x \<in> set (lg_past w)" "y \<in> set (lg_past w)" "secretKey x = secretKey y" "versionOf x = versionOf y"
    using lagInvD(7) [OF w that] .
  show "\<exists>a. env_GetSecret lagEnv ManagerClient ctx key w = (a, w)
      \<and> (case a of Inl e \<Rightarrow> env_IsNotFound lagEnv e | Inr x \<Rightarrow> x \<in> set (lg_past w) \<and> secretKey x = key)"
    using lagInvD(4) [OF w] ref_notFound
    by (auto simp: lagGetSecret_def secretAt_iff split: option.split dest!: find_Some_iff [THEN iffD1])
next
  fix w x old and ctx :: goctx
  show "\<exists>e. env_UpdateSecret lagEnv ctx x w = (Some e, w) \<and> env_IsConflict lagEnv e"
    if "lagInv w" "lagSecret w (secretKey x) = Some old" "versionOf x \<noteq> versionOf old"
    by (rule lag_conflict [OF that])
next
  show "env_IsConflict lagEnv (Errorf message [e])" if "env_IsConflict lagEnv e" for e message
    using that by (auto simp: hasReason_def)
qed

lemmas lag_start_defs = lagStart_def taggedSecret_def cachedSecret_def heldSecret_def demoSync_def adopted_def
  populateManagedSecret_def newSecret_def resolveDataKey_def resolveTargetName_def zeroObjectMeta_def zeroStatus_def

lemma lagStart_ok: "lagInv (world lagStart)"
  by (simp add: lagInv_def refInv_def secretKey_def lag_start_defs)

lemma lagStart_reclaimable:
  "reclaimable lagEnv demoSync ''n3w'' taggedSecret" "reclaimable lagEnv demoSync ''n3w'' cachedSecret"
  by (simp_all add: reclaimable_def labelled_def immutableBlocksWrite_def refGetControllerOf_def isController_def
      controllerOwnerReference_def lag_start_defs)

lemma lagStart_reads:
  "lagSecret (world lagStart) \<lparr>nn_Namespace = ''app'', nn_Name = ''db''\<rparr> = Some taggedSecret"
  "lagGetSecret ManagerClient ctx \<lparr>nn_Namespace = ''app'', nn_Name = ''db''\<rparr> (world lagStart) = (Inr cachedSecret, world lagStart)"
  by (simp_all add: refSecret_def lagGetSecret_def secretAt_def lag_start_defs)

lemma lagStart_storable: "storable lagEnv refAdmits demoSync ''n3w'' ''v2'' taggedSecret" "ss_Namespace demoSync = ''app''"
proof -
  have "storable refEnv refAdmits demoSync ''n3w'' ''v2'' taggedSecret"
    by (rule ref_storable) (simp_all add: lag_start_defs)
  then show "storable lagEnv refAdmits demoSync ''n3w'' ''v2'' taggedSecret"
    by (simp add: storable_def stamped_def)
  show "ss_Namespace demoSync = ''app''" by (simp add: demoSync_def)
qed

section \<open>Properties\<close>

text \<open>
  (C11) The writer is not fooled by a lagging cache. Against a server with optimistic concurrency, whatever its cached
  read returned, nothing or an earlier state of the Secret, one invocation succeeds: the Secret that is
  stored afterwards is the one the server held (or a new one), rewritten for the declaration, so that what
  another client had written in between is kept, and it holds the value and the version. Nothing else has changed.
  The stored Secret and the cached copy are the declaration's to take (\<open>reclaimable\<close>, which includes the type the writer
  writes), a cached Secret still exists, the target is in the declaration's namespace, and the server admits
  what the writer makes of the stored Secret (\<open>storable\<close>).
\<close>

theorem writer_outlasts_cache:
  assumes "kube_lagging E ok secretOf syncOf admits past" and "ok (world s)"
    and "sw_Client w = Some ManagerClient" and "sw_Reader w = Some APIReader" and "ns = ss_Namespace ss"
    and "\<And>x. secretOf (world s) \<lparr>nn_Namespace = ns, nn_Name = name\<rparr> = Some x \<Longrightarrow> reclaimable E ss value x"
    and "storable E admits ss value version (startingAt (secretOf (world s)) \<lparr>nn_Namespace = ns, nn_Name = name\<rparr>)"
    and "\<And>old w'. env_GetSecret E ManagerClient ctx \<lparr>nn_Namespace = ns, nn_Name = name\<rparr> (world s) = (Inr old, w') \<Longrightarrow>
      reclaimable E ss value old \<and> secretOf (world s) \<lparr>nn_Namespace = ns, nn_Name = name\<rparr> \<noteq> None"
    and "run_state (CreateOrUpdate E w ctx ss ns name (resolveDataKey ss) value version) s = (r, s')"
  shows "r = None \<and> (\<exists>y x'. stamped E ss (resolveDataKey ss) value version (startingAt (secretOf (world s)) \<lparr>nn_Namespace = ns, nn_Name = name\<rparr>) y
      \<and> sameContent x' y \<and> upToDate E ss value version x'
      \<and> secretOf (world s') = (secretOf (world s))(\<lparr>nn_Namespace = ns, nn_Name = name\<rparr> \<mapsto> x')
      \<and> syncOf (world s') = syncOf (world s))"
proof -
  have laws: "ownerRefLaws E" using assms(1) by (simp add: kube_lagging_def kube_server_def)
  have stored: "stores ok secretOf syncOf s (secretOf (world s)) (syncOf (world s))" using assms(2) by (simp add: stores_def)
  show ?thesis
    by (rule wp_run [OF assms(9)], rule kube_lagging.CreateOrUpdate_lag_wp [OF assms(1) stored assms(3-8)])
      (auto simp: stores_def dest: stamped_upToDate(1) [OF laws])
qed

theorem writer_outlasts_cache_witness:
  "fst lagRun = None \<and> (\<exists>y x'. stamped lagEnv demoSync (resolveDataKey demoSync) ''n3w'' ''v2'' taggedSecret y
     \<and> sameContent x' y \<and> upToDate lagEnv demoSync ''n3w'' ''v2'' x'
     \<and> lagSecret (world (snd lagRun)) =
         (lagSecret (world lagStart))(\<lparr>nn_Namespace = ''app'', nn_Name = ''db''\<rparr> \<mapsto> x')
     \<and> lagSync (world (snd lagRun)) = lagSync (world lagStart))"
proof -
  let ?w = "\<lparr>sw_Client = Some ManagerClient, sw_Reader = Some APIReader\<rparr>"
  have run: "run_state (CreateOrUpdate lagEnv ?w RootCtx demoSync ''app'' ''db'' (resolveDataKey demoSync) ''n3w'' ''v2'') lagStart
      = (fst lagRun, snd lagRun)" by (simp add: lagRun_def)
  have start: "startingAt (lagSecret (world lagStart)) \<lparr>nn_Namespace = ''app'', nn_Name = ''db''\<rparr> = taggedSecret"
    by (simp add: startingAt_def lagStart_reads)
  from writer_outlasts_cache [OF lagging.kube_lagging_axioms lagStart_ok _ _ _ _ _ _ run]
  show ?thesis by (simp add: start lagStart_reads lagStart_reclaimable lagStart_storable)
qed

end
