(* ===== verification/Interleaving.thy ===== *)
theory Interleaving
  imports Stale_Cache
begin

text \<open>
  A reconcile among other clients. The other worker of this operator, its previous leader, controllers and people write to the
  same cluster. Here a reconcile runs against a cluster that others change between any two of its calls:
  \<open>sharedEnv\<close> takes a list of moves and makes one before each call. The server satisfies the locale \<open>versioned_store\<close>,
  the optimistic concurrency of Kubernetes: each state of an object has a resource version of its own, and an
  update is accepted only while the state it was built on is the current one. Reads may be stale. A move is any
  change that keeps the server's invariant and does not unmake a past state (\<open>evolves\<close>).

  \<open>sharedEnv\<close> also notes what each accepted update and deletion replaced at that moment, which neither the program nor its
  calls can see. So the statements are about the cluster and not about what the reconcile believed of it.
\<close>

section \<open>A cluster that others change\<close>

record 'w shared =
  sh_world :: 'w
  sh_moves :: "('w \<Rightarrow> 'w) list"
  sh_overwritten :: "(Secret option \<times> Secret) list"
  sh_removed :: "(Secret option \<times> Secret) list"

text \<open>The next move of the others, then the call.\<close>

definition moved :: "'w shared \<Rightarrow> 'w shared" where
  "moved w = (case sh_moves w of [] \<Rightarrow> w | m # ms \<Rightarrow> w\<lparr>sh_world := m (sh_world w), sh_moves := ms\<rparr>)"

definition meddled :: "('w \<Rightarrow> 'a \<times> 'w) \<Rightarrow> 'w shared \<Rightarrow> 'a \<times> 'w shared" where
  "meddled f w =
     (let w1 = moved w in case f (sh_world w1) of (a, v) \<Rightarrow> (a, w1\<lparr>sh_world := v\<rparr>))"

definition sharedUpdate ::
    "('w \<Rightarrow> NamespacedName \<Rightarrow> Secret option) \<Rightarrow> (Secret \<Rightarrow> 'w \<Rightarrow> goerr option \<times> 'w) \<Rightarrow> Secret \<Rightarrow> 'w shared
     \<Rightarrow> goerr option \<times> 'w shared" where
  "sharedUpdate secretOf f x w =
     (let w1 = moved w in
      case f x (sh_world w1) of (a, v) \<Rightarrow>
        (a, w1\<lparr>sh_world := v, sh_overwritten := sh_overwritten w1
           @ (if a = None then [(secretOf (sh_world w1) (secretKey x), x)] else [])\<rparr>))"

definition sharedDelete ::
    "('w \<Rightarrow> NamespacedName \<Rightarrow> Secret option) \<Rightarrow> (Secret \<Rightarrow> 'w \<Rightarrow> goerr option \<times> 'w) \<Rightarrow> Secret \<Rightarrow> 'w shared
     \<Rightarrow> goerr option \<times> 'w shared" where
  "sharedDelete secretOf f x w =
     (let w1 = moved w in
      case f x (sh_world w1) of (a, v) \<Rightarrow>
        (a, w1\<lparr>sh_world := v, sh_removed := sh_removed w1
           @ (if a = None then [(secretOf (sh_world w1) (secretKey x), x)] else [])\<rparr>))"

definition sharedEnv :: "('w \<Rightarrow> NamespacedName \<Rightarrow> Secret option) \<Rightarrow> 'w env \<Rightarrow> 'w shared env" where
  "sharedEnv secretOf E =
     \<lparr>env_unicode = env_unicode E,
      env_IsNotFound = env_IsNotFound E,
      env_IsAlreadyExists = env_IsAlreadyExists E,
      env_IsConflict = env_IsConflict E,
      env_IsInvalid = env_IsInvalid E,
      env_GetControllerOf = env_GetControllerOf E,
      env_SetStatusCondition = env_SetStatusCondition E,
      env_SetControllerReference = env_SetControllerReference E,
      env_ContainsFinalizer = env_ContainsFinalizer E,
      env_AddFinalizer = env_AddFinalizer E,
      env_RemoveFinalizer = env_RemoveFinalizer E,
      env_GetSecretSync = (\<lambda>ctx key. meddled (env_GetSecretSync E ctx key)),
      env_ListSecretSyncs = (\<lambda>ctx ns. meddled (env_ListSecretSyncs E ctx ns)),
      env_GetSecret = (\<lambda>c ctx key. meddled (env_GetSecret E c ctx key)),
      env_ListSecrets = (\<lambda>ctx ns k v. meddled (env_ListSecrets E ctx ns k v)),
      env_CreateSecret = (\<lambda>ctx x. meddled (env_CreateSecret E ctx x)),
      env_UpdateSecret = (\<lambda>ctx. sharedUpdate secretOf (env_UpdateSecret E ctx)),
      env_DeleteSecret = (\<lambda>ctx. sharedDelete secretOf (env_DeleteSecret E ctx)),
      env_UpdateSecretSync = (\<lambda>ctx ss. meddled (env_UpdateSecretSync E ctx ss)),
      env_UpdateStatus = (\<lambda>ctx ss. meddled (env_UpdateStatus E ctx ss)),
      env_Now = meddled (env_Now E)\<rparr>"

definition sharedReader :: "'w SecretReader \<Rightarrow> 'w shared SecretReader" where
  "sharedReader rd ctx vaultName secretName = meddled (rd ctx vaultName secretName)"

text \<open>A scenario: the vault has a new version, and right before the writer's update another client labels the Secret.
  And one for a deletion: right before it, another client replaces the Secret by one of its own.\<close>

definition tagging :: "lagging \<Rightarrow> lagging" where
  "tagging w = snd (env_UpdateSecret lagEnv RootCtx
     (cachedSecret\<lparr>sec_Meta := sec_Meta taggedSecret\<lparr>om_ResourceVersion := versionOf cachedSecret\<rparr>\<rparr>) w)"

definition sharedStart :: "lagging shared sys" where
  "sharedStart =
     \<lparr>world = \<lparr>sh_world = \<lparr>lg_cluster = \<lparr>cl_Secrets = [cachedSecret], cl_Syncs = [syncedSync], cl_Clock = 100 * Second, cl_Version = 6\<rparr>,
          lg_cache = [cachedSecret], lg_past = [cachedSecret]\<rparr>,
        sh_moves = [id, id, id, id, id, id, tagging], sh_overwritten = [], sh_removed = []\<rparr>,
      calls = [], emitted = [], syncTotal = (\<lambda>_. 0), logs = []\<rparr>"

definition rotated :: "'w SecretReader" where
  "rotated ctx vaultName secretName w = (Inr (''n3w'', ''v2''), w)"

definition sharedReconciler :: "'w SecretReader \<Rightarrow> 'w shared SecretSyncReconciler" where
  "sharedReconciler rd = \<lparr>rc_Client = ManagerClient, rc_Reader = Some (sharedReader rd),
     rc_ReconcileInterval = 0, rc_APIReader = Some APIReader, rc_Recorder = True\<rparr>"

definition sharedRun :: "(Result \<times> goerr option) \<times> lagging shared sys" where
  "sharedRun = run_state (Reconcile (sharedEnv (\<lambda>w. refSecret (lg_cluster w)) lagEnv) (sharedReconciler rotated) RootCtx demoReq) sharedStart"

definition raceStart :: "cluster shared sys" where
  "raceStart =
     \<lparr>world = \<lparr>sh_world = \<lparr>cl_Secrets = [heldSecret], cl_Syncs = [dyingSync], cl_Clock = 100 * Second, cl_Version = 6\<rparr>,
        sh_moves = [id, id, \<lambda>w. w\<lparr>cl_Secrets := [foreignSecret]\<rparr>], sh_overwritten = [], sh_removed = []\<rparr>,
      calls = [], emitted = [], syncTotal = (\<lambda>_. 0), logs = []\<rparr>"

definition raceRun :: "(Result \<times> goerr option) \<times> cluster shared sys" where
  "raceRun = run_state (Reconcile (sharedEnv refSecret refEnv) (sharedReconciler rotated) RootCtx demoReq) raceStart"

section \<open>Vocabulary\<close>

text \<open>A step that keeps the server's invariant and forgets no state of a Secret.\<close>

definition evolves :: "('w \<Rightarrow> bool) \<Rightarrow> ('w \<Rightarrow> Secret set) \<Rightarrow> ('w \<Rightarrow> 'w) \<Rightarrow> bool" where
  "evolves ok past m \<longleftrightarrow> (\<forall>w. ok w \<longrightarrow> ok (m w) \<and> past w \<subseteq> past (m w))"

definition lawful :: "('w \<Rightarrow> bool) \<Rightarrow> ('w \<Rightarrow> Secret set) \<Rightarrow> ('w \<Rightarrow> 'a \<times> 'w) \<Rightarrow> bool" where
  "lawful ok past f \<longleftrightarrow> evolves ok past (\<lambda>w. snd (f w))"

text \<open>What stays true of the cluster and the calls so far: every Secret read was stored once, and every
  Secret overwritten was in the state that the update named.\<close>

definition coherent ::
    "('w \<Rightarrow> bool) \<Rightarrow> ('w \<Rightarrow> Secret set) \<Rightarrow> 'w shared \<Rightarrow> call list \<Rightarrow> bool" where
  "coherent ok past w cs \<longleftrightarrow>
     ok (sh_world w) \<and> (\<forall>m \<in> set (sh_moves w). evolves ok past m)
     \<and> (\<forall>c \<in> set cs. \<forall>cl cx key x. c = CGetSecret cl cx key (Inr x) \<longrightarrow> x \<in> past (sh_world w))
     \<and> (\<forall>(before, x) \<in> set (sh_overwritten w). (\<exists>cx. CUpdateSecret cx x None \<in> set cs)
          \<and> (versionOf x \<noteq> [] \<longrightarrow> (\<exists>old. before = Some old \<and> old \<in> past (sh_world w)
               \<and> secretKey old = secretKey x \<and> versionOf old = versionOf x)))"

text \<open>\<open>keeps J m\<close>: \<open>m\<close> preserves a relation between the world and the calls so far.\<close>

definition keeps :: "('w \<Rightarrow> call list \<Rightarrow> bool) \<Rightarrow> ('w sys, 'a) state \<Rightarrow> bool" where
  "keeps J m \<longleftrightarrow>
     (\<forall>s. J (world s) (calls s) \<longrightarrow> J (world (snd (run_state m s))) (calls (snd (run_state m s))))"

text \<open>The last call of the writer is one of the history.\<close>

definition seenPrev :: "call list \<Rightarrow> rstate \<Rightarrow> bool" where
  "seenPrev h st \<longleftrightarrow> (\<forall>c. rs_prev st = Some c \<longrightarrow> c \<in> set h)"

section \<open>The shared environment\<close>

lemma sharedEnv_simps [simp]:
  "env_unicode (sharedEnv secretOf E) = env_unicode E" "env_IsNotFound (sharedEnv secretOf E) = env_IsNotFound E"
  "env_IsAlreadyExists (sharedEnv secretOf E) = env_IsAlreadyExists E" "env_IsConflict (sharedEnv secretOf E) = env_IsConflict E"
  "env_IsInvalid (sharedEnv secretOf E) = env_IsInvalid E" "env_GetControllerOf (sharedEnv secretOf E) = env_GetControllerOf E"
  "env_SetStatusCondition (sharedEnv secretOf E) = env_SetStatusCondition E"
  "env_SetControllerReference (sharedEnv secretOf E) = env_SetControllerReference E"
  "env_ContainsFinalizer (sharedEnv secretOf E) = env_ContainsFinalizer E"
  "env_AddFinalizer (sharedEnv secretOf E) = env_AddFinalizer E"
  "env_RemoveFinalizer (sharedEnv secretOf E) = env_RemoveFinalizer E"
  "env_GetSecretSync (sharedEnv secretOf E) ctx key = meddled (env_GetSecretSync E ctx key)"
  "env_ListSecretSyncs (sharedEnv secretOf E) ctx ns = meddled (env_ListSecretSyncs E ctx ns)"
  "env_GetSecret (sharedEnv secretOf E) c ctx key = meddled (env_GetSecret E c ctx key)"
  "env_ListSecrets (sharedEnv secretOf E) ctx ns k v = meddled (env_ListSecrets E ctx ns k v)"
  "env_CreateSecret (sharedEnv secretOf E) ctx x = meddled (env_CreateSecret E ctx x)"
  "env_UpdateSecret (sharedEnv secretOf E) ctx = sharedUpdate secretOf (env_UpdateSecret E ctx)"
  "env_DeleteSecret (sharedEnv secretOf E) ctx = sharedDelete secretOf (env_DeleteSecret E ctx)"
  "env_UpdateSecretSync (sharedEnv secretOf E) ctx ss = meddled (env_UpdateSecretSync E ctx ss)"
  "env_UpdateStatus (sharedEnv secretOf E) ctx ss = meddled (env_UpdateStatus E ctx ss)"
  "env_Now (sharedEnv secretOf E) = meddled (env_Now E)"
  by (simp_all add: sharedEnv_def)

lemma shared_predicates [simp]:
  "ControllerOwnedBy (sharedEnv secretOf E) x ss = ControllerOwnedBy E x ss"
  "writable (sharedEnv secretOf E) x ss = writable E x ss"
  "stamped (sharedEnv secretOf E) ss dataKey value version x y = stamped E ss dataKey value version x y"
  by (simp_all add: ControllerOwnedBy_def writable_def stamped_def cong: option.case_cong)

section \<open>The calculus\<close>

named_theorems keeps_intros \<open>introduction rules for \<open>keeps\<close>\<close>

lemma keeps_return [keeps_intros]: "keeps J (State_Monad.return a)"
  by (simp add: keeps_def)

lemma keeps_bind [keeps_intros]:
  fixes m :: "('w sys, 'a) state"
  assumes "keeps J m" and "\<And>a. keeps J (f a)"
  shows "keeps J (State_Monad.bind m f)"
  unfolding keeps_def
proof (intro allI impI)
  fix s :: "'w sys"
  assume J: "J (world s) (calls s)"
  obtain a s1 where run: "run_state m s = (a, s1)" by fastforce
  with assms(1) J have "J (world s1) (calls s1)" unfolding keeps_def by (metis snd_conv)
  with assms(2) run show "J (world (snd (run_state (State_Monad.bind m f) s))) (calls (snd (run_state (State_Monad.bind m f) s)))"
    unfolding keeps_def by simp
qed

lemma keeps_perform [keeps_intros]:
  "(\<And>w cs a w'. J w cs \<Longrightarrow> f w = (a, w') \<Longrightarrow> J w' (cs @ [c a])) \<Longrightarrow> keeps J (perform c f)"
  by (simp add: keeps_def perform_def split: prod.split)

lemma keeps_now: "(\<And>w cs a w'. J w cs \<Longrightarrow> env_Now E w = (a, w') \<Longrightarrow> J w' cs) \<Longrightarrow> keeps J (now E)"
  by (simp add: keeps_def now_def split: prod.split)

lemma keeps_quiet [keeps_intros]:
  "keeps J (logAt lvl msg kv)" "keeps J (emitEvent e)" "keeps J (incSyncTotal res reason)"
  by (simp_all add: keeps_def logAt_def emitEvent_def incSyncTotal_def)

lemma keeps_if [keeps_intros]: "(b \<Longrightarrow> keeps J m) \<Longrightarrow> (\<not> b \<Longrightarrow> keeps J m') \<Longrightarrow> keeps J (if b then m else m')"
  by simp

lemma keeps_option [keeps_intros]:
  "(x = None \<Longrightarrow> keeps J m) \<Longrightarrow> (\<And>y. x = Some y \<Longrightarrow> keeps J (f y)) \<Longrightarrow> keeps J (case x of None \<Rightarrow> m | Some y \<Rightarrow> f y)"
  by (cases x) auto

lemma keeps_sum [keeps_intros]:
  "(\<And>y. x = Inl y \<Longrightarrow> keeps J (f y)) \<Longrightarrow> (\<And>y. x = Inr y \<Longrightarrow> keeps J (g y)) \<Longrightarrow>
   keeps J (case x of Inl y \<Rightarrow> f y | Inr y \<Rightarrow> g y)"
  by (cases x) auto

lemma keeps_prod [keeps_intros]:
  "(\<And>a b. x = (a, b) \<Longrightarrow> keeps J (f a b)) \<Longrightarrow> keeps J (case x of (a, b) \<Rightarrow> f a b)"
  by (cases x) auto

section \<open>The server's promises\<close>

locale versioned_store =
  fixes E :: "'w env" and ok :: "'w \<Rightarrow> bool" and secretOf :: "'w \<Rightarrow> NamespacedName \<Rightarrow> Secret option"
    and past :: "'w \<Rightarrow> Secret set"
  assumes owner_laws: "ownerRefLaws E"
    and stored: "ok w \<Longrightarrow> secretOf w key = Some x \<Longrightarrow> x \<in> past w \<and> secretKey x = key"
    and versions: "ok w \<Longrightarrow> x \<in> past w \<Longrightarrow> y \<in> past w \<Longrightarrow> secretKey x = secretKey y \<Longrightarrow>
        versionOf x = versionOf y \<Longrightarrow> x = y"
    and versioned: "ok w \<Longrightarrow> x \<in> past w \<Longrightarrow> versionOf x \<noteq> []"
    and reads: "ok w \<Longrightarrow> env_GetSecret E c ctx key w = (Inr x, w') \<Longrightarrow> x \<in> past w"
    and updates: "ok w \<Longrightarrow> env_UpdateSecret E ctx x w = (None, w') \<Longrightarrow> versionOf x \<noteq> [] \<Longrightarrow>
        \<exists>old. secretOf w (secretKey x) = Some old \<and> versionOf old = versionOf x"
    and lawful_get_sync: "lawful ok past (env_GetSecretSync E ctx key)"
    and lawful_list_syncs: "lawful ok past (env_ListSecretSyncs E ctx ns)"
    and lawful_get: "lawful ok past (env_GetSecret E c ctx key)"
    and lawful_list: "lawful ok past (env_ListSecrets E ctx ns k v)"
    and lawful_create: "lawful ok past (env_CreateSecret E ctx x)"
    and lawful_update: "lawful ok past (env_UpdateSecret E ctx x)"
    and lawful_delete: "lawful ok past (env_DeleteSecret E ctx x)"
    and lawful_update_sync: "lawful ok past (env_UpdateSecretSync E ctx ss)"
    and lawful_update_status: "lawful ok past (env_UpdateStatus E ctx ss)"
    and lawful_now: "lawful ok past (env_Now E)"
begin

abbreviation holding_together where "holding_together \<equiv> coherent ok past"

lemma coherent_moved:
  assumes "holding_together w cs"
  shows "holding_together (moved w) cs" "sh_overwritten (moved w) = sh_overwritten w"
proof -
  show "sh_overwritten (moved w) = sh_overwritten w" by (simp add: moved_def split: list.split)
  show "holding_together (moved w) cs"
  proof (cases "sh_moves w")
    case (Cons m ms)
    have "ok (m (sh_world w)) \<and> past (sh_world w) \<subseteq> past (m (sh_world w))"
      using assms Cons unfolding coherent_def evolves_def by simp
    with assms Cons show ?thesis unfolding coherent_def moved_def by fastforce
  qed (use assms in \<open>simp add: moved_def\<close>)
qed

text \<open>One call, seen from the others' moves on.\<close>

lemma coherent_step:
  assumes "holding_together w cs" and "lawful ok past f" and "meddled f w = (a, w')"
    and "\<And>v cl cx key x. ok v \<Longrightarrow> f v = (a, sh_world w') \<Longrightarrow> c = CGetSecret cl cx key (Inr x) \<Longrightarrow> x \<in> past v"
  shows "holding_together w' (cs @ [c])"
proof -
  note w = coherent_moved [OF assms(1)]
  obtain v where v: "f (sh_world (moved w)) = (a, v)" "w' = (moved w)\<lparr>sh_world := v\<rparr>"
    using assms(3) by (auto simp: meddled_def Let_def split: prod.splits)
  have "ok (sh_world (moved w))" using w(1) by (simp add: coherent_def)
  with assms(2) v(1) have "ok v" "past (sh_world (moved w)) \<subseteq> past v" by (fastforce simp: lawful_def evolves_def)+
  moreover have "x \<in> past (sh_world (moved w))" if "c = CGetSecret cl cx key (Inr x)" for cl cx key x
    using assms(4) [OF \<open>ok (sh_world (moved w))\<close> _ that] v by simp
  ultimately show ?thesis using w(1) v(2) unfolding coherent_def by fastforce
qed

lemma coherent_quiet_step:
  assumes "lawful ok past f" and "\<And>cl cx key x. c a \<noteq> CGetSecret cl cx key (Inr x)"
    and "holding_together w cs" and "meddled f w = (a, w')"
  shows "holding_together w' (cs @ [c a])"
  by (rule coherent_step [OF assms(3,1,4)]) (use assms(2) in simp)

lemma coherent_update:
  assumes "holding_together w cs" and "sharedUpdate secretOf (env_UpdateSecret E ctx) x w = (a, w')"
  shows "holding_together w' (cs @ [CUpdateSecret ctx x a])"
proof -
  let ?w = "moved w"
  note w = coherent_moved [OF assms(1)]
  have ok: "ok (sh_world ?w)" using w(1) by (simp add: coherent_def)
  obtain v where v: "env_UpdateSecret E ctx x (sh_world ?w) = (a, v)" "sh_world w' = v" "sh_moves w' = sh_moves ?w"
      "sh_overwritten w' = sh_overwritten ?w @ (if a = None then [(secretOf (sh_world ?w) (secretKey x), x)] else [])"
    using assms(2) by (auto simp: sharedUpdate_def Let_def split: prod.splits)
  have v': "ok v" "past (sh_world ?w) \<subseteq> past v"
    using lawful_update [of ctx x] ok v(1) by (fastforce simp: lawful_def evolves_def)+
  have "\<exists>old. secretOf (sh_world ?w) (secretKey x) = Some old \<and> old \<in> past v \<and> secretKey old = secretKey x
      \<and> versionOf old = versionOf x" if "a = None" "versionOf x \<noteq> []"
    using updates [OF ok, of ctx x v] stored [OF ok] v(1) v'(2) that by blast
  with w(1) v v' show ?thesis unfolding coherent_def by (fastforce split: if_splits)
qed

lemma coherent_delete:
  assumes "holding_together w cs" and "sharedDelete secretOf (env_DeleteSecret E ctx) x w = (a, w')"
  shows "holding_together w' (cs @ [CDeleteSecret ctx x a])"
proof -
  let ?w = "moved w"
  note w = coherent_moved [OF assms(1)]
  obtain v where v: "env_DeleteSecret E ctx x (sh_world ?w) = (a, v)" "sh_world w' = v" "sh_moves w' = sh_moves ?w"
      "sh_overwritten w' = sh_overwritten ?w"
    using assms(2) by (auto simp: sharedDelete_def Let_def split: prod.splits)
  have "ok v" "past (sh_world ?w) \<subseteq> past v"
    using lawful_delete [of ctx x] w(1) v(1) by (fastforce simp: lawful_def evolves_def coherent_def)+
  with w(1) v show ?thesis unfolding coherent_def by fastforce
qed

abbreviation Sh where "Sh \<equiv> sharedEnv secretOf E"

text \<open>The calls of the operator, and what is built from them.\<close>

lemma keeps_calls:
  "keeps holding_together (getSecretSync Sh ctx key)" "keeps holding_together (listSecretSyncs Sh ctx ns)"
  "keeps holding_together (getSecret Sh cl ctx key)" "keeps holding_together (listSecrets Sh ctx ns k v)"
  "keeps holding_together (createSecret Sh ctx x)" "keeps holding_together (updateSecret Sh ctx x)"
  "keeps holding_together (deleteSecret Sh ctx x)" "keeps holding_together (updateSecretSync Sh ctx ss)"
  "keeps holding_together (updateStatus Sh ctx ss)"
  unfolding controller_call_defs sharedEnv_simps
  by (rule keeps_perform; rule coherent_quiet_step [OF lawful_get_sync] coherent_quiet_step [OF lawful_list_syncs]
      coherent_quiet_step [OF lawful_list] coherent_quiet_step [OF lawful_create] coherent_quiet_step [OF lawful_update_sync]
      coherent_quiet_step [OF lawful_update_status] coherent_update coherent_delete coherent_step [OF _ lawful_get];
      (assumption | simp)?; (auto intro: reads)?)+

lemma keeps_clock: "keeps holding_together (now Sh)"
proof (rule keeps_now)
  fix w cs a w'
  assume w: "holding_together w cs" and now: "env_Now Sh w = (a, w')"
  obtain v where v: "env_Now E (sh_world (moved w)) = (a, v)" "w' = (moved w)\<lparr>sh_world := v\<rparr>"
    using now by (auto simp: meddled_def Let_def split: prod.splits)
  note w1 = coherent_moved(1) [OF w]
  have "ok v" "past (sh_world (moved w)) \<subseteq> past v"
    using lawful_now w1 v(1) by (fastforce simp: lawful_def evolves_def coherent_def)+
  with w1 v(2) show "holding_together w' cs" unfolding coherent_def by fastforce
qed

lemmas keeps_parts = keeps_calls keeps_clock keeps_intros(1,2) keeps_quiet keeps_if keeps_option keeps_sum keeps_prod

lemma keeps_writer: "keeps holding_together (CreateOrUpdate Sh w ctx owner ns name dataKey value version)"
  unfolding CreateOrUpdate_def create_def recoverAlreadyExists_def update_def recoverConflict_def classifyInvalid_def
    freshCopy_def readerGet_def applyUpdate_def logWritten_def Let_def
  by (intro keeps_parts)

lemma keeps_gc: "keeps holding_together (deleteStaleManagedSecrets Sh ctx ss targetName)"
proof -
  have "keeps holding_together (deleteStale Sh ctx ss name items)" for name items
    by (induction items) (auto intro!: keeps_parts)
  then show ?thesis unfolding deleteStaleManagedSecrets_def by (intro keeps_parts)
qed

lemma keeps_Sync:
  assumes "\<And>rd. eng_Reader e = Some rd \<Longrightarrow> \<exists>rd'. rd = sharedReader rd' \<and> (\<forall>ctx v n. lawful ok past (rd' ctx v n))"
  shows "keeps holding_together (Sync Sh e ctx owner existing)"
proof -
  have "keeps holding_together (getLatest rd ctx v n)" if rd: "eng_Reader e = Some rd" for rd v n
  proof -
    obtain rd' where rd': "rd = sharedReader rd'" "lawful ok past (rd' ctx v n)" using assms [OF rd] by blast
    show ?thesis unfolding getLatest_def rd'(1) sharedReader_def
      by (rule keeps_perform, rule coherent_quiet_step [OF rd'(2)]) simp_all
  qed
  then show ?thesis unfolding Sync_def Let_def by (intro keeps_parts)
qed

lemma keeps_finish: "keeps holding_together (finishReconcile Sh r ctx req previousState targetName ss status)"
  unfolding finishReconcile_def setReadyCondition_def recordSyncOutcome_def recordEvent_def recordSyncResult_def Let_def
  by (intro keeps_parts keeps_gc)

lemma keeps_Reconcile:
  assumes "\<And>rd. rc_Reader r = Some rd \<Longrightarrow> \<exists>rd'. rd = sharedReader rd' \<and> (\<forall>ctx v n. lawful ok past (rd' ctx v n))"
  shows "keeps holding_together (Reconcile Sh r ctx req)"
  unfolding Reconcile_def reconcileLive_def reconcileSync_def applyOutcome_def writeTarget_def
    reportWriteFailure_def reconcileConflict_def ensureFinalizer_def persistPending_def
    findConflictingOwner_def reconcileDelete_def dropFinalizer_def effect_defs
  by (intro keeps_parts keeps_finish keeps_writer keeps_Sync) (use assms in simp_all)

end

section \<open>Updates of a reconcile\<close>

lemma seenPrev_step:
  assumes "seenPrev h st" and "rstep E r ctx req st c st'"
  shows "seenPrev (h @ [c]) st'"
  using assms(2,1)
  by (cases rule: rstep.cases) (auto simp: seenPrev_def absorb_def sawTarget_def split: sum.splits if_splits)

interpretation prev: history_invariant "rstep E r ctx req" rs_init seenPrev for E r ctx req
proof
  show "seenPrev [] rs_init" by (simp add: seenPrev_def rs_init_def)
qed (rule seenPrev_step)

text \<open>Behind every update of a reconcile there is a read of the Secret it rewrites.\<close>

lemma reconcile_update_read:
  assumes "run_state (Reconcile E r ctx0 req) s = (res, s')" and "calls s' = calls s @ new"
    and "CUpdateSecret cx x a \<in> set new"
  obtains cl cx' key base c ss dataKey "value" version where "CGetSecret cl cx' key (Inr base) \<in> set new"
    "c \<in> set new" "objectOf c = Some ss" "writable E base ss" "stamped E ss dataKey value version base x"
proof -
  obtain pre post where new: "new = pre @ CUpdateSecret cx x a # post" using assms(3) by (metis split_list)
  let ?ctx = "WithTimeout ctx0 reconcileTimeout"
  obtain st st' where st: "path (rstep E r ?ctx req) rs_init pre st" "rstep E r ?ctx req st (CUpdateSecret cx x a) st'"
    using assms(1) assms(2) [unfolded new] by (rule reconcile_at_call)
  from st(2) obtain ss ns name dataKey "value" version where object: "rs_object st = Some ss"
      and step: "writerStep E ss ns name dataKey value version (rs_prev st) (CUpdateSecret cx x a)"
    by (cases rule: rstep_update) auto
  from step obtain cl cx' key base where read: "rs_prev st = Some (CGetSecret cl cx' key (Inr base))"
      and base: "writable E base ss" "stamped E ss dataKey value version base x"
    by (auto simp: writerStep_def split: option.splits call.splits sum.splits)
  obtain c where c: "c \<in> set pre" "objectOf c = Some ss"
    using object object.reached [OF st(1)] unfolding seenObject_def by blast
  have "CGetSecret cl cx' key (Inr base) \<in> set pre" using read prev.reached [OF st(1)] unfolding seenPrev_def by blast
  with c new have "CGetSecret cl cx' key (Inr base) \<in> set new" "c \<in> set new" by auto
  then show thesis using c(2) base by (rule that)
qed

section \<open>The reference cluster shared\<close>

lemma syncKey_status [simp]: "syncKey (ss\<lparr>ss_Status := status\<rparr>) = syncKey ss"
  by (simp add: syncKey_def)

lemma find_key: "find (\<lambda>x. k x = key) xs = Some y \<Longrightarrow> k y = key"
  by (auto simp: find_Some_iff)

lemma secretKey_marked [simp]:
  "secretKey (x\<lparr>sec_Meta := (sec_Meta x)\<lparr>om_DeletionTimestamp := t\<rparr>\<rparr>) = secretKey x"
  by (simp add: secretKey_def)

lemma ref_inv_create: "refInv c \<Longrightarrow> env_CreateSecret refEnv ctx x c = (a, c') \<Longrightarrow> refInv c'"
  using ref_create [of c x ctx]
  by (cases "refSecret c (secretKey x) = None \<and> refAdmits x")
    (auto simp: refCreateSecret_def refSecret_def split: option.splits)

lemma ref_inv:
  assumes "refInv c"
  shows "env_GetSecretSync refEnv ctx key c = (a1, c') \<Longrightarrow> refInv c'"
    "env_ListSecretSyncs refEnv ctx ns c = (a2, c') \<Longrightarrow> refInv c'"
    "env_GetSecret refEnv cl ctx key c = (a3, c') \<Longrightarrow> refInv c'"
    "env_CreateSecret refEnv ctx x c = (a4, c') \<Longrightarrow> refInv c'"
    "env_UpdateSecret refEnv ctx x c = (a4, c') \<Longrightarrow> refInv c'"
    "env_DeleteSecret refEnv ctx x c = (a4, c') \<Longrightarrow> refInv c'"
    "env_UpdateSecretSync refEnv ctx ss c = (a1, c') \<Longrightarrow> refInv c'"
    "env_UpdateStatus refEnv ctx ss c = (a1, c') \<Longrightarrow> refInv c'"
    "env_Now refEnv c = (a5, c') \<Longrightarrow> refInv c'"
  using assms ref_inv_create [OF assms, of ctx x a4 c']
  by (auto simp: refGetSecretSync_def refListSecretSyncs_def refGetSecret_def refUpdateSecret_def
      refDeleteSecret_def refUpdateSecretSync_def refUpdateStatus_def refPut_def refNow_def refInv_def ref_at
      map_key_replace distinct_map_filter split: option.splits if_splits dest!: find_key)

lemma lag_lawful:
  assumes "\<And>c a c'. f c = (a, c') \<Longrightarrow> revision c c'" and "\<And>c a c'. refInv c \<Longrightarrow> f c = (a, c') \<Longrightarrow> refInv c'"
  shows "lawful lagInv (\<lambda>w. set (lg_past w)) (lagged f)"
  unfolding lawful_def evolves_def
proof (intro allI impI)
  fix w
  assume w: "lagInv w"
  obtain a c' where c': "f (lg_cluster w) = (a, c')" by fastforce
  have "refInv c'" using assms(2) [OF lagInvD(1) [OF w] c'] .
  from lagInv_step [where f = f, OF w c' assms(1) [OF c'] this]
  show "lagInv (snd (lagged f w)) \<and> set (lg_past w) \<subseteq> set (lg_past (snd (lagged f w)))" by auto
qed

lemma lag_read_lawful: "(\<And>w. snd (f w) = w) \<Longrightarrow> lawful lagInv (\<lambda>w. set (lg_past w)) f"
  by (simp add: lawful_def evolves_def)

lemma lag_get_keeps: "snd (env_GetSecret lagEnv ManagerClient ctx key w) = w"
  by (simp add: lagGetSecret_def)

interpretation shared: versioned_store lagEnv lagInv lagSecret "\<lambda>w. set (lg_past w)"
proof
  show "ownerRefLaws lagEnv" by (rule lag_pure)
next
  fix w key and x y :: Secret
  assume w: "lagInv w"
  show "x \<in> set (lg_past w) \<and> secretKey x = key" if "lagSecret w key = Some x"
    using that lagging.stored_past [OF w that] ref_keys(1) by blast
  show "x = y" if "x \<in> set (lg_past w)" "y \<in> set (lg_past w)" "secretKey x = secretKey y" "versionOf x = versionOf y"
    using lagInvD(7) [OF w that] .
  show "versionOf x \<noteq> []" if "x \<in> set (lg_past w)" using lagInvD(5) [OF w that] .
next
  fix w w' and c :: client and ctx :: goctx and key and x
  assume w: "lagInv w" and got: "env_GetSecret lagEnv c ctx key w = (Inr x, w')"
  show "x \<in> set (lg_past w)"
    using got lagInvD(3,4) [OF w]
    by (auto simp: lagGetSecret_def lagged_def refGetSecret_def split: option.splits if_splits dest!: find_Some_iff [THEN iffD1])
next
  fix w w' and ctx :: goctx and x
  assume "env_UpdateSecret lagEnv ctx x w = (None, w')"
  then show "\<exists>old. lagSecret w (secretKey x) = Some old \<and> versionOf old = versionOf x"
    by (auto simp: lagged_def refUpdateSecret_def refSecret_def split: option.splits if_splits)
next
  fix c :: client and ctx :: goctx and key ns k v and x :: Secret and ss :: SecretSync
  show "lawful lagInv (\<lambda>w. set (lg_past w)) (env_GetSecret lagEnv c ctx key)"
  proof (cases "c = ManagerClient")
    case False
    then have "env_GetSecret lagEnv c ctx key = lagged (env_GetSecret refEnv c ctx key)"
      by (simp add: lagGetSecret_def fun_eq_iff)
    then show ?thesis using lag_lawful [OF ref_revision(3) ref_inv(3)] by simp
  qed (simp add: lag_read_lawful lag_get_keeps [simplified])
  show "lawful lagInv (\<lambda>w. set (lg_past w)) (env_ListSecrets lagEnv ctx ns k v)"
    by (rule lag_read_lawful) (simp add: lagListSecrets_def)
qed (unfold lagEnv_simps, (rule lag_lawful; (rule ref_revision | rule ref_inv); assumption)+)

lemma tagging_evolves: "evolves lagInv (\<lambda>w. set (lg_past w)) tagging"
  using shared.lawful_update unfolding lawful_def tagging_def [abs_def] by blast

lemma evolves_id: "evolves ok past id"
  by (simp add: evolves_def)

lemma rotated_lawful: "lawful ok past (rotated ctx v n)"
  by (simp add: lawful_def evolves_def rotated_def)

text \<open>Evaluation on explicit states.\<close>

lemma meddled_eval:
  "meddled f \<lparr>sh_world = v, sh_moves = [], sh_overwritten = p, sh_removed = q\<rparr> =
     (case f v of (a, v') \<Rightarrow> (a, \<lparr>sh_world = v', sh_moves = [], sh_overwritten = p, sh_removed = q\<rparr>))"
  "meddled f \<lparr>sh_world = v, sh_moves = m # ms, sh_overwritten = p, sh_removed = q\<rparr> =
     (case f (m v) of (a, v') \<Rightarrow> (a, \<lparr>sh_world = v', sh_moves = ms, sh_overwritten = p, sh_removed = q\<rparr>))"
  by (simp_all add: meddled_def moved_def split: prod.split)

lemma sharedUpdate_eval:
  "sharedUpdate secretOf f x \<lparr>sh_world = v, sh_moves = [], sh_overwritten = p, sh_removed = q\<rparr> =
     (case f x v of (a, v') \<Rightarrow> (a, \<lparr>sh_world = v', sh_moves = [],
        sh_overwritten = p @ (if a = None then [(secretOf v (secretKey x), x)] else []), sh_removed = q\<rparr>))"
  "sharedUpdate secretOf f x \<lparr>sh_world = v, sh_moves = m # ms, sh_overwritten = p, sh_removed = q\<rparr> =
     (case f x (m v) of (a, v') \<Rightarrow> (a, \<lparr>sh_world = v', sh_moves = ms,
        sh_overwritten = p @ (if a = None then [(secretOf (m v) (secretKey x), x)] else []), sh_removed = q\<rparr>))"
  by (simp_all add: sharedUpdate_def moved_def split: prod.split)

lemma sharedDelete_eval:
  "sharedDelete secretOf f x \<lparr>sh_world = v, sh_moves = m # ms, sh_overwritten = p, sh_removed = q\<rparr> =
     (case f x (m v) of (a, v') \<Rightarrow> (a, \<lparr>sh_world = v', sh_moves = ms, sh_overwritten = p,
        sh_removed = q @ (if a = None then [(secretOf (m v) (secretKey x), x)] else [])\<rparr>))"
  by (simp add: sharedDelete_def moved_def split: prod.split)

lemma lagged_eval:
  "lagged f \<lparr>lg_cluster = c, lg_cache = k, lg_past = p\<rparr> =
     (case f c of (a, c') \<Rightarrow>
        (a, \<lparr>lg_cluster = c', lg_cache = k, lg_past = p @ filter (\<lambda>x. cl_Version c \<le> length (versionOf x)) (cl_Secrets c')\<rparr>))"
  by (simp add: lagged_def split: prod.split)

lemma version_eval: "replicate 6 CHR ''i'' = ''iiiiii''" "replicate 7 CHR ''i'' = ''iiiiiii''"
  by (simp_all add: eval_nat_numeral)

lemmas shared_run_defs = version_eval meddled_eval sharedUpdate_eval sharedDelete_eval sharedReader_def sharedReconciler_def
  rotated_def lagged_eval lagGetSecret_def lagListSecrets_def refSecret_def

lemma sharedStart_ok:
  "lagInv (sh_world (world sharedStart))" "\<forall>m \<in> set (sh_moves (world sharedStart)). evolves lagInv (\<lambda>w. set (lg_past w)) m"
  "sh_overwritten (world sharedStart) = []" "calls sharedStart = []"
  using tagging_evolves evolves_id
  by (simp_all add: sharedStart_def lagInv_def refInv_def secretKey_def cachedSecret_def lag_start_defs scenario_defs)

lemma sharedRun_overwrites: "\<exists>x. sh_overwritten (world (snd sharedRun)) = [(Some taggedSecret, x)]"
  by (simp add: sharedRun_def sharedStart_def tagging_def shared_run_defs reconcile_run_defs demo_run_defs scenario_defs
    cachedSecret_def taggedSecret_def)

text \<open>
  The deletions of the controller name no version, so they are not covered by the property below: a Secret that
  another client put in the place of the declaration's own, after it was read, is deleted instead.
\<close>

theorem delete_race:
  "sh_removed (world (snd raceRun)) = [(Some foreignSecret, heldSecret)] \<and> cl_Secrets (sh_world (world (snd raceRun))) = []
   \<and> \<not> writable refEnv foreignSecret dyingSync"
  by (simp add: raceRun_def raceStart_def shared_run_defs reconcile_run_defs demo_run_defs scenario_defs)

section \<open>Properties\<close>

text \<open>
  (C4) No update is lost, whoever else writes. Let other clients change the cluster in any way before each call of a
  reconcile, let reads be stale, and let the server give every state of a Secret a resource version of its own.
  Then the Secret that an accepted update of the reconcile replaced, as it was stored at that moment, is exactly the
  Secret the reconcile had read and found to be the declaration's: labelled or controlled by it, and not
  controlled by an object of another name. What it stored is that Secret, rewritten for the declaration. So neither a foreign Secret nor a
  change that another client made after the read is ever overwritten (FR-012).
\<close>

theorem reconcile_no_lost_update:
  assumes "versioned_store E ok secretOf past" and "ok (sh_world (world s))"
    and "\<forall>m \<in> set (sh_moves (world s)). evolves ok past m" and "sh_overwritten (world s) = []" and "calls s = []"
    and "rc_Reader r = Some (sharedReader rd)" and "\<And>ctx v n. lawful ok past (rd ctx v n)"
    and "run_state (Reconcile (sharedEnv secretOf E) r ctx req) s = (res, s')"
    and "(before, x) \<in> set (sh_overwritten (world s'))"
  shows "\<exists>base c ss dataKey value version. before = Some base \<and> c \<in> set (calls s') \<and> objectOf c = Some ss
    \<and> writable E base ss \<and> (\<forall>ref. env_GetControllerOf E base = Some ref \<longrightarrow> or_Name ref = ss_Name ss)
    \<and> stamped E ss dataKey value version base x"
proof -
  note laws = versioned_store.owner_laws [OF assms(1)] and same = versioned_store.versions [OF assms(1)]
    and versioned = versioned_store.versioned [OF assms(1)]
  have "coherent ok past (world s) (calls s)" using assms(2-5) by (simp add: coherent_def)
  moreover have "keeps (coherent ok past) (Reconcile (sharedEnv secretOf E) r ctx req)"
    by (rule versioned_store.keeps_Reconcile [OF assms(1)]) (use assms(6,7) in auto)
  ultimately have final: "coherent ok past (world s') (calls s')" unfolding keeps_def using assms(8) by (metis snd_conv)
  then have ok: "ok (sh_world (world s'))" by (simp add: coherent_def)
  obtain cx where update: "CUpdateSecret cx x None \<in> set (calls s')"
    using final assms(9) unfolding coherent_def by blast
  have "calls s' = calls s @ calls s'" using assms(5) by simp
  from reconcile_update_read [OF assms(8) this update] obtain cl cx' key base c ss dataKey "value" version
    where read: "CGetSecret cl cx' key (Inr base) \<in> set (calls s')" "c \<in> set (calls s')" "objectOf c = Some ss"
      and base: "writable E base ss" "stamped E ss dataKey value version base x"
    unfolding shared_predicates by blast
  have past: "base \<in> past (sh_world (world s'))" using final read(1) unfolding coherent_def by blast
  obtain refs where "x = (populateManagedSecret base ss dataKey value version)\<lparr>sec_Meta :=
      (sec_Meta (populateManagedSecret base ss dataKey value version))\<lparr>om_OwnerReferences := refs\<rparr>\<rparr>"
    using laws base(2) by (rule ownerRefLaws_stamped)
  then have id: "secretKey x = secretKey base" "versionOf x = versionOf base"
    by (simp_all add: populateManagedSecret_def secretKey_def)
  have "versionOf x \<noteq> []" using versioned [OF ok past] id(2) by simp
  with final assms(9) obtain old where "before = Some old" "old \<in> past (sh_world (world s'))"
      "secretKey old = secretKey x" "versionOf old = versionOf x"
    unfolding coherent_def by blast
  with same [OF ok _ past] id have "before = Some base" by simp
  with read base ownerRefLaws_not_other [OF laws base(2)] show ?thesis by blast
qed

theorem reconcile_no_lost_update_witness:
  "\<exists>x base c ss dataKey value version. sh_overwritten (world (snd sharedRun)) = [(Some base, x)] \<and> base = taggedSecret
     \<and> c \<in> set (calls (snd sharedRun)) \<and> objectOf c = Some ss \<and> writable lagEnv base ss
     \<and> stamped lagEnv ss dataKey value version base x"
proof -
  obtain x where x: "sh_overwritten (world (snd sharedRun)) = [(Some taggedSecret, x)]"
    using sharedRun_overwrites by blast
  have run: "run_state (Reconcile (sharedEnv lagSecret lagEnv) (sharedReconciler rotated) RootCtx demoReq) sharedStart
      = (fst sharedRun, snd sharedRun)" by (simp add: sharedRun_def)
  from reconcile_no_lost_update [OF shared.versioned_store_axioms _ _ _ _ _ _ run, of rotated "Some taggedSecret" x]
  show ?thesis using x by (simp add: sharedStart_ok sharedReconciler_def rotated_lawful) blast
qed

end
