(* ===== verification/Outcome_Records.thy ===== *)
theory Outcome_Records
  imports Status_Types
begin

text \<open>
  What a reconcile reports beside the status: the result counter \<open>kvsynk8s_sync_total\<close> of
  \<open>internal/controller/metrics.go\<close> and the Kubernetes events. The label policy of that file asks for a
  closed vocabulary, and \<open>recordSyncOutcome\<close> is meant to be the one place that counts; here both are
  properties of \<open>Reconcile\<close>, by a calculus that collects the increments and the events of a run.
\<close>

section \<open>Vocabulary\<close>

text \<open>All label pairs of the counter: ten series, however many declarations there are.\<close>

definition syncLabels :: "(string \<times> string) list" where
  "syncLabels = (''success'', noFailureReason) # map (Pair ''failure'') knownReasons"

fun tally :: "('k \<times> 'k) list \<Rightarrow> ('k \<times> 'k \<Rightarrow> nat) \<Rightarrow> 'k \<times> 'k \<Rightarrow> nat" where
  "tally [] n = n"
| "tally (k # ks) n = tally ks (n(k := Suc (n k)))"

definition labelsOf :: "SecretSyncStatus \<Rightarrow> string \<times> string" where
  "labelsOf status =
     (if st_State status = SecretSyncStateInSync then (''success'', noFailureReason) else (''failure'', st_Reason status))"

text \<open>The event that tells of a status.\<close>

definition eventFor :: "SecretSyncStatus \<Rightarrow> KEvent \<Rightarrow> bool" where
  "eventFor status e \<longleftrightarrow>
     (if st_State status = SecretSyncStateInSync then ev_Type e = ''Normal'' \<and> ev_Reason e = ''Synced''
      else ev_Type e = ''Warning'' \<and> ev_Reason e = ''SyncFailed''
        \<and> ev_Note e = st_Reason status @ '': '' @ st_Message status)"

definition terminal :: "SecretSyncStatus \<Rightarrow> bool" where
  "terminal status \<longleftrightarrow> typedOutcome status \<and> st_State status \<noteq> SecretSyncStatePending"

text \<open>The statuses a run sends, and what it means that the last of them was reported: once in the
  counter, under its labels, and, with a recorder, in one event.\<close>

fun sentStatus :: "call \<Rightarrow> SecretSyncStatus list" where
  "sentStatus (CUpdateStatus _ ss _) = [ss_Status ss]"
| "sentStatus _ = []"

definition told :: "bool \<Rightarrow> SecretSyncStatus \<Rightarrow> KEvent list \<Rightarrow> bool" where
  "told recorder status es \<longleftrightarrow>
     terminal status \<and> (if recorder then \<exists>e. es = [e] \<and> eventFor status e else es = [])"

definition reportedOnce ::
    "bool \<Rightarrow> (string \<times> string) list \<Rightarrow> KEvent list \<Rightarrow> SecretSyncStatus list \<Rightarrow> bool" where
  "reportedOnce recorder ks es sts \<longleftrightarrow> sts \<noteq> [] \<and> ks = [labelsOf (last sts)] \<and> told recorder (last sts) es"

text \<open>An accepted status update answers with the state, the reason and the message that were sent.\<close>

abbreviation sameOutcome :: "SecretSyncStatus \<Rightarrow> SecretSyncStatus \<Rightarrow> bool" where
  "sameOutcome st st' \<equiv> st_State st = st_State st' \<and> st_Reason st = st_Reason st' \<and> st_Message st = st_Message st'"

definition statusEcho :: "'w env \<Rightarrow> bool" where
  "statusEcho E \<longleftrightarrow>
     (\<forall>ctx ss w ss' w'. env_UpdateStatus E ctx ss w = (Inr ss', w') \<longrightarrow> sameOutcome (ss_Status ss') (ss_Status ss))"

text \<open>\<open>records m R\<close>: the increments, the events and the statuses sent by a run of \<open>m\<close> satisfy \<open>R\<close>, with
  its result.\<close>

definition records ::
    "('w sys, 'a) state \<Rightarrow> ('a \<Rightarrow> (string \<times> string) list \<Rightarrow> KEvent list \<Rightarrow> SecretSyncStatus list \<Rightarrow> bool) \<Rightarrow> bool" where
  "records m R \<longleftrightarrow>
     (\<forall>s. case run_state m s of (a, s') \<Rightarrow>
        \<exists>ks es new. syncTotal s' = tally ks (syncTotal s) \<and> emitted s' = emitted s @ es
          \<and> calls s' = calls s @ new \<and> R a ks es (concat (map sentStatus new)))"

abbreviation silent :: "('w sys, 'a) state \<Rightarrow> bool" where
  "silent m \<equiv> records m (\<lambda>_ ks es sts. ks = [] \<and> es = [] \<and> sts = [])"

text \<open>What a reconcile has recorded when it returns.\<close>

definition recorded ::
    "bool \<Rightarrow> Result \<Rightarrow> (string \<times> string) list \<Rightarrow> KEvent list \<Rightarrow> SecretSyncStatus list \<Rightarrow> bool" where
  "recorded recorder res ks es sts \<longleftrightarrow>
     ks = [] \<and> es = [] \<and> res = noRequeue \<or> reportedOnce recorder ks es sts"

abbreviation isRecorded ::
    "'w SecretSyncReconciler \<Rightarrow> Result \<times> goerr option \<Rightarrow> (string \<times> string) list \<Rightarrow> KEvent list
     \<Rightarrow> SecretSyncStatus list \<Rightarrow> bool" where
  "isRecorded r res ks es sts \<equiv> \<forall>pre. recorded (rc_Recorder r) (fst res) ks es (pre @ sts)"

section \<open>The calculus\<close>

named_theorems records_intros \<open>introduction rules for \<open>records\<close>\<close>

lemma tally_append: "tally (ks @ ls) n = tally ls (tally ks n)"
  by (induction ks arbitrary: n) auto

lemma records_run:
  assumes "records m R" and "run_state m s = (a, s')"
  obtains ks es new where "syncTotal s' = tally ks (syncTotal s)" "emitted s' = emitted s @ es"
    "calls s' = calls s @ new" "R a ks es (concat (map sentStatus new))"
  using assms unfolding records_def by (fastforce dest!: spec [of _ s])

lemma records_return [records_intros]: "R a [] [] [] \<Longrightarrow> records (State_Monad.return a) R"
  by (auto simp: records_def intro!: exI [of _ "[]"])

lemma records_bind [records_intros]:
  assumes m: "records m (\<lambda>a ks es sts. records (f a) (\<lambda>b ls fs sts'. R b (ks @ ls) (es @ fs) (sts @ sts')))"
  shows "records (State_Monad.bind m f) R"
  unfolding records_def
proof
  fix s
  obtain a s1 where run1: "run_state m s = (a, s1)" by fastforce
  from m run1 obtain ks es new where 1: "syncTotal s1 = tally ks (syncTotal s)" "emitted s1 = emitted s @ es"
      "calls s1 = calls s @ new"
      and f: "records (f a) (\<lambda>b ls fs sts'. R b (ks @ ls) (es @ fs) (concat (map sentStatus new) @ sts'))"
    by (rule records_run)
  obtain b s2 where run2: "run_state (f a) s1 = (b, s2)" by fastforce
  from f run2 obtain ls fs new' where 2: "syncTotal s2 = tally ls (syncTotal s1)" "emitted s2 = emitted s1 @ fs"
      "calls s2 = calls s1 @ new'" "R b (ks @ ls) (es @ fs) (concat (map sentStatus new) @ concat (map sentStatus new'))"
    by (rule records_run)
  with 1 run1 run2 show "case run_state (State_Monad.bind m f) s of (a, s') \<Rightarrow>
      \<exists>ks es new. syncTotal s' = tally ks (syncTotal s) \<and> emitted s' = emitted s @ es
        \<and> calls s' = calls s @ new \<and> R a ks es (concat (map sentStatus new))"
    by (auto simp: tally_append intro!: exI [of _ "ks @ ls"])
qed

lemma records_perform [records_intros]:
  fixes f :: "'w \<Rightarrow> 'a \<times> 'w"
  assumes "\<And>a w w'. f w = (a, w') \<Longrightarrow> R a [] [] (sentStatus (c a))"
  shows "records (perform c f) R"
  unfolding records_def
proof
  fix s :: "'w sys"
  obtain a w' where f: "f (world s) = (a, w')" by fastforce
  with assms [OF f] show "case run_state (perform c f) s of (a, s') \<Rightarrow>
      \<exists>ks es new. syncTotal s' = tally ks (syncTotal s) \<and> emitted s' = emitted s @ es
        \<and> calls s' = calls s @ new \<and> R a ks es (concat (map sentStatus new))"
    by (auto simp: perform_def intro!: exI [of _ "[]"])
qed

lemma records_now [records_intros]: "(\<And>t. R t [] [] []) \<Longrightarrow> records (now E) R"
  by (auto simp: records_def now_def split: prod.split intro!: exI [of _ "[]"])

lemma records_effects [records_intros]:
  "R () [] [] [] \<Longrightarrow> records (logAt lvl msg kv) R"
  "R () [] [e] [] \<Longrightarrow> records (emitEvent e) R"
  "R () [(res, reason)] [] [] \<Longrightarrow> records (incSyncTotal res reason) R"
  by (auto simp: records_def logAt_def emitEvent_def incSyncTotal_def intro: exI [of _ "[]"] exI [of _ "[(res, reason)]"])

lemma records_if [records_intros]:
  "(b \<Longrightarrow> records m R) \<Longrightarrow> (\<not> b \<Longrightarrow> records m' R) \<Longrightarrow> records (if b then m else m') R"
  by simp

lemma records_option [records_intros]:
  "(x = None \<Longrightarrow> records m R) \<Longrightarrow> (\<And>y. x = Some y \<Longrightarrow> records (f y) R) \<Longrightarrow>
   records (case x of None \<Rightarrow> m | Some y \<Rightarrow> f y) R"
  by (cases x) auto

lemma records_sum [records_intros]:
  "(\<And>y. x = Inl y \<Longrightarrow> records (f y) R) \<Longrightarrow> (\<And>y. x = Inr y \<Longrightarrow> records (g y) R) \<Longrightarrow>
   records (case x of Inl y \<Rightarrow> f y | Inr y \<Rightarrow> g y) R"
  by (cases x) auto

lemma records_prod [records_intros]:
  "(\<And>a b. x = (a, b) \<Longrightarrow> records (f a b) R) \<Longrightarrow> records (case x of (a, b) \<Rightarrow> f a b) R"
  by (cases x) auto

lemma records_mono: "records m R \<Longrightarrow> (\<And>a ks es sts. R a ks es sts \<Longrightarrow> R' a ks es sts) \<Longrightarrow> records m R'"
  unfolding records_def by (fastforce split: prod.splits)

lemma records_silent: "silent m \<Longrightarrow> (\<And>a. R a [] [] []) \<Longrightarrow> records m R"
  by (erule records_mono) simp

lemma records_result:
  "records m R \<Longrightarrow> (\<And>s a s'. run_state m s = (a, s') \<Longrightarrow> S a) \<Longrightarrow> records m (\<lambda>a ks es sts. R a ks es sts \<and> S a)"
  unfolding records_def by (fastforce split: prod.splits)

section \<open>Lemmas\<close>

lemma records_outcome:
  assumes "terminal status" and "\<And>es. told (rc_Recorder r) status es \<Longrightarrow> R () [labelsOf status] es []"
  shows "records (recordSyncOutcome E r ss previousState status targetName) R"
proof -
  have "reason \<noteq> []" if "reason \<in> set knownReasons" for reason
    using that by (auto simp: knownReasons_def)
  with assms(1) assms(2) [unfolded told_def] show ?thesis
    unfolding recordSyncOutcome_def recordEvent_def recordSyncResult_def Let_def
    by (intro records_intros) (auto simp: terminal_def typedOutcome_def eventFor_def labelsOf_def)
qed

lemma silent_writer: "silent (CreateOrUpdate E w ctx owner ns name dataKey value version)"
  unfolding writer_defs secret_call_defs by (intro records_intros) simp_all

lemma silent_gc: "silent (deleteStaleManagedSecrets E ctx ss targetName)"
proof -
  have "silent (deleteStale E ctx ss name items)" for name items
    by (induction items) (auto simp: deleteSecret_def intro!: records_intros)
  then show ?thesis unfolding deleteStaleManagedSecrets_def listSecrets_def
    by (auto intro!: records_intros)
qed

lemma silent_delete: "silent (reconcileDelete E r ctx ss targetKey)"
  unfolding reconcileDelete_def dropFinalizer_def controller_call_defs by (intro records_intros) simp_all

lemma silent_condition:
  "(\<And>cs. R (status\<lparr>st_Conditions := cs\<rparr>) [] [] []) \<Longrightarrow> records (setReadyCondition E ss status) R"
  unfolding setReadyCondition_def by (intro records_intros) simp

lemma terminal_conditions [simp]: "terminal (status\<lparr>st_Conditions := cs\<rparr>) = terminal status"
  by (simp add: terminal_def)

lemma terminal_failure: "reason \<in> set knownReasons \<Longrightarrow> terminal (carriedFailure ss reason message)"
  by (simp add: terminal_def typed_failures)

lemma Sync_terminal:
  assumes "run_state (Sync E e ctx owner existing) s = ((status, desired, None), s')"
  shows "terminal status"
  using assms
proof (cases rule: Sync_cases)
  case (failed e')
  then show ?thesis
    using classifyReaderError_known [of "env_unicode E" e' owner "\<exists>x. existing = Some x \<and> managedBy E owner x"]
    by (auto simp: terminal_def typed_failures split: prod.splits)
qed (simp_all add: terminal_def typed_failures typed_inSync knownReasons_def)

lemma records_Sync:
  "records (Sync E e ctx owner existing)
     (\<lambda>a ks es sts. (ks = [] \<and> es = [] \<and> sts = []) \<and> (snd (snd a) = None \<longrightarrow> terminal (fst a)))"
proof (rule records_result)
  show "silent (Sync E e ctx owner existing)"
    unfolding Sync_def getLatest_def Let_def by (intro records_intros) simp_all
qed (auto dest: Sync_terminal)

lemma told_recorded:
  assumes "told recorder status es" and "sameOutcome status sent"
  shows "recorded recorder res [labelsOf status] es (pre @ [sent])"
proof -
  have "labelsOf status = labelsOf sent" "terminal status = terminal sent" "eventFor status = eventFor sent"
    using assms(2) by (simp_all add: labelsOf_def terminal_def typedOutcome_def eventFor_def fun_eq_iff)
  with assms(1) show ?thesis by (auto simp: recorded_def reportedOnce_def told_def)
qed

lemma unrecorded: "recorded recorder noRequeue [] [] sts"
  by (simp add: recorded_def)

lemma records_gc:
  "(\<And>a. R a [] [] []) \<Longrightarrow> records (deleteStaleManagedSecrets E ctx ss targetName) R"
  by (rule records_silent [OF silent_gc])

lemma records_finish:
  assumes "terminal status"
  shows "records (finishReconcile E r ctx req previousState targetName ss status) (isRecorded r)"
  unfolding finishReconcile_def updateStatus_def
  using assms
  by (intro records_intros silent_condition records_outcome records_gc)
    (auto simp: unrecorded intro: told_recorded)

lemma records_failure:
  "records (reportWriteFailure E r ctx previousState targetName targetKey ss writeErr) (isRecorded r)"
  unfolding reportWriteFailure_def updateStatus_def Let_def
  by (intro records_intros silent_condition records_outcome)
    (auto simp: terminal_failure knownReasons_def intro: told_recorded)

lemma records_conflict:
  assumes "statusEcho E"
  shows "records (reconcileConflict E r ctx req previousState targetName ss) (isRecorded r)"
proof -
  have echo: "terminal (ss_Status x) \<and> sameOutcome (ss_Status x) st"
    if "env_UpdateStatus E cx (ss\<lparr>ss_Status := st\<rparr>) w = (Inr x, w')" "terminal st" for cx st w x w'
    using assms that unfolding statusEcho_def terminal_def typedOutcome_def by fastforce
  show ?thesis
    unfolding reconcileConflict_def updateStatus_def Let_def
    by (intro records_intros silent_condition records_outcome)
      (auto simp: unrecorded terminal_failure knownReasons_def dest!: echo intro!: told_recorded)
qed

lemma records_write:
  assumes "terminal status"
  shows "records (writeTarget E r ctx previousState targetName targetKey dataKey ss existing prior status desired)
    (\<lambda>w ks es sts. case w of
       Inl res \<Rightarrow> isRecorded r res ks es sts
     | Inr status' \<Rightarrow> ks = [] \<and> es = [] \<and> sts = [] \<and> terminal status')"
  unfolding writeTarget_def terminalWriteStatus_def Let_def
  using assms
  by (intro records_intros records_silent [OF silent_writer] records_mono [OF records_failure])
    (simp_all add: terminal_failure knownReasons_def)

lemma records_apply:
  assumes "terminal status"
  shows "records (applyOutcome E r ctx req previousState targetName targetKey dataKey ss existing prior status desired)
    (isRecorded r)"
  unfolding applyOutcome_def ensureFinalizer_def updateSecretSync_def
  using assms
  by (intro records_intros records_finish records_mono [OF records_write])
    (auto simp: unrecorded split: sum.splits intro!: records_intros records_finish)

lemma records_live:
  assumes "statusEcho E"
  shows "records (reconcileLive E r ctx req previousState targetName targetKey dataKey ss) (isRecorded r)"
  unfolding reconcileLive_def reconcileSync_def findConflictingOwner_def Let_def listSecretSyncs_def getSecret_def
  using assms
  by (intro records_intros records_mono [OF records_conflict] records_mono [OF records_Sync])
    (auto simp: unrecorded intro!: records_intros records_apply)

lemma records_Reconcile:
  assumes "statusEcho E"
  shows "records (Reconcile E r ctx req) (\<lambda>res ks es sts. recorded (rc_Recorder r) (fst res) ks es sts)"
  unfolding Reconcile_def persistPending_def Let_def getSecretSync_def updateStatus_def
  using assms
  by (intro records_intros silent_condition records_silent [OF silent_delete] records_mono [OF records_live])
    (auto simp: unrecorded intro!: records_intros dest: spec [of _ "[]"] spec [of _ "[_]"])

lemma syncLabels_closed: "terminal status \<Longrightarrow> labelsOf status \<in> set syncLabels"
  by (auto simp: terminal_def typedOutcome_def labelsOf_def syncLabels_def)

lemma refEnv_statusEcho: "statusEcho refEnv"
  by (auto simp: statusEcho_def refUpdateStatus_def stored_status_def refPut_def bumped_def Let_def split: option.splits if_splits)

section \<open>Properties\<close>

text \<open>
  (C14) A reconcile reports its outcome exactly once and truthfully. It increments at most one series of
  \<open>kvsynk8s_sync_total\<close>, one of ten fixed label pairs: that of the last status it sent, which is InSync or
  Failing. With a recorder it emits one event about the same status, otherwise none. It reports nothing
  only when it returns without a requeue interval. A server answers an accepted status update with
  the status that was sent.
\<close>

theorem reconcile_reports_once:
  assumes "statusEcho E" and "run_state (Reconcile E r ctx req) s = (res, s')" and "calls s' = calls s @ new"
  shows "(syncTotal s' = syncTotal s \<and> emitted s' = emitted s \<and> fst res = noRequeue)
    \<or> (\<exists>k es. syncTotal s' = (syncTotal s)(k := Suc (syncTotal s k)) \<and> k \<in> set syncLabels
         \<and> emitted s' = emitted s @ es \<and> reportedOnce (rc_Recorder r) [k] es (concat (map sentStatus new)))"
proof -
  obtain ks es new' where out: "syncTotal s' = tally ks (syncTotal s)" "emitted s' = emitted s @ es"
      "calls s' = calls s @ new'" "recorded (rc_Recorder r) (fst res) ks es (concat (map sentStatus new'))"
    using records_run [OF records_Reconcile [OF assms(1)] assms(2)] by blast
  with assms(3) have "recorded (rc_Recorder r) (fst res) ks es (concat (map sentStatus new))" by simp
  then consider "ks = []" "es = []" "fst res = noRequeue"
    | k where "ks = [k]" "reportedOnce (rc_Recorder r) [k] es (concat (map sentStatus new))"
    unfolding recorded_def by (metis reportedOnce_def)
  then show ?thesis
  proof cases
    case 1
    with out(1,2) show ?thesis by simp
  next
    case (2 k)
    then have "k \<in> set syncLabels" by (auto simp: reportedOnce_def told_def syncLabels_closed)
    with 2 out(1,2) show ?thesis by (intro disjI2 exI [of _ k] exI [of _ es]) simp
  qed
qed

theorem reconcile_reports_once_witness:
  "\<exists>k es status. syncTotal (snd (demoRun demoVault [] [syncedSync, rivalSync])) = (\<lambda>_. 0)(k := 1) \<and> k \<in> set syncLabels
    \<and> emitted (snd (demoRun demoVault [] [syncedSync, rivalSync])) = es
    \<and> reportedOnce (rc_Recorder (demoReconciler demoVault)) [k] es [status] \<and> st_Reason status = ReasonTargetConflict"
proof -
  obtain res s' where run: "demoRun demoVault [] [syncedSync, rivalSync] = (res, s')" by fastforce
  obtain c0 c1 status ss where calls: "calls s' = [c0, c1, CUpdateStatus (statusWriteContext demoCtx) status (Inr ss)]"
      "sentStatus c0 = []" "sentStatus c1 = []" "st_Reason (ss_Status status) = ReasonTargetConflict"
      "fst res = \<lparr>res_RequeueAfter = 4 * Hour\<rparr>"
    using run_conflict run by fastforce
  have "calls s' = calls (demoSys [] [syncedSync, rivalSync]) @ calls s'" by (simp add: demoSys_def)
  from reconcile_reports_once [OF refEnv_statusEcho run this] calls show ?thesis
    unfolding run by (auto simp: demoSys_def)
qed

end
