(* ===== verification/Azure_KeyVault.thy ===== *)
theory Azure_KeyVault
  imports Sync_Engine Go_Json
begin

text \<open>
  \<open>internal/azure/keyvault.go\<close> and \<open>autherr.go\<close>: the \<open>SecretReader\<close> over the Azure SDK. It keeps one
  client per vault name, reads the latest version of a secret and turns every failure into one of
  five sentinels, which is all the engine looks at.

  The SDK (\<open>azsecrets\<close>) is the record \<open>azureEnv\<close>: the constructor of a client, the read and the
  \<open>Version\<close> method of an identifier; the clients have the type \<open>'c\<close> and the service behind them the
  type \<open>'v\<close>, and nothing is assumed of either. \<open>kvSys\<close> is the reader's own state (the map of clients)
  with that service, the SDK calls made and the log lines written; it can be the world of
  \<open>Operator_State\<close>, so that \<open>kvReader\<close> is an argument the engine accepts.

  The locale \<open>secret_reader\<close> is the contract in the comment of the interface: an error wraps a
  sentinel. The engine's part of the argument is proved from it alone, and the interpretation shows
  that this reader keeps it.
\<close>

section \<open>State and interfaces\<close>

record 'c keyVaultReader =
  kv_clients :: "(string, 'c) fmap"

text \<open>The fields of \<open>azsecrets.GetSecretResponse\<close> that are read: \<open>Attributes\<close> (nil, or with a nil or
  set \<open>Enabled\<close>), \<open>Value\<close> and \<open>ID\<close>.\<close>

record GetSecretResponse =
  gr_Attributes :: "bool option option"
  gr_Value :: "string option"
  gr_ID :: "string option"

text \<open>An SDK call with its answer. \<open>NewClient\<close> has the endpoint and whether the options disable the
  challenge verification (they are nil otherwise).\<close>

datatype azcall =
    NewClient string bool "goerr option"
  | GetSecret string string "goerr option"

record ('c, 'v) azureEnv =
  az_unicode :: unicode
  az_Getenv :: "string \<Rightarrow> string"
  az_NewClient :: "string \<Rightarrow> bool \<Rightarrow> 'v \<Rightarrow> (goerr + 'c) \<times> 'v"
  az_GetSecret :: "'c \<Rightarrow> goctx \<Rightarrow> string \<Rightarrow> string \<Rightarrow> 'v \<Rightarrow> (goerr + GetSecretResponse) \<times> 'v"
  az_Version :: "string \<Rightarrow> string"

record ('c, 'v) kvSys =
  kvs_service :: 'v
  kvs_reader :: "'c keyVaultReader"
  kvs_calls :: "azcall list"
  kvs_logs :: "logline list"

definition callAzure ::
    "('a \<Rightarrow> azcall) \<Rightarrow> ('v \<Rightarrow> 'a \<times> 'v) \<Rightarrow> (('c, 'v) kvSys, 'a) state" where
  "callAzure c f =
     State (\<lambda>s. case f (kvs_service s) of
        (r, v') \<Rightarrow> (r, s\<lparr>kvs_service := v', kvs_calls := kvs_calls s @ [c r]\<rparr>))"

definition logKv :: "loglevel \<Rightarrow> string \<Rightarrow> (string \<times> logval) list \<Rightarrow> (('c, 'v) kvSys, unit) state" where
  "logKv lvl msg kv =
     modify (\<lambda>s. s\<lparr>kvs_logs := kvs_logs s @ [\<lparr>log_Level = lvl, log_Msg = msg, log_KV = kv\<rparr>]\<rparr>)"

fun failure :: "goerr + 'a \<Rightarrow> goerr option" where
  "failure (Inl e) = Some e"
| "failure (Inr _) = None"

section \<open>Authentication failures\<close>

abbreviation authKindUnavailable :: string where
  "authKindUnavailable \<equiv> ''credential-unavailable''"
abbreviation authKindRequestFailed :: string where
  "authKindRequestFailed \<equiv> ''token-request-failed''"

fun isAuthFailed :: "kind \<Rightarrow> bool" where
  "isAuthFailed (KAuthFailed _) = True"
| "isAuthFailed _ = False"

text \<open>The types with a \<open>NonRetriable()\<close> method: azidentity's \<open>AuthenticationFailedError\<close> and whatever
  else the SDK marks so.\<close>

fun nonRetriable :: "kind \<Rightarrow> bool" where
  "nonRetriable (KAuthFailed _) = True"
| "nonRetriable (KExternal marked _) = marked"
| "nonRetriable _ = False"

definition isAuthFailure :: "goerr \<Rightarrow> bool" where
  "isAuthFailure err =
     (case errors_As isAuthFailed err of
        Some (KAuthFailed (Some status)) \<Rightarrow> \<not> (status = 429 \<or> status \<ge> 500)
      | Some _ \<Rightarrow> True
      | None \<Rightarrow> errors_As nonRetriable err \<noteq> None)"

definition authFailureKind :: "goerr \<Rightarrow> string" where
  "authFailureKind err =
     (if \<not> isAuthFailure err then []
      else if errors_As isAuthFailed err \<noteq> None then authKindRequestFailed
      else authKindUnavailable)"

section \<open>The error body of a refused read\<close>

text \<open>\<open>keyVaultErrorBody\<close>, and its decoding: a field of another type than a string or an object is an
  error, after which decoding goes on; \<open>null\<close> leaves a field as it was; a repeated key is decoded
  into the same place again; unknown keys are skipped.\<close>

record keyVaultErrorBody =
  eb_Code :: string
  eb_Message :: string
  eb_InnerCode :: string

type_synonym decoding = "keyVaultErrorBody \<times> bool"

definition zeroErrorBody :: keyVaultErrorBody where
  "zeroErrorBody = \<lparr>eb_Code = [], eb_Message = [], eb_InnerCode = []\<rparr>"

definition decodeString ::
    "(string \<Rightarrow> keyVaultErrorBody \<Rightarrow> keyVaultErrorBody) \<Rightarrow> json \<Rightarrow> decoding \<Rightarrow> decoding" where
  "decodeString put j d =
     (case j of JString s \<Rightarrow> (put s (fst d), snd d) | JNull \<Rightarrow> d | _ \<Rightarrow> (fst d, True))"

definition decodeStruct ::
    "unicode \<Rightarrow> (string \<times> (json \<Rightarrow> decoding \<Rightarrow> decoding)) list \<Rightarrow> json \<Rightarrow> decoding \<Rightarrow> decoding" where
  "decodeStruct u fs j d =
     (case j of
        JObject ms \<Rightarrow>
          foldl (\<lambda>d (key, _, v).
            case fieldFor u (map fst fs) key of
              None \<Rightarrow> d
            | Some name \<Rightarrow> (case map_of fs name of None \<Rightarrow> d | Some dec \<Rightarrow> dec v d)) d ms
      | JNull \<Rightarrow> d
      | _ \<Rightarrow> (fst d, True))"

definition decodeErrorBody :: "unicode \<Rightarrow> json \<Rightarrow> decoding" where
  "decodeErrorBody u j =
     decodeStruct u
       [(''error'', decodeStruct u
           [(''code'', decodeString (\<lambda>s b. b\<lparr>eb_Code := s\<rparr>)),
            (''message'', decodeString (\<lambda>s b. b\<lparr>eb_Message := s\<rparr>)),
            (''innererror'', decodeStruct u
               [(''code'', decodeString (\<lambda>s b. b\<lparr>eb_InnerCode := s\<rparr>))])])]
       j (zeroErrorBody, False)"

text \<open>\<open>json.Unmarshal\<close> into a fresh \<open>keyVaultErrorBody\<close>; \<open>None\<close> is an error.\<close>

definition unmarshalErrorBody :: "unicode \<Rightarrow> string \<Rightarrow> keyVaultErrorBody option" where
  "unmarshalErrorBody u body =
     (case parseJson body of
        None \<Rightarrow> None
      | Some j \<Rightarrow> if snd (decodeErrorBody u j) then None else Some (fst (decodeErrorBody u j)))"

definition isDisabledSecretResponse :: "unicode \<Rightarrow> ResponseErr \<Rightarrow> bool" where
  "isDisabledSecretResponse u respErr =
     (case re_Payload respErr of
        None \<Rightarrow> False
      | Some None \<Rightarrow> False
      | Some (Some body) \<Rightarrow>
          if body = [] then False
          else (case unmarshalErrorBody u body of
              None \<Rightarrow> False
            | Some kvErr \<Rightarrow>
                if eb_InnerCode kvErr = ''SecretDisabled'' then True
                else Contains (ToLower u (eb_Message kvErr)) ''not allowed on a disabled''))"

section \<open>Classification\<close>

abbreviation classSecretNotFound :: string where
  "classSecretNotFound \<equiv> ''SecretNotFound''"
abbreviation classAccessDenied :: string where
  "classAccessDenied \<equiv> ''AccessDenied''"
abbreviation classAuthenticationFailed :: string where
  "classAuthenticationFailed \<equiv> ''AuthenticationFailed''"
abbreviation classSourceDisabled :: string where
  "classSourceDisabled \<equiv> ''SourceDisabled''"
abbreviation classTransientError :: string where
  "classTransientError \<equiv> ''TransientError''"

definition classificationName :: "goerr \<Rightarrow> string" where
  "classificationName sentinel =
     (if errors_Is sentinel ErrSecretNotFound then classSecretNotFound
      else if errors_Is sentinel ErrAccessDenied then classAccessDenied
      else if errors_Is sentinel ErrAuthFailure then classAuthenticationFailed
      else if errors_Is sentinel ErrSecretDisabled then classSourceDisabled
      else classTransientError)"

fun isResponseError :: "kind \<Rightarrow> bool" where
  "isResponseError (KResponse _) = True"
| "isResponseError _ = False"

definition classifySentinel :: "unicode \<Rightarrow> goerr \<Rightarrow> int \<times> goerr" where
  "classifySentinel u err =
     (case errors_As isResponseError err of
        Some (KResponse respErr) \<Rightarrow>
          (let code = re_StatusCode respErr in
           if isDisabledSecretResponse u respErr then (code, Sentinel ErrSecretDisabled)
           else if code = 404 then (code, Sentinel ErrSecretNotFound)
           else if code = 401 \<or> code = 403 then (code, Sentinel ErrAccessDenied)
           else if code = 429 \<or> code \<ge> 500 then (code, Sentinel ErrTransient)
           else (code, Sentinel ErrTransient))
      | _ \<Rightarrow>
          if isAuthFailure err then (0, Sentinel ErrAuthFailure)
          else (0, Sentinel ErrTransient))"

text \<open>The texts \<open>vault %q secret %q: \<close> and \<open>vault %q: \<dots>\<close> in front of the wrapped errors.\<close>

definition readText :: "unicode \<Rightarrow> string \<Rightarrow> string \<Rightarrow> string" where
  "readText u vaultName secretName =
     ''vault '' @ quote u vaultName @ '' secret '' @ quote u secretName @ '': ''"

definition classifyGetSecretError ::
    "('c, 'v) azureEnv \<Rightarrow> string \<Rightarrow> string \<Rightarrow> goerr \<Rightarrow> (('c, 'v) kvSys, goerr) state" where
  "classifyGetSecretError A vaultName secretName err =
     (let (statusCode, sentinel) = classifySentinel (az_unicode A) err;
          keys = [(''vault'', LStr vaultName), (''secret'', LStr secretName),
            (''statusCode'', LInt statusCode),
            (''classification'', LStr (classificationName sentinel))]
            @ (if authFailureKind err \<noteq> [] then [(''authFailure'', LStr (authFailureKind err))] else [])
      in do {
        logKv (LError None) ''key vault read failed'' keys;
        State_Monad.return (Errorf (readText (az_unicode A) vaultName secretName) [sentinel])
      })"

section \<open>Reading\<close>

definition vaultURL :: "string \<Rightarrow> string" where
  "vaultURL vaultName = ''https://'' @ vaultName @ ''.vault.azure.net/''"

abbreviation testEndpointOverrideEnv :: string where
  "testEndpointOverrideEnv \<equiv> ''KVSYNK8S_KEYVAULT_TEST_ENDPOINT''"

definition clientFor :: "('c, 'v) azureEnv \<Rightarrow> string \<Rightarrow> (('c, 'v) kvSys, goerr + 'c) state" where
  "clientFor A vaultName =
     do {
       clients \<leftarrow> gets (\<lambda>s. kv_clients (kvs_reader s));
       (case fmlookup clients vaultName of
          Some c \<Rightarrow> State_Monad.return (Inr c)
        | None \<Rightarrow>
            (let override = az_Getenv A testEndpointOverrideEnv;
                 endpoint = (if override \<noteq> [] then override else vaultURL vaultName);
                 opts = (override \<noteq> []) in
             do {
               r \<leftarrow> callAzure (\<lambda>r. NewClient endpoint opts (failure r)) (az_NewClient A endpoint opts);
               (case r of
                  Inl err \<Rightarrow> State_Monad.return (Inl
                    (Errorf (''vault '' @ quote (az_unicode A) vaultName @ '': create key vault client: '')
                       [Sentinel ErrTransient, err]))
                | Inr c \<Rightarrow> do {
                    modify (\<lambda>s. s\<lparr>kvs_reader := (kvs_reader s)\<lparr>kv_clients :=
                      fmupd vaultName c (kv_clients (kvs_reader s))\<rparr>\<rparr>);
                    State_Monad.return (Inr c)
                  })
             }))
     }"

definition secretIsDisabled :: "bool option option \<Rightarrow> bool" where
  "secretIsDisabled attrs = (case attrs of Some (Some enabled) \<Rightarrow> \<not> enabled | _ \<Rightarrow> False)"

definition GetLatest ::
    "('c, 'v) azureEnv \<Rightarrow> goctx \<Rightarrow> string \<Rightarrow> string
     \<Rightarrow> (('c, 'v) kvSys, goerr + string \<times> string) state" where
  "GetLatest A ctx vaultName secretName =
     do {
       c \<leftarrow> clientFor A vaultName;
       (case c of
          Inl err \<Rightarrow> State_Monad.return (Inl err)
        | Inr client \<Rightarrow> do {
            r \<leftarrow> callAzure (\<lambda>r. GetSecret secretName [] (failure r)) (az_GetSecret A client ctx secretName []);
            (case r of
               Inl err \<Rightarrow> do {
                 e \<leftarrow> classifyGetSecretError A vaultName secretName err;
                 State_Monad.return (Inl e)
               }
             | Inr resp \<Rightarrow>
                 if secretIsDisabled (gr_Attributes resp) then
                   State_Monad.return (Inl (Errorf (readText (az_unicode A) vaultName secretName)
                     [Sentinel ErrSecretDisabled]))
                 else (case gr_Value resp of
                     None \<Rightarrow> State_Monad.return (Inl (Errorf (readText (az_unicode A) vaultName secretName)
                       [Sentinel ErrTransient]))
                   | Some v \<Rightarrow> State_Monad.return (Inr (v,
                       case gr_ID resp of None \<Rightarrow> [] | Some i \<Rightarrow> az_Version A i))))
          })
     }"

text \<open>The reader as the interface value the engine is given.\<close>

definition kvReader :: "('c, 'v) azureEnv \<Rightarrow> ('c, 'v) kvSys SecretReader" where
  "kvReader A ctx vaultName secretName = run_state (GetLatest A ctx vaultName secretName)"

text \<open>\<open>NewSecretReader\<close>: no clients yet, unless the default credential cannot be built (\<open>cred\<close> is the
  answer of \<open>azidentity.NewDefaultAzureCredential\<close>).\<close>

definition NewSecretReader :: "goerr option \<Rightarrow> goerr + 'c keyVaultReader" where
  "NewSecretReader cred =
     (case cred of
        Some err \<Rightarrow> Inl (Errorf ''create default azure credential: '' [err])
      | None \<Rightarrow> Inr \<lparr>kv_clients = fmempty\<rparr>)"

text \<open>The environment of the operator with the reader's state beside it: a call to the cluster leaves
  the reader alone.\<close>

definition inService :: "('v \<Rightarrow> 'r \<times> 'v) \<Rightarrow> ('c, 'v) kvSys \<Rightarrow> 'r \<times> ('c, 'v) kvSys" where
  "inService f s = (case f (kvs_service s) of (r, v) \<Rightarrow> (r, s\<lparr>kvs_service := v\<rparr>))"

definition overKv :: "'v env \<Rightarrow> ('c, 'v) kvSys env" where
  "overKv E =
     \<lparr>env_unicode = env_unicode E,
      env_IsNotFound = env_IsNotFound E,
      env_IsAlreadyExists = env_IsAlreadyExists E,
      env_IsConflict = env_IsConflict E,
      env_IsInvalid = env_IsInvalid E,
      env_GetControllerOf = env_GetControllerOf E,
      env_SetStatusCondition = env_SetStatusCondition E,
      env_SetControllerReference = env_SetControllerReference E,
      env_ContainsFinalizer = env_ContainsFinalizer E,
      env_AddFinalizer = env_AddFinalizer E,
      env_RemoveFinalizer = env_RemoveFinalizer E,
      env_GetSecretSync = (\<lambda>ctx key. inService (env_GetSecretSync E ctx key)),
      env_ListSecretSyncs = (\<lambda>ctx ns. inService (env_ListSecretSyncs E ctx ns)),
      env_GetSecret = (\<lambda>c ctx key. inService (env_GetSecret E c ctx key)),
      env_ListSecrets = (\<lambda>ctx ns k v. inService (env_ListSecrets E ctx ns k v)),
      env_CreateSecret = (\<lambda>ctx x. inService (env_CreateSecret E ctx x)),
      env_UpdateSecret = (\<lambda>ctx x. inService (env_UpdateSecret E ctx x)),
      env_DeleteSecret = (\<lambda>ctx x. inService (env_DeleteSecret E ctx x)),
      env_UpdateSecretSync = (\<lambda>ctx x. inService (env_UpdateSecretSync E ctx x)),
      env_UpdateStatus = (\<lambda>ctx x. inService (env_UpdateStatus E ctx x)),
      env_Now = inService (env_Now E)\<rparr>"

text \<open>A sequence of reads: vault and secret name each.\<close>

primrec reads :: "('c, 'v) azureEnv \<Rightarrow> goctx \<Rightarrow> (string \<times> string) list \<Rightarrow> ('c, 'v) kvSys
    \<Rightarrow> ('c, 'v) kvSys" where
  "reads A ctx [] s = s"
| "reads A ctx (q # qs) s = reads A ctx qs (snd (kvReader A ctx (fst q) (snd q) s))"

text \<open>What \<open>GetLatest\<close> answers when the SDK's read answered \<open>r\<close>, and the line it logs.\<close>

definition readAnswer ::
    "('c, 'v) azureEnv \<Rightarrow> string \<Rightarrow> string \<Rightarrow> goerr + GetSecretResponse \<Rightarrow> goerr + string \<times> string" where
  "readAnswer A vaultName secretName r =
     (let failed = (\<lambda>e. Inl (Errorf (readText (az_unicode A) vaultName secretName) [e])) in
      case r of
        Inl err \<Rightarrow> failed (snd (classifySentinel (az_unicode A) err))
      | Inr resp \<Rightarrow>
          if gr_Attributes resp = Some (Some False) then failed (Sentinel ErrSecretDisabled)
          else (case gr_Value resp of
              None \<Rightarrow> failed (Sentinel ErrTransient)
            | Some v \<Rightarrow> Inr (v, case gr_ID resp of None \<Rightarrow> [] | Some i \<Rightarrow> az_Version A i)))"

definition readLog ::
    "('c, 'v) azureEnv \<Rightarrow> string \<Rightarrow> string \<Rightarrow> goerr + GetSecretResponse \<Rightarrow> logline list" where
  "readLog A vaultName secretName r =
     (case r of
        Inr _ \<Rightarrow> []
      | Inl err \<Rightarrow>
          [\<lparr>log_Level = LError None, log_Msg = ''key vault read failed'',
            log_KV = [(''vault'', LStr vaultName), (''secret'', LStr secretName),
              (''statusCode'', LInt (fst (classifySentinel (az_unicode A) err))),
              (''classification'', LStr (classificationName (snd (classifySentinel (az_unicode A) err))))]
              @ (if authFailureKind err \<noteq> []
                 then [(''authFailure'', LStr (authFailureKind err))] else [])\<rparr>])"

text \<open>Two answers of the SDK that differ in what must stay private at most: the value and the identifier
  of a secret that was read, the text and the body of an error beyond its classification.\<close>

fun publicRead :: "unicode \<Rightarrow> goerr + GetSecretResponse \<Rightarrow> goerr + GetSecretResponse \<Rightarrow> bool" where
  "publicRead u (Inl e) (Inl e') =
     (classifySentinel u e = classifySentinel u e' \<and> authFailureKind e = authFailureKind e')"
| "publicRead u (Inr r) (Inr r') = True"
| "publicRead u _ _ = False"

text \<open>Two SDKs that differ in private matters only: they make the same clients or both fail to make one, with whatever
  errors, and every read gives two answers that differ in private matters only.\<close>

definition upstreamAlike :: "('c, 'v) azureEnv \<Rightarrow> ('c, 'v) azureEnv \<Rightarrow> bool" where
  "upstreamAlike A A' \<longleftrightarrow> az_unicode A' = az_unicode A \<and> az_Getenv A' = az_Getenv A
     \<and> (\<forall>endpoint opts v. snd (az_NewClient A' endpoint opts v) = snd (az_NewClient A endpoint opts v)
          \<and> (case fst (az_NewClient A endpoint opts v) of
               Inl _ \<Rightarrow> isl (fst (az_NewClient A' endpoint opts v))
             | Inr c \<Rightarrow> fst (az_NewClient A' endpoint opts v) = Inr c))
     \<and> (\<forall>c ctx name version v. snd (az_GetSecret A' c ctx name version v) = snd (az_GetSecret A c ctx name version v)
          \<and> publicRead (az_unicode A) (fst (az_GetSecret A c ctx name version v)) (fst (az_GetSecret A' c ctx name version v)))"

text \<open>A client was constructed.\<close>

fun connected :: "azcall \<Rightarrow> bool" where
  "connected (NewClient _ _ None) = True"
| "connected _ = False"

fun isRead :: "azcall \<Rightarrow> bool" where
  "isRead (GetSecret _ _ _) = True"
| "isRead _ = False"

fun asksLatest :: "azcall \<Rightarrow> bool" where
  "asksLatest (GetSecret _ version _) = (version = [])"
| "asksLatest _ = True"

text \<open>After the reads \<open>qs\<close>: as many clients as vaults, for vaults that were asked for.\<close>

definition clientsOk :: "(string \<times> string) list \<Rightarrow> ('c, 'v) kvSys \<Rightarrow> bool" where
  "clientsOk qs s \<longleftrightarrow>
     length (filter connected (kvs_calls s)) = maplen (kv_clients (kvs_reader s))
     \<and> fset (fmdom (kv_clients (kvs_reader s))) \<subseteq> set (map fst qs)
     \<and> list_all asksLatest (kvs_calls s) \<and> length (filter isRead (kvs_calls s)) \<le> length qs"

text \<open>An SDK that connects to every endpoint and answers every read alike, and a fresh process over it.\<close>

definition answering :: "goerr + GetSecretResponse \<Rightarrow> (string, cluster) azureEnv" where
  "answering r =
     \<lparr>az_unicode = env_unicode refEnv, az_Getenv = (\<lambda>_. []), az_NewClient = (\<lambda>endpoint opts v. (Inr endpoint, v)),
      az_GetSecret = (\<lambda>c ctx name version v. (r, v)), az_Version = (\<lambda>i. i)\<rparr>"

definition refused :: "int \<Rightarrow> string \<Rightarrow> goerr" where
  "refused code body = Err (KResponse \<lparr>re_StatusCode = code, re_Payload = Some (Some body)\<rparr>) []"

text \<open>The refusal of Key Vault for a disabled secret.\<close>

definition disabledBody :: string where
  \<open>disabledBody = ''{"error":{"code":"Forbidden","innererror":{"code":"SecretDisabled"}}}''\<close>

definition kvFresh :: "(string, cluster) kvSys" where
  "kvFresh = \<lparr>kvs_service = world (demoSys [] []), kvs_reader = \<lparr>kv_clients = fmempty\<rparr>,
     kvs_calls = [], kvs_logs = []\<rparr>"

definition kvProcess :: "(string, string) fmap \<Rightarrow> (string, cluster) kvSys sys" where
  "kvProcess clients = \<lparr>world = kvFresh\<lparr>kvs_reader := \<lparr>kv_clients = clients\<rparr>\<rparr>, calls = [], emitted = [], syncTotal = (\<lambda>_. 0), logs = []\<rparr>"

section \<open>The contract of a reader\<close>

definition readerSentinels :: "sentinel list" where
  "readerSentinels = [ErrSecretNotFound, ErrAccessDenied, ErrAuthFailure, ErrSecretDisabled, ErrTransient]"

locale secret_reader =
  fixes rd :: "'w SecretReader"
  assumes classified:
    "rd ctx vaultName secretName w = (Inl e, w') \<Longrightarrow> \<exists>k \<in> set readerSentinels. errors_Is e k"
begin

text \<open>The engine never takes its unclassified branch: it reports as for one of the sentinels.\<close>

lemma engine_classifies:
  assumes "rd ctx vaultName secretName w = (Inl e, w')"
  shows "\<exists>k \<in> set readerSentinels.
    classifyReaderError u e owner managed = classifyReaderError u (Sentinel k) owner managed"
proof -
  from classified [OF assms] have "errors_Is e ErrSecretNotFound \<or> errors_Is e ErrAccessDenied
      \<or> errors_Is e ErrAuthFailure \<or> errors_Is e ErrSecretDisabled \<or> errors_Is e ErrTransient"
    by (simp add: readerSentinels_def)
  then show ?thesis
    by (auto simp: readerSentinels_def classifyReaderError_def Let_def)
qed

end

section \<open>Lemmas\<close>

lemma wp_callAzure [wp_simps]:
  "wp (callAzure c f) Q s =
     (case f (kvs_service s) of
        (r, v') \<Rightarrow> Q r (s\<lparr>kvs_service := v', kvs_calls := kvs_calls s @ [c r]\<rparr>))"
  by (simp add: wp_def callAzure_def split: prod.split)

lemma wp_logKv [wp_simps]:
  "wp (logKv lvl msg kv) Q s =
     Q () (s\<lparr>kvs_logs := kvs_logs s @ [\<lparr>log_Level = lvl, log_Msg = msg, log_KV = kv\<rparr>]\<rparr>)"
  by (simp add: logKv_def wp_modify)

lemma classifySentinel_sentinel: "\<exists>k \<in> set readerSentinels. snd (classifySentinel u err) = Sentinel k"
  by (auto simp: classifySentinel_def readerSentinels_def Let_def split: option.split kind.split)

text \<open>The two ways a read goes: no client can be had, or one is asked, exactly once.\<close>

lemma kvReader_known:
  assumes "fmlookup (kv_clients (kvs_reader s)) vaultName = Some c"
    and "az_GetSecret A c ctx secretName [] (kvs_service s) = (r, v')"
  shows "kvReader A ctx vaultName secretName s =
    (readAnswer A vaultName secretName r,
     s\<lparr>kvs_service := v', kvs_calls := kvs_calls s @ [GetSecret secretName [] (failure r)],
       kvs_logs := kvs_logs s @ readLog A vaultName secretName r\<rparr>)"
  using assms
  by (auto simp: kvReader_def GetLatest_def clientFor_def callAzure_def readAnswer_def readLog_def
      classifyGetSecretError_def logKv_def secretIsDisabled_def Let_def
      split: sum.split option.split prod.split)

lemma kvReader_client:
  assumes "run_state (clientFor A vaultName) s = (c, s1)"
  shows "kvReader A ctx vaultName secretName s =
    (case c of
       Inl err \<Rightarrow> (Inl err, s1)
     | Inr client \<Rightarrow> (case az_GetSecret A client ctx secretName [] (kvs_service s1) of
         (r, v') \<Rightarrow> (readAnswer A vaultName secretName r,
           s1\<lparr>kvs_service := v', kvs_calls := kvs_calls s1 @ [GetSecret secretName [] (failure r)],
             kvs_logs := kvs_logs s1 @ readLog A vaultName secretName r\<rparr>)))"
  using assms
  by (auto simp: kvReader_def GetLatest_def callAzure_def readAnswer_def readLog_def
      classifyGetSecretError_def logKv_def secretIsDisabled_def Let_def
      split: sum.split option.split prod.split)

text \<open>No log line is written on the way to a client, and the two SDKs give the same one.\<close>

lemma clientFor_alike:
  assumes "upstreamAlike A A'" and "run_state (clientFor A vaultName) s = (c, s1)"
  shows "kvs_logs s1 = kvs_logs s
    \<and> (case c of
         Inr client \<Rightarrow> run_state (clientFor A' vaultName) s = (Inr client, s1)
       | Inl e \<Rightarrow> \<exists>e' s1'. run_state (clientFor A' vaultName) s = (Inl e', s1') \<and> kvs_logs s1' = kvs_logs s)"
proof (cases "fmlookup (kv_clients (kvs_reader s)) vaultName")
  case (Some client)
  with assms(2) show ?thesis by (auto simp: clientFor_def)
next
  case None
  let ?override = "az_Getenv A testEndpointOverrideEnv"
  let ?new = "\<lambda>A. az_NewClient A (if ?override \<noteq> [] then ?override else vaultURL vaultName) (?override \<noteq> []) (kvs_service s)"
  obtain r v' where r: "?new A = (r, v')" by fastforce
  obtain r' v'' where r': "?new A' = (r', v'')" by fastforce
  have same: "v'' = v'" "case r of Inl _ \<Rightarrow> isl r' | Inr c \<Rightarrow> r' = Inr c" "az_unicode A' = az_unicode A" "az_Getenv A' = az_Getenv A"
    using assms(1) r r' unfolding upstreamAlike_def by (metis fst_conv snd_conv)+
  with None r r' assms(2) show ?thesis
    by (cases r; cases r') (auto simp: clientFor_def callAzure_def Let_def split: if_splits)
qed

lemma kvReader_new:
  assumes "fmlookup (kv_clients (kvs_reader s)) vaultName = None"
    and "endpoint = (if az_Getenv A testEndpointOverrideEnv \<noteq> []
           then az_Getenv A testEndpointOverrideEnv else vaultURL vaultName)"
    and "opts = (az_Getenv A testEndpointOverrideEnv \<noteq> [])"
    and "az_NewClient A endpoint opts (kvs_service s) = (r, v')"
  shows "kvReader A ctx vaultName secretName s =
    (let s1 = s\<lparr>kvs_service := v', kvs_calls := kvs_calls s @ [NewClient endpoint opts (failure r)]\<rparr> in
     case r of
       Inl err \<Rightarrow> (Inl (Errorf (''vault '' @ quote (az_unicode A) vaultName
                     @ '': create key vault client: '') [Sentinel ErrTransient, err]), s1)
     | Inr c \<Rightarrow> kvReader A ctx vaultName secretName
         (s1\<lparr>kvs_reader := (kvs_reader s)\<lparr>kv_clients := fmupd vaultName c (kv_clients (kvs_reader s))\<rparr>\<rparr>))"
  using assms(1,4) unfolding assms(2,3)
  by (cases r) (simp_all add: kvReader_def GetLatest_def clientFor_def callAzure_def Let_def)

lemma readAnswer_Inl:
  "readAnswer A vaultName secretName r = Inl e \<Longrightarrow>
   \<exists>k \<in> set readerSentinels. e = Errorf (readText (az_unicode A) vaultName secretName) [Sentinel k]"
  using classifySentinel_sentinel [of "az_unicode A"]
  by (auto simp: readAnswer_def readerSentinels_def Let_def split: sum.splits if_splits option.splits)

lemma kvReader_cases:
  assumes "kvReader A ctx vaultName secretName s = (res, s')"
  obtains
    (unconnected) err endpoint opts where
      "res = Inl (Errorf (''vault '' @ quote (az_unicode A) vaultName
         @ '': create key vault client: '') [Sentinel ErrTransient, err])"
      "fmlookup (kv_clients (kvs_reader s)) vaultName = None" "kvs_reader s' = kvs_reader s"
      "kvs_calls s' = kvs_calls s @ [NewClient endpoint opts (Some err)]" "kvs_logs s' = kvs_logs s"
  | (known) c r where
      "fmlookup (kv_clients (kvs_reader s)) vaultName = Some c"
      "res = readAnswer A vaultName secretName r" "kvs_reader s' = kvs_reader s"
      "kvs_calls s' = kvs_calls s @ [GetSecret secretName [] (failure r)]"
      "kvs_logs s' = kvs_logs s @ readLog A vaultName secretName r"
  | (new) c r endpoint opts where
      "fmlookup (kv_clients (kvs_reader s)) vaultName = None"
      "res = readAnswer A vaultName secretName r"
      "kvs_reader s' = (kvs_reader s)\<lparr>kv_clients := fmupd vaultName c (kv_clients (kvs_reader s))\<rparr>"
      "kvs_calls s' = kvs_calls s @ [NewClient endpoint opts None, GetSecret secretName [] (failure r)]"
      "kvs_logs s' = kvs_logs s @ readLog A vaultName secretName r"
proof (cases "fmlookup (kv_clients (kvs_reader s)) vaultName")
  case (Some c)
  obtain r v' where "az_GetSecret A c ctx secretName [] (kvs_service s) = (r, v')" by fastforce
  from kvReader_known [OF Some this] assms Some show thesis by (intro known) auto
next
  case None
  define opts where "opts = (az_Getenv A testEndpointOverrideEnv \<noteq> [])"
  define endpoint where "endpoint = (if az_Getenv A testEndpointOverrideEnv \<noteq> []
    then az_Getenv A testEndpointOverrideEnv else vaultURL vaultName)"
  obtain r v' where nc: "az_NewClient A endpoint opts (kvs_service s) = (r, v')" by fastforce
  note run = kvReader_new [OF None endpoint_def opts_def nc, of ctx secretName, unfolded assms Let_def]
  show thesis
  proof (cases r)
    case (Inl err)
    with run None show thesis by (intro unconnected [of err endpoint opts]) auto
  next
    case (Inr c)
    let ?s = "s\<lparr>kvs_service := v', kvs_calls := kvs_calls s @ [NewClient endpoint opts None],
      kvs_reader := (kvs_reader s)\<lparr>kv_clients := fmupd vaultName c (kv_clients (kvs_reader s))\<rparr>\<rparr>"
    obtain r' v'' where "az_GetSecret A c ctx secretName [] (kvs_service ?s) = (r', v'')" by fastforce
    from kvReader_known [OF _ this, of vaultName] run Inr None
    show thesis by (intro new [of r' c endpoint opts]) auto
  qed
qed

interpretation kv: secret_reader "kvReader A"
proof
  fix ctx vaultName secretName w e w'
  assume "kvReader A ctx vaultName secretName w = (Inl e, w')"
  then show "\<exists>k \<in> set readerSentinels. errors_Is e k"
  proof (cases rule: kvReader_cases)
    case (unconnected err)
    then show ?thesis by (simp add: readerSentinels_def)
  qed (auto dest!: readAnswer_Inl [OF sym])
qed

text \<open>The engine on an error of this reader.\<close>

lemma Sync_kv_error:
  assumes "\<And>x. existing = Some x \<Longrightarrow> \<not> foreign E owner x"
    and "kvReader A ctx (vault_Name (spec_Vault (ss_Spec owner))) (vault_Secret (spec_Vault (ss_Spec owner)))
           (world s) = (Inl e, w')"
  shows "fst (run_state (Sync E \<lparr>eng_Reader = Some (kvReader A)\<rparr> ctx owner existing) s) =
    (failingStatus (baseStatus owner)
       (fst (classifyReaderError (env_unicode E) e owner (\<exists>x. existing = Some x \<and> managedBy E owner x)))
       (snd (classifyReaderError (env_unicode E) e owner (\<exists>x. existing = Some x \<and> managedBy E owner x))),
     existing, None)"
  by (subst Sync_read [where existing = existing and rd = "kvReader A", OF _ assms])
    (auto split: prod.split)

text \<open>The reason for an error that wraps exactly one sentinel.\<close>

lemma classify_single:
  "fst (classifyReaderError u (Errorf t [Sentinel k]) owner managed) =
     (if k = ErrSecretNotFound then (if managed then ReasonSourceDeleted else ReasonSecretNotFound)
      else if k = ErrSecretDisabled then ReasonSourceDisabled
      else if k = ErrAccessDenied then ReasonAccessDenied
      else if k = ErrAuthFailure then ReasonAuthenticationFailed
      else ReasonTransientError)"
  by (cases k) (auto simp: classifyReaderError_def Let_def)

lemma maplen_upd: "fmlookup m k = None \<Longrightarrow> maplen (fmupd k v m) = Suc (maplen m)"
  using fmdom_notI [of m k] by (simp add: maplen_def fcard_finsert_disjoint)

text \<open>Evaluation on concrete answers.\<close>

lemma disabledBody_refused:
  "isDisabledSecretResponse (env_unicode refEnv) \<lparr>re_StatusCode = 403, re_Payload = Some (Some disabledBody)\<rparr>"
  by code_simp

lemma overKv_simps [simp]:
  "env_unicode (overKv E) = env_unicode E" "env_GetControllerOf (overKv E) = env_GetControllerOf E"
  by (simp_all add: overKv_def)

lemma answering_simps [simp]:
  "az_unicode (answering r) = env_unicode refEnv" "az_GetSecret (answering r) c ctx name version v = (r, v)"
  "az_NewClient (answering r) endpoint opts v = (Inr endpoint, v)" "az_Getenv (answering r) k = []"
  by (simp_all add: answering_def)

text \<open>The invariant behind the reuse of clients, for the requests served so far.\<close>

lemma kvReader_keeps:
  assumes "clientsOk qs s"
  shows "clientsOk (qs @ [(vaultName, secretName)]) (snd (kvReader A ctx vaultName secretName s))"
proof -
  obtain res s' where run: "kvReader A ctx vaultName secretName s = (res, s')" by fastforce
  then have "clientsOk (qs @ [(vaultName, secretName)]) s'"
    by (cases rule: kvReader_cases) (use assms in \<open>auto simp: clientsOk_def maplen_upd intro: fmdomI\<close>)
  with run show ?thesis by simp
qed

lemma reads_keep: "clientsOk qs s \<Longrightarrow> clientsOk (qs @ qs') (reads A ctx qs' s)"
proof (induction qs' arbitrary: qs s)
  case (Cons q qs')
  from kvReader_keeps [OF Cons.prems, of "fst q" "snd q" A ctx]
  have "clientsOk (qs @ [q]) (snd (kvReader A ctx (fst q) (snd q) s))" by simp
  from Cons.IH [OF this] show ?case by simp
qed simp

section \<open>Properties\<close>

text \<open>
  (C24) What an HTTP answer of the vault means in the status (data-model.md, the table of reasons). With a
  client for the vault and a target that is not another party's, a read the SDK fails makes \<open>Sync\<close>
  report Failing and return the Secret untouched, and the reason is: when the error carries a response
  of the vault, SourceDisabled for the disabled refusal whatever its status code, otherwise
  SecretNotFound for 404 (SourceDeleted when the target is already the owner's), AccessDenied for 401
  and 403 and TransientError for every other code, so that an authentication error inside it never
  decides; without a response, AuthenticationFailed exactly when no token could be had.
\<close>

theorem keyvault_status_reason:
  assumes "\<And>x. existing = Some x \<Longrightarrow> \<not> foreign E owner x"
    and "fmlookup (kv_clients (kvs_reader (world s))) (vault_Name (spec_Vault (ss_Spec owner))) = Some c"
    and "az_GetSecret A c ctx (vault_Secret (spec_Vault (ss_Spec owner))) [] (kvs_service (world s)) = (Inl err, v')"
    and "run_state (Sync E \<lparr>eng_Reader = Some (kvReader A)\<rparr> ctx owner existing) s = ((status, secret, e), s')"
  shows "secret = existing \<and> e = None \<and> st_State status = SecretSyncStateFailing
    \<and> (\<forall>r. errors_As isResponseError err = Some (KResponse r) \<longrightarrow>
         st_Reason status =
           (if isDisabledSecretResponse (az_unicode A) r then ReasonSourceDisabled
            else if re_StatusCode r = 404 then
              (if \<exists>x. existing = Some x \<and> managedBy E owner x then ReasonSourceDeleted else ReasonSecretNotFound)
            else if re_StatusCode r \<in> {401, 403} then ReasonAccessDenied
            else ReasonTransientError))
    \<and> (errors_As isResponseError err = None \<longrightarrow>
         st_Reason status = (if isAuthFailure err then ReasonAuthenticationFailed else ReasonTransientError))"
proof -
  let ?e = "Errorf (readText (az_unicode A) (vault_Name (spec_Vault (ss_Spec owner)))
    (vault_Secret (spec_Vault (ss_Spec owner)))) [snd (classifySentinel (az_unicode A) err)]"
  obtain w' where "kvReader A ctx (vault_Name (spec_Vault (ss_Spec owner)))
      (vault_Secret (spec_Vault (ss_Spec owner))) (world s) = (Inl ?e, w')"
    using kvReader_known [OF assms(2,3)] by (simp add: readAnswer_def)
  from Sync_kv_error [where existing = existing, OF assms(1) this] assms(4)
  have run: "status = failingStatus (baseStatus owner)
      (fst (classifyReaderError (env_unicode E) ?e owner (\<exists>x. existing = Some x \<and> managedBy E owner x)))
      (snd (classifyReaderError (env_unicode E) ?e owner (\<exists>x. existing = Some x \<and> managedBy E owner x)))"
    "secret = existing" "e = None"
    by auto
  then show ?thesis
    by (auto simp: classifySentinel_def classify_single Let_def)
qed


theorem keyvault_status_reason_witness:
  "\<exists>status s'. run_state (Sync (overKv refEnv)
      \<lparr>eng_Reader = Some (kvReader (answering (Inl (refused 403 disabledBody))))\<rparr> RootCtx demoSync None)
      (kvProcess (fmupd ''kv-prod'' ''client'' fmempty)) = ((status, None, None), s')
    \<and> st_Reason status = ReasonSourceDisabled"
proof -
  let ?A = "answering (Inl (refused 403 disabledBody))"
  let ?s = "kvProcess (fmupd ''kv-prod'' ''client'' fmempty)"
  obtain status secret e s' where run: "run_state (Sync (overKv refEnv)
      \<lparr>eng_Reader = Some (kvReader ?A)\<rparr> RootCtx demoSync None) ?s = ((status, secret, e), s')"
    by (metis prod.collapse)
  have "fmlookup (kv_clients (kvs_reader (world ?s))) (vault_Name (spec_Vault (ss_Spec demoSync))) = Some ''client''"
    by (simp add: kvProcess_def demoSync_def)
  moreover have "errors_As isResponseError (refused 403 disabledBody) =
      Some (KResponse \<lparr>re_StatusCode = 403, re_Payload = Some (Some disabledBody)\<rparr>)"
    by (simp add: refused_def)
  ultimately have "st_Reason status = ReasonSourceDisabled" "secret = None" "e = None"
    using keyvault_status_reason [OF _ _ _ run, of "''client''" "refused 403 disabledBody" "kvs_service (world ?s)"]
      disabledBody_refused by auto
  with run show ?thesis by auto
qed

text \<open>
  Every failure reaches the user classified (the contract in the comment of \<open>SecretReader\<close>). Whatever
  the SDK does, an error of this reader wraps one of the five sentinels, also when no client could be
  made; so the engine over it never falls back to its unclassified message: the reason and the message
  of the status are those of a sentinel.
\<close>

lemma keyvault_errors_classified:
  assumes "\<And>x. existing = Some x \<Longrightarrow> \<not> foreign E owner x"
    and "kvReader A ctx (vault_Name (spec_Vault (ss_Spec owner))) (vault_Secret (spec_Vault (ss_Spec owner)))
           (world s) = (Inl e, w')"
  shows "(\<exists>k \<in> set readerSentinels. errors_Is e k)
    \<and> (\<exists>k \<in> set readerSentinels. \<exists>status.
         fst (run_state (Sync E \<lparr>eng_Reader = Some (kvReader A)\<rparr> ctx owner existing) s) = (status, existing, None)
         \<and> (st_Reason status, st_Message status) = classifyReaderError (env_unicode E) (Sentinel k) owner
              (\<exists>x. existing = Some x \<and> managedBy E owner x))"
proof -
  obtain k where k: "k \<in> set readerSentinels"
    "classifyReaderError (env_unicode E) e owner (\<exists>x. existing = Some x \<and> managedBy E owner x) =
     classifyReaderError (env_unicode E) (Sentinel k) owner (\<exists>x. existing = Some x \<and> managedBy E owner x)"
    using kv.engine_classifies [OF assms(2)] by metis
  have "\<exists>status. fst (run_state (Sync E \<lparr>eng_Reader = Some (kvReader A)\<rparr> ctx owner existing) s) =
      (status, existing, None) \<and> (st_Reason status, st_Message status) =
      classifyReaderError (env_unicode E) (Sentinel k) owner (\<exists>x. existing = Some x \<and> managedBy E owner x)"
    using Sync_kv_error [where existing = existing, OF assms(1) assms(2)] k(2) by simp
  with kv.classified [OF assms(2)] k(1) show ?thesis by blast
qed

text \<open>
  (C25) Nothing of the upstream answer leaks into the log (constitution I), nor into the error of a failed read. Run the reader
  against two SDKs that differ in private matters only: for a read, in the secret's value and identifier and in the text
  and the body of an error beyond its status code, its classification and the kind of an authentication failure; for the
  making of a client, in the error. The two runs write the same log lines, be the client new or kept from an earlier read: none
  when no client can be made or the read succeeds, one when the read fails, and then the two runs return the very
  same error. When no client can be made, the returned error is the one of \<open>clientFor\<close>, which wraps the
  SDK's error.
\<close>

theorem keyvault_leaks_nothing:
  assumes "upstreamAlike A A'" and "run_state (clientFor A vaultName) s = (c, s1)"
  shows "kvs_logs (snd (kvReader A ctx vaultName secretName s)) = kvs_logs (snd (kvReader A' ctx vaultName secretName s))
    \<and> (case c of
         Inl e \<Rightarrow> fst (kvReader A ctx vaultName secretName s) = Inl e
           \<and> kvs_logs (snd (kvReader A ctx vaultName secretName s)) = kvs_logs s
       | Inr client \<Rightarrow> (case fst (az_GetSecret A client ctx secretName [] (kvs_service s1)) of
             Inl _ \<Rightarrow> fst (kvReader A ctx vaultName secretName s) = fst (kvReader A' ctx vaultName secretName s)
               \<and> length (kvs_logs (snd (kvReader A ctx vaultName secretName s))) = Suc (length (kvs_logs s))
           | Inr _ \<Rightarrow> kvs_logs (snd (kvReader A ctx vaultName secretName s)) = kvs_logs s))"
proof (cases c)
  case (Inl e)
  obtain e' s1' where s1': "run_state (clientFor A' vaultName) s = (Inl e', s1')" "kvs_logs s1' = kvs_logs s" "kvs_logs s1 = kvs_logs s"
    using clientFor_alike [OF assms] Inl by auto
  with Inl show ?thesis
    unfolding kvReader_client [OF assms(2)] kvReader_client [OF s1'(1)] by simp
next
  case (Inr client)
  then have same: "run_state (clientFor A' vaultName) s = (Inr client, s1)" "kvs_logs s1 = kvs_logs s"
    using clientFor_alike [OF assms] by auto
  obtain r v' where r: "az_GetSecret A client ctx secretName [] (kvs_service s1) = (r, v')" by fastforce
  obtain r' v'' where r': "az_GetSecret A' client ctx secretName [] (kvs_service s1) = (r', v'')" by fastforce
  have "publicRead (az_unicode A) r r'" "az_unicode A' = az_unicode A"
    using assms(1) r r' unfolding upstreamAlike_def by (metis fst_conv)+
  with Inr same r r' show ?thesis
    unfolding kvReader_client [OF assms(2)] kvReader_client [OF same(1)]
    by (cases r; cases r') (auto simp: readLog_def readAnswer_def)
qed

theorem keyvault_leaks_nothing_witness:
  "kvs_logs (snd (kvReader (answering (Inl (refused 500 ''{}''))) RootCtx ''kv-prod'' ''pw'' kvFresh)) =
     kvs_logs (snd (kvReader (answering (Inl (refused 500 ''token=abc''))) RootCtx ''kv-prod'' ''pw'' kvFresh))
   \<and> fst (kvReader (answering (Inl (refused 500 ''{}''))) RootCtx ''kv-prod'' ''pw'' kvFresh) =
     fst (kvReader (answering (Inl (refused 500 ''token=abc''))) RootCtx ''kv-prod'' ''pw'' kvFresh)"
proof -
  have "publicRead (env_unicode refEnv) (Inl (refused 500 ''{}'')) (Inl (refused 500 ''token=abc''))"
    by code_simp
  then have alike: "upstreamAlike (answering (Inl (refused 500 ''{}''))) (answering (Inl (refused 500 ''token=abc'')))"
    by (simp add: upstreamAlike_def fun_eq_iff)
  obtain c s1 where run: "run_state (clientFor (answering (Inl (refused 500 ''{}''))) ''kv-prod'') kvFresh = (c, s1)" by fastforce
  moreover from this have "\<not> isl c" by (auto simp: clientFor_def callAzure_def kvFresh_def Let_def)
  ultimately show ?thesis
    using keyvault_leaks_nothing [OF alike run, of RootCtx "''pw''"] by (cases c) simp_all
qed

text \<open>
  One client per vault. Over any sequence of reads from a fresh reader, the clients constructed are as
  many as the vaults in the map, each vault in the map was asked for, every read asks for the latest
  version (an empty version string), and there are no more reads than requests: a client once made is
  used for every later read of its vault.
\<close>

lemma keyvault_one_client_per_vault:
  "let s' = reads A ctx qs \<lparr>kvs_service = v, kvs_reader = \<lparr>kv_clients = fmempty\<rparr>, kvs_calls = [], kvs_logs = []\<rparr>
   in length (filter connected (kvs_calls s')) = maplen (kv_clients (kvs_reader s'))
      \<and> fset (fmdom (kv_clients (kvs_reader s'))) \<subseteq> set (map fst qs)
      \<and> list_all asksLatest (kvs_calls s')
      \<and> length (filter isRead (kvs_calls s')) \<le> length qs"
  unfolding Let_def using reads_keep [of "[]" _ qs A ctx] by (simp add: clientsOk_def maplen_def)

end
