(* ===== verification/Controller_Metrics.thy ===== *)
theory Controller_Metrics
  imports Secretsync_Controller
begin

text \<open>
  The scrape-time collector of \<open>internal/controller/metrics.go\<close> (the result counter of that file is in
  \<open>Secretsync_Controller\<close>, where it is used). \<open>Collect_metrics\<close> lists the declarations of all namespaces on a
  bounded context and reports the number of declarations in each state and the oldest successful
  sync; \<open>None\<close> is a scrape that reports nothing. A list call without a namespace option is the list
  call for the empty namespace.
\<close>

abbreviation collectTimeout :: duration where "collectTimeout \<equiv> 2 * Second"

text \<open>The descriptors; \<open>Describe\<close> announces those of the collector.\<close>

definition syncTotalDesc :: metricDesc where
  "syncTotalDesc = \<lparr>md_Name = ''kvsynk8s_sync_total'',
     md_Help = ''Terminal sync outcomes by result and reason. result is ''
       @ ''\"success\" or \"failure\"; reason is the SecretSync status.reason on ''
       @ ''a failure and \"None\" on success. Pending is not terminal and is ''
       @ ''not counted. A rising failure rate for one reason is the signal; ''
       @ ''which objects are affected is a kubectl question, not a metrics one.'',
     md_Labels = [''result'', ''reason'']\<rparr>"

definition secretSyncState :: metricDesc where
  "secretSyncState = \<lparr>md_Name = ''kvsynk8s_secretsync_state'',
     md_Help = ''Number of SecretSync objects currently in each state (Pending, InSync, Failing).'',
     md_Labels = [''state'']\<rparr>"

definition oldestSuccessfulSync :: metricDesc where
  "oldestSuccessfulSync = \<lparr>md_Name = ''kvsynk8s_secretsync_oldest_successful_sync_timestamp_seconds'',
     md_Help = ''Unix timestamp of the oldest status.lastSyncTime among SecretSyncs that are ''
       @ ''currently InSync. Not emitted at all when no object is InSync, because 0 is ''
       @ ''not a timestamp. Restricted to InSync on purpose: a ''
       @ ''Failing object keeps its last successful sync time frozen forever, so ''
       @ ''including it would pin this gauge permanently and only duplicate what ''
       @ ''kvsynk8s_secretsync_state already reports.'',
     md_Labels = []\<rparr>"

definition Describe :: "metricDesc list" where
  "Describe = [secretSyncState, oldestSuccessfulSync]"

text \<open>\<open>Time.Unix()\<close>: whole seconds since 1970; Go's zero time is the first of January of the year 1.\<close>

definition Unix :: "time \<Rightarrow> int" where
  "Unix t = t div Second - 62135596800"

record scrape =
  sr_States :: "(string, nat) fmap"
  sr_Oldest :: "int option"

definition scrapedState :: "SecretSync \<Rightarrow> SecretSyncState" where
  "scrapedState item =
     (if st_State (ss_Status item) = [] then SecretSyncStatePending else st_State (ss_Status item))"

text \<open>One iteration: the counts and \<open>oldest\<close>, where 0 stands for none yet.\<close>

definition scrapeItem :: "SecretSync \<Rightarrow> (string, nat) fmap \<times> int \<Rightarrow> (string, nat) fmap \<times> int" where
  "scrapeItem item acc =
     (let state = scrapedState item;
          counts = fmupd state (case fmlookup (fst acc) state of None \<Rightarrow> 1 | Some n \<Rightarrow> Suc n) (fst acc);
          oldest = snd acc;
          synced = Unix (st_LastSyncTime (ss_Status item)) in
      if state \<noteq> SecretSyncStateInSync \<or> st_LastSyncTime (ss_Status item) = 0 then (counts, oldest)
      else (counts, if oldest = 0 \<or> synced < oldest then synced else oldest))"

definition zeroCounts :: "(string, nat) fmap" where
  "zeroCounts =
     fmupd SecretSyncStateFailing 0 (fmupd SecretSyncStateInSync 0 (fmupd SecretSyncStatePending 0 fmempty))"

definition Collect_metrics :: "'w env \<Rightarrow> bool \<Rightarrow> ('w sys, scrape option) state" where
  "Collect_metrics E readerSet =
     (if \<not> readerSet then State_Monad.return None
      else do {
        let ctx = WithTimeout RootCtx collectTimeout;
        r \<leftarrow> perform (CListSecretSyncs ctx []) (env_ListSecretSyncs E ctx []);
        (case r of
           Inl err \<Rightarrow> State_Monad.return None
         | Inr items \<Rightarrow>
             (case fold scrapeItem items (zeroCounts, 0) of
                (counts, oldest) \<Rightarrow>
                  State_Monad.return (Some \<lparr>sr_States = counts,
                    sr_Oldest = (if oldest \<noteq> 0 then Some oldest else None)\<rparr>)))
      })"

section \<open>Specification vocabulary\<close>

definition inState :: "string \<Rightarrow> SecretSync list \<Rightarrow> nat" where
  "inState k items = length (filter (\<lambda>x. scrapedState x = k) items)"

text \<open>The Unix times of the successful syncs.\<close>

definition syncTimes :: "SecretSync list \<Rightarrow> int list" where
  "syncTimes items =
     map (\<lambda>x. Unix (st_LastSyncTime (ss_Status x)))
       (filter (\<lambda>x. scrapedState x = SecretSyncStateInSync \<and> st_LastSyncTime (ss_Status x) \<noteq> 0) items)"

text \<open>A declaration that was synced a hundred seconds into 1970.\<close>

definition scrapedSync :: SecretSync where
  "scrapedSync = demoSync\<lparr>ss_Status := zeroStatus\<lparr>st_State := SecretSyncStateInSync,
     st_LastSyncTime := 62135596900 * Second\<rparr>\<rparr>"

section \<open>Lemmas\<close>

lemma fold_counts:
  "fmlookup (fst (fold scrapeItem items acc)) k =
     (if inState k items = 0 then fmlookup (fst acc) k
      else Some (inState k items + (case fmlookup (fst acc) k of None \<Rightarrow> 0 | Some n \<Rightarrow> n)))"
  by (induction items arbitrary: acc) (auto simp: inState_def scrapeItem_def Let_def split: option.split)

lemma fold_older:
  "snd (fold scrapeItem items acc) = fold (\<lambda>t old. if old = 0 \<or> t < old then t else old) (syncTimes items) (snd acc)"
  by (induction items arbitrary: acc) (auto simp: syncTimes_def scrapeItem_def Let_def)

lemma older_min:
  "\<forall>t \<in> set ts. 0 < (t :: int) \<Longrightarrow> 0 < old \<Longrightarrow>
   fold (\<lambda>t old. if old = 0 \<or> t < old then t else old) ts old = fold min ts old"
  by (induction ts arbitrary: old) (auto simp: min_def)

lemma oldest_min:
  assumes "\<forall>t \<in> set ts. 0 < (t :: int)"
  shows "fold (\<lambda>t old. if old = 0 \<or> t < old then t else old) ts 0 = (if ts = [] then 0 else Min (set ts))"
proof (cases ts)
  case (Cons a list)
  with assms older_min [of list a] Min.set_eq_fold [of a list] show ?thesis by simp
qed simp

lemma scrape_correct:
  assumes "fold scrapeItem items (zeroCounts, 0) = (counts, oldest)" and pos: "\<forall>t \<in> set (syncTimes items). 0 < t"
  shows "fmlookup counts k = Some n \<Longrightarrow> n = inState k items"
    and "{SecretSyncStatePending, SecretSyncStateInSync, SecretSyncStateFailing} \<union> scrapedState ` set items
        = fset (fmdom counts)"
    and "(if oldest \<noteq> 0 then Some oldest else None) =
        (if syncTimes items = [] then None else Some (Min (set (syncTimes items))))"
proof -
  have look: "fmlookup counts k = (if inState k items = 0 then fmlookup zeroCounts k else Some (inState k items))" for k
    using fold_counts [of items "(zeroCounts, 0)" k] assms(1) by (auto simp: zeroCounts_def)
  then show "fmlookup counts k = Some n \<Longrightarrow> n = inState k items"
    by (auto simp: zeroCounts_def split: if_splits)
  have "inState k items = 0 \<longleftrightarrow> k \<notin> scrapedState ` set items" for k
    by (auto simp: inState_def filter_empty_conv)
  with look show "{SecretSyncStatePending, SecretSyncStateInSync, SecretSyncStateFailing} \<union> scrapedState ` set items
      = fset (fmdom counts)"
    by (auto simp: fmlookup_dom_iff zeroCounts_def split: if_splits)
  have old: "oldest = (if syncTimes items = [] then 0 else Min (set (syncTimes items)))"
    using fold_older [of items "(zeroCounts, 0)"] assms(1) oldest_min [OF pos] by simp
  moreover have "Min (set (syncTimes items)) \<noteq> 0" if "syncTimes items \<noteq> []"
    using that pos Min_in [of "set (syncTimes items)"] by fastforce
  ultimately show "(if oldest \<noteq> 0 then Some oldest else None) =
      (if syncTimes items = [] then None else Some (Min (set (syncTimes items))))" by auto
qed

lemma Collect_run:
  "run_state (Collect_metrics E True) s =
     (case env_ListSecretSyncs E (WithTimeout RootCtx collectTimeout) [] (world s) of
        (r, w') \<Rightarrow>
          (case r of
             Inl _ \<Rightarrow> None
           | Inr items \<Rightarrow>
               (case fold scrapeItem items (zeroCounts, 0) of
                  (counts, oldest) \<Rightarrow>
                    Some \<lparr>sr_States = counts, sr_Oldest = (if oldest \<noteq> 0 then Some oldest else None)\<rparr>),
           s\<lparr>world := w', calls := calls s @ [CListSecretSyncs (WithTimeout RootCtx collectTimeout) [] r]\<rparr>))"
  by (simp add: Collect_metrics_def perform_def Let_def split: prod.split sum.split)

section \<open>Properties\<close>

text \<open>
  (C38) A scrape tells the truth or nothing. Without a reader, or when the listing fails, it reports
  nothing. Otherwise, from one listing of all namespaces bounded by two seconds, it reports for every
  state the number of declarations in it (an empty state counts as Pending), for exactly the three
  known states and the states that occur; and the oldest successful sync, absent exactly when no
  declaration is InSync with a sync time. Sync times are after 1970.
\<close>

theorem collect_truthful:
  assumes "\<And>items w'. env_ListSecretSyncs E (WithTimeout RootCtx collectTimeout) [] (world s) = (Inr items, w') \<Longrightarrow>
      \<forall>t \<in> set (syncTimes items). 0 < t"
    and "run_state (Collect_metrics E readerSet) s = (out, s')"
  shows "(\<not> readerSet \<longrightarrow> out = None \<and> s' = s)
    \<and> (readerSet \<longrightarrow> (\<exists>r. calls s' = calls s @ [CListSecretSyncs (WithTimeout RootCtx collectTimeout) [] r]
         \<and> (\<forall>e. r = Inl e \<longrightarrow> out = None)
         \<and> (\<forall>items. r = Inr items \<longrightarrow> (\<exists>sc. out = Some sc
              \<and> (\<forall>k n. fmlookup (sr_States sc) k = Some n \<longrightarrow> n = inState k items)
              \<and> {SecretSyncStatePending, SecretSyncStateInSync, SecretSyncStateFailing} \<union> scrapedState ` set items
                  = fset (fmdom (sr_States sc))
              \<and> sr_Oldest sc = (if syncTimes items = [] then None else Some (Min (set (syncTimes items))))))))"
proof (cases readerSet)
  case True
  define ctx where "ctx = WithTimeout RootCtx collectTimeout"
  obtain r w' where r: "env_ListSecretSyncs E ctx [] (world s) = (r, w')" by fastforce
  have run: "calls s' = calls s @ [CListSecretSyncs ctx [] r]"
    "out = (case r of Inl _ \<Rightarrow> None | Inr items \<Rightarrow>
       (case fold scrapeItem items (zeroCounts, 0) of (counts, oldest) \<Rightarrow>
          Some \<lparr>sr_States = counts, sr_Oldest = (if oldest \<noteq> 0 then Some oldest else None)\<rparr>))"
    using assms(2) True Collect_run [of E s, folded ctx_def] r by auto
  show ?thesis
  proof (cases r)
    case (Inr items)
    obtain counts oldest where f: "fold scrapeItem items (zeroCounts, 0) = (counts, oldest)" by fastforce
    have pos: "\<forall>t \<in> set (syncTimes items). 0 < t" using assms(1) [folded ctx_def] r Inr by blast
    show ?thesis
      using True run Inr f scrape_correct [OF f pos]
      by (intro conjI impI exI [of _ r]) (simp_all add: ctx_def)
  qed (use True run in \<open>simp add: ctx_def\<close>)
qed (use assms(2) in \<open>simp add: Collect_metrics_def\<close>)

theorem collect_truthful_witness:
  "\<exists>sc. fst (run_state (Collect_metrics refEnv True) (demoSys [] [scrapedSync, demoSync])) = Some sc
    \<and> fmlookup (sr_States sc) SecretSyncStateInSync = Some 1 \<and> sr_Oldest sc = Some 100"
proof -
  obtain out s' where run: "run_state (Collect_metrics refEnv True) (demoSys [] [scrapedSync, demoSync]) = (out, s')" by fastforce
  have list: "env_ListSecretSyncs refEnv (WithTimeout RootCtx collectTimeout) [] (world (demoSys [] [scrapedSync, demoSync])) =
      (Inr [scrapedSync, demoSync], world (demoSys [] [scrapedSync, demoSync]))" by (simp add: refListSecretSyncs_def demoSys_def)
  have no: "syncTimes [scrapedSync, demoSync] = [100]" "inState SecretSyncStateInSync [scrapedSync, demoSync] = 1"
    by (simp_all add: syncTimes_def inState_def scrapedState_def scrapedSync_def Unix_def demo_defs)
  from run list have calls: "calls s' = [CListSecretSyncs (WithTimeout RootCtx collectTimeout) [] (Inr [scrapedSync, demoSync])]"
    by (auto simp: Collect_run demoSys_def)
  obtain sc where sc: "out = Some sc"
      "\<And>k n. fmlookup (sr_States sc) k = Some n \<Longrightarrow> n = inState k [scrapedSync, demoSync]"
      "{SecretSyncStatePending, SecretSyncStateInSync, SecretSyncStateFailing} \<union> scrapedState ` set [scrapedSync, demoSync]
        = fset (fmdom (sr_States sc))" "sr_Oldest sc = Some 100"
    using collect_truthful [OF _ run] list no calls by (auto simp: demoSys_def)
  then have "SecretSyncStateInSync \<in> fset (fmdom (sr_States sc))" by blast
  then obtain n where "fmlookup (sr_States sc) SecretSyncStateInSync = Some n" by (auto simp: fmlookup_dom_iff)
  with sc(1,2,4) no(2) run show ?thesis by fastforce
qed

end
