(* ===== verification/Go_Time.thy ===== *)
theory Go_Time
  imports Go_Strings
begin

text \<open>
  \<open>time.ParseDuration\<close> of Go's standard library: a signed sequence of decimal numbers, each with a unit, in
  nanoseconds. Intermediate results are \<open>uint64\<close>, kept as \<open>int\<close> with the wrap-around written out where
  it can happen. A fraction goes through \<open>float64\<close>, here rounding to 53 significant bits, ties to even.
\<close>

definition decimalDigit :: "char \<Rightarrow> bool" where
  "decimalDigit c \<longleftrightarrow> 48 \<le> byte c \<and> byte c \<le> 57"

text \<open>\<open>leadingInt\<close> on the leading digits; \<open>None\<close> is its overflow error.\<close>

fun leadingInt :: "string \<Rightarrow> int \<Rightarrow> int option" where
  "leadingInt [] x = Some x"
| "leadingInt (c # cs) x =
     (if x > 2 ^ 63 div 10 then None
      else (let x = x * 10 + (int (byte c) - 48) in if x > 2 ^ 63 then None else leadingInt cs x))"

text \<open>\<open>leadingFraction\<close> on the leading digits: the digits read before an overflow and the power of ten they
  are over. Every power of ten that occurs here is a \<open>float64\<close>.\<close>

fun leadingFraction :: "string \<Rightarrow> int \<Rightarrow> int \<Rightarrow> int \<times> int" where
  "leadingFraction [] x scale = (x, scale)"
| "leadingFraction (c # cs) x scale =
     (if x > (2 ^ 63 - 1) div 10 then (x, scale)
      else (let y = x * 10 + (int (byte c) - 48) in
            if y > 2 ^ 63 then (x, scale) else leadingFraction cs y (scale * 10)))"

section \<open>Floating point\<close>

fun bitLength :: "int \<Rightarrow> nat" where
  "bitLength n = (if n \<le> 0 then 0 else Suc (bitLength (n div 2)))"

declare bitLength.simps [simp del]

definition roundEven :: "int \<Rightarrow> int \<Rightarrow> int" where
  "roundEven p q =
     (let n = p div q; r = p mod q in if 2 * r < q \<or> (2 * r = q \<and> even n) then n else n + 1)"

text \<open>The \<open>float64\<close> nearest to the fraction \<open>p / q\<close>, as a fraction. With \<open>2 ^ (e - 1) \<le> p / q < 2 ^ e\<close> the
  result is an integer of 53 bits times \<open>2 ^ (e - 53)\<close>; the exponents that occur here are far from
  the limits of the format.\<close>

definition float64 :: "int \<times> int \<Rightarrow> int \<times> int" where
  "float64 x =
     (case x of (p, q) \<Rightarrow>
        if p = 0 then (0, 1)
        else (let k = bitLength p; l = bitLength q;
                  e = int k - int l + (if p * 2 ^ l < q * 2 ^ k then 0 else 1) in
              if e \<le> 53 then (roundEven (p * 2 ^ nat (53 - e)) q, 2 ^ nat (53 - e))
              else (roundEven p (q * 2 ^ nat (e - 53)) * 2 ^ nat (e - 53), 1)))"

text \<open>\<open>uint64(float64(f) * (float64(unit) / scale))\<close>.\<close>

definition fractionOf :: "int \<Rightarrow> int \<Rightarrow> int \<Rightarrow> int" where
  "fractionOf f unit scale =
     (case float64 (f, 1) of (a, b) \<Rightarrow>
        case float64 (unit, scale) of (c, d) \<Rightarrow>
          case float64 (a * c, b * d) of (p, q) \<Rightarrow> p div q)"

section \<open>Parsing\<close>

datatype durationError = InvalidDuration string | MissingUnit string | UnknownUnit string string

definition unitMap :: "string \<Rightarrow> int option" where
  "unitMap u =
     (if u = ''ns'' then Some 1
      else if u = ''us'' \<or> u = [CHR 0xC2, CHR 0xB5, CHR ''s''] \<or> u = [CHR 0xCE, CHR 0xBC, CHR ''s''] then Some 1000
      else if u = ''ms'' then Some 1000000
      else if u = ''s'' then Some 1000000000
      else if u = ''m'' then Some 60000000000
      else if u = ''h'' then Some 3600000000000
      else None)"

definition unitChar :: "char \<Rightarrow> bool" where
  "unitChar c \<longleftrightarrow> c \<noteq> CHR ''.'' \<and> \<not> decimalDigit c"

text \<open>The fraction after the integer part: its digits and scale, whether there were any, and the rest.\<close>

definition fractionPart :: "string \<Rightarrow> int \<times> int \<times> bool \<times> string" where
  "fractionPart s =
     (if s \<noteq> [] \<and> hd s = CHR ''.''
      then (case leadingFraction (takeWhile decimalDigit (drop 1 s)) 0 1 of (f, scale) \<Rightarrow>
              (f, scale, takeWhile decimalDigit (drop 1 s) \<noteq> [], dropWhile decimalDigit (drop 1 s)))
      else (0, 1, False, s))"

text \<open>The value \<open>v\<close> with the fraction \<open>f / scale\<close> of a unit; \<open>None\<close> when it does not fit.\<close>

definition scaled :: "int \<Rightarrow> int \<Rightarrow> int \<Rightarrow> int \<Rightarrow> int option" where
  "scaled v f scale unit =
     (if v > 2 ^ 63 div unit then None
      else (let v = v * unit;
                v' = (if f > 0 then v + fractionOf f unit scale else v) in
            if f > 0 \<and> v' > 2 ^ 63 then None else Some v'))"

function durationTerms :: "string \<Rightarrow> string \<Rightarrow> int \<Rightarrow> durationError + int" where
  "durationTerms orig s d =
     (if s = [] then Inr d
      else if unitChar (hd s) then Inl (InvalidDuration orig)
      else (case leadingInt (takeWhile decimalDigit s) 0 of
          None \<Rightarrow> Inl (InvalidDuration orig)
        | Some v \<Rightarrow>
            (case fractionPart (dropWhile decimalDigit s) of (f, scale, post, rest) \<Rightarrow>
               if takeWhile decimalDigit s = [] \<and> \<not> post then Inl (InvalidDuration orig)
               else if takeWhile unitChar rest = [] then Inl (MissingUnit orig)
               else (case unitMap (takeWhile unitChar rest) of
                   None \<Rightarrow> Inl (UnknownUnit (takeWhile unitChar rest) orig)
                 | Some unit \<Rightarrow>
                     (case scaled v f scale unit of
                        None \<Rightarrow> Inl (InvalidDuration orig)
                      | Some v \<Rightarrow>
                          (let d = (d + v) mod 2 ^ 64 in
                           if d > 2 ^ 63 then Inl (InvalidDuration orig)
                           else durationTerms orig (dropWhile unitChar rest) d))))))"
  by pat_completeness auto
termination
proof (relation "measure (\<lambda>(orig, s, d). length s)")
  fix orig s :: string and d v f scale unit v' d' :: int and post rest and x2 y z
  assume part: "(f, x2) = fractionPart (dropWhile decimalDigit s)" "(scale, y) = x2" "(post, rest) = y"
    and unit: "takeWhile unitChar rest \<noteq> []"
  from part have "length rest \<le> length (dropWhile decimalDigit s)"
    using length_dropWhile_le [of decimalDigit "drop 1 (dropWhile decimalDigit s)"]
    by (auto simp: fractionPart_def split: if_splits prod.splits)
  moreover have "length (dropWhile unitChar rest) < length rest"
    using unit by (cases rest) (auto simp: less_Suc_eq_le length_dropWhile_le split: if_splits)
  ultimately show "((orig, dropWhile unitChar rest, d'), orig, s, d) \<in> measure (\<lambda>(orig, s, d). length s)"
    using length_dropWhile_le [of decimalDigit s] by simp
qed simp

declare durationTerms.simps [simp del]

definition ParseDuration :: "string \<Rightarrow> durationError + int" where
  "ParseDuration orig =
     (let neg = (orig \<noteq> [] \<and> hd orig = CHR ''-'');
          s = (if orig \<noteq> [] \<and> (hd orig = CHR ''-'' \<or> hd orig = CHR ''+'') then drop 1 orig else orig) in
      if s = ''0'' then Inr 0
      else if s = [] then Inl (InvalidDuration orig)
      else (case durationTerms orig s 0 of
          Inl e \<Rightarrow> Inl e
        | Inr d \<Rightarrow>
            if neg then Inr (- d)
            else if d > 2 ^ 63 - 1 then Inl (InvalidDuration orig)
            else Inr d))"

section \<open>Lemmas\<close>

text \<open>A duration that parses is an \<open>int64\<close>.\<close>

lemma durationTerms_bound:
  "durationTerms orig s d = Inr d' \<Longrightarrow> 0 \<le> d \<and> d \<le> 2 ^ 63 \<Longrightarrow> 0 \<le> d' \<and> d' \<le> 2 ^ 63"
proof (induction orig s d rule: durationTerms.induct)
  case (1 orig s d)
  have step: "0 \<le> d' \<and> d' \<le> 2 ^ 63" if "s \<noteq> []" "\<not> unitChar (hd s)" "leadingInt (takeWhile decimalDigit s) 0 = Some v"
    "fractionPart (dropWhile decimalDigit s) = (f, scale, post, rest)"
    "\<not> (takeWhile decimalDigit s = [] \<and> \<not> post)" "takeWhile unitChar rest \<noteq> []"
    "unitMap (takeWhile unitChar rest) = Some unit" "scaled v f scale unit = Some v'"
    "\<not> (d + v') mod 2 ^ 64 > 2 ^ 63" "durationTerms orig (dropWhile unitChar rest) ((d + v') mod 2 ^ 64) = Inr d'"
    for v f scale post rest unit v'
    using 1(1) [OF that(1-3) that(4) [symmetric] refl refl that(5-8) refl that(9,10)] that(9) by simp
  from 1(2,3) show ?case
    by (subst (asm) durationTerms.simps)
      (auto simp: Let_def split: if_splits option.splits prod.splits intro: step [THEN conjunct1, simplified] step [THEN conjunct2, simplified])
qed

lemma ParseDuration_int64:
  "ParseDuration s = Inr d \<Longrightarrow> - (2 ^ 63) \<le> d \<and> d < 2 ^ 63"
  using durationTerms_bound [of s _ 0]
  by (fastforce simp: ParseDuration_def Let_def split: if_splits sum.splits)

end
