(* ===== verification/Go_Flag.thy ===== *)
theory Go_Flag
  imports Go_Time
begin

text \<open>
  The parser of Go's \<open>flag\<close> package (\<open>FlagSet.parseOne\<close> in its loop). A flag set is the list of its
  flags with their kinds and defaults. \<open>ExtraFlag\<close> is a flag that a library binds: whether it is boolean
  and which texts its \<open>Set\<close> accepts.
\<close>

datatype flagval = FlagStr string | FlagBool bool | FlagDur int | FlagText string

datatype flagkind = StringFlag | BoolFlag | DurationFlag | ExtraFlag bool "string \<Rightarrow> bool"

type_synonym flagset = "(string \<times> flagkind \<times> flagval) list"

datatype flagError =
    HelpRequested
  | BadSyntax string
  | NotDefined string
  | NeedsArgument string
  | BadValue string string

text \<open>The values set so far, the latest first, and \<open>actual\<close>, the names that were given.\<close>

record parsedFlags =
  pf_Values :: "(string \<times> flagval) list"
  pf_Actual :: "string list"

definition ParseBool :: "string \<Rightarrow> bool option" where
  "ParseBool s =
     (if s \<in> {''1'', ''t'', ''T'', ''true'', ''TRUE'', ''True''} then Some True
      else if s \<in> {''0'', ''f'', ''F'', ''false'', ''FALSE'', ''False''} then Some False
      else None)"

fun setFlag :: "flagkind \<Rightarrow> string \<Rightarrow> flagval option" where
  "setFlag StringFlag v = Some (FlagStr v)"
| "setFlag BoolFlag v = map_option FlagBool (ParseBool v)"
| "setFlag DurationFlag v = (case ParseDuration v of Inl _ \<Rightarrow> None | Inr d \<Rightarrow> Some (FlagDur d))"
| "setFlag (ExtraFlag isBool accept) v = (if accept v then Some (FlagText v) else None)"

fun isBoolFlag :: "flagkind \<Rightarrow> bool" where
  "isBoolFlag BoolFlag = True"
| "isBoolFlag (ExtraFlag isBool accept) = isBool"
| "isBoolFlag _ = False"

text \<open>A name with the value after the first equals sign that is not its first character.\<close>

definition cutValue :: "string \<Rightarrow> string \<times> string option" where
  "cutValue name =
     (let key = takeWhile (\<lambda>c. c \<noteq> CHR ''='') (drop 1 name);
          rest = dropWhile (\<lambda>c. c \<noteq> CHR ''='') (drop 1 name) in
      (take 1 name @ key, if rest = [] then None else Some (drop 1 rest)))"

definition noteFlag :: "string \<Rightarrow> flagval \<Rightarrow> parsedFlags \<Rightarrow> parsedFlags" where
  "noteFlag key v p = p\<lparr>pf_Values := (key, v) # pf_Values p, pf_Actual := key # pf_Actual p\<rparr>"

text \<open>\<open>parseOne\<close>: the flag at the head of the arguments with its new value, and the arguments after it;
  \<open>None\<close> when the flags end here.\<close>

definition valueOf ::
    "flagkind \<Rightarrow> string \<Rightarrow> string \<Rightarrow> string list \<Rightarrow> flagError + (string \<times> flagval \<times> string list) option" where
  "valueOf kind key v rest =
     (case setFlag kind v of None \<Rightarrow> Inl (BadValue v key) | Some x \<Rightarrow> Inr (Some (key, x, rest)))"

definition parseNamed ::
    "flagset \<Rightarrow> string \<Rightarrow> string list \<Rightarrow> flagError + (string \<times> flagval \<times> string list) option" where
  "parseNamed F name rest =
     (case cutValue name of (key, val) \<Rightarrow>
        (case map_of F key of
           None \<Rightarrow> Inl (if key = ''help'' \<or> key = ''h'' then HelpRequested else NotDefined key)
         | Some (kind, _) \<Rightarrow>
             (case val of
                Some v \<Rightarrow> valueOf kind key v rest
              | None \<Rightarrow>
                  if isBoolFlag kind then valueOf kind key ''true'' rest
                  else (case rest of
                      [] \<Rightarrow> Inl (NeedsArgument key)
                    | v # rest' \<Rightarrow> valueOf kind key v rest'))))"

fun parseOne :: "flagset \<Rightarrow> string list \<Rightarrow> flagError + (string \<times> flagval \<times> string list) option" where
  "parseOne F [] = Inr None"
| "parseOne F (s # rest) =
     (if length s < 2 \<or> hd s \<noteq> CHR ''-'' \<or> s = ''--'' then Inr None
      else (let name = (if hd (drop 1 s) = CHR ''-'' then drop 2 s else drop 1 s) in
        if name = [] \<or> hd name = CHR ''-'' \<or> hd name = CHR ''='' then Inl (BadSyntax s)
        else parseNamed F name rest))"

function parseArgs :: "flagset \<Rightarrow> string list \<Rightarrow> parsedFlags \<Rightarrow> flagError + parsedFlags" where
  "parseArgs F args p =
     (case parseOne F args of
        Inl e \<Rightarrow> Inl e
      | Inr None \<Rightarrow> Inr p
      | Inr (Some (key, x, rest)) \<Rightarrow> parseArgs F rest (noteFlag key x p))"
  by pat_completeness auto
termination
proof (relation "measure (\<lambda>(F, args, p). length args)")
  fix F args and p :: parsedFlags and r opt step key rest' x rest
  assume "parseOne F args = Inr opt" "opt = Some step" "(key, rest') = step" "(x, rest) = rest'"
  then have "length rest < length args"
    by (cases args)
      (auto simp: parseNamed_def valueOf_def Let_def split: if_splits option.splits prod.splits list.splits)
  then show "((F, rest, noteFlag key x p), F, args, p) \<in> measure (\<lambda>(F, args, p). length args)" by simp
qed simp

declare parseArgs.simps [simp del]

text \<open>The value of a flag after parsing: what was set last, or its default.\<close>

definition flagValue :: "flagset \<Rightarrow> parsedFlags \<Rightarrow> string \<Rightarrow> flagval" where
  "flagValue F p name =
     (case map_of (pf_Values p) name of
        Some v \<Rightarrow> v
      | None \<Rightarrow> (case map_of F name of Some (_, v) \<Rightarrow> v | None \<Rightarrow> FlagStr []))"

fun asStr :: "flagval \<Rightarrow> string" where
  "asStr (FlagStr s) = s"
| "asStr _ = []"

fun asBool :: "flagval \<Rightarrow> bool" where
  "asBool (FlagBool b) = b"
| "asBool _ = False"

fun asDur :: "flagval \<Rightarrow> int" where
  "asDur (FlagDur d) = d"
| "asDur _ = 0"

section \<open>Lemmas\<close>

text \<open>Parsing only adds to what was parsed before.\<close>

definition after :: "parsedFlags \<Rightarrow> parsedFlags \<Rightarrow> parsedFlags" where
  "after q p = \<lparr>pf_Values = pf_Values q @ pf_Values p, pf_Actual = pf_Actual q @ pf_Actual p\<rparr>"

abbreviation noFlags :: parsedFlags where
  "noFlags \<equiv> \<lparr>pf_Values = [], pf_Actual = []\<rparr>"

lemma after_note: "after q (noteFlag key x p) = after (after q (noteFlag key x noFlags)) p"
  by (simp add: after_def noteFlag_def)

lemma after_noFlags [simp]: "after q noFlags = q" "after noFlags p = p"
  by (simp_all add: after_def)

lemma parseArgs_after:
  "parseArgs F args p = (case parseArgs F args noFlags of Inl e \<Rightarrow> Inl e | Inr q \<Rightarrow> Inr (after q p))"
proof (induction F args "q :: parsedFlags" arbitrary: p rule: parseArgs.induct)
  case (1 F args q)
  show ?case
  proof (cases "parseOne F args")
    case (Inr opt)
    show ?thesis
    proof (cases opt)
      case (Some step)
      obtain key x rest where step: "step = (key, x, rest)" by (cases step)
      note IH = 1 [OF Inr Some step [symmetric] refl]
      show ?thesis
        using Inr Some step IH [of "noteFlag key x p"] IH [of "noteFlag key x noFlags"]
        by (simp add: parseArgs.simps [of F args] after_note [of _ key x p] split: sum.split)
    qed (simp add: Inr parseArgs.simps [of F args])
  qed (simp add: parseArgs.simps [of F args])
qed

text \<open>A string flag given as \<open>--name=value\<close>: the value is taken as it is, and the rest of the arguments is
  parsed the same way for every value.\<close>

lemma parseArgs_string:
  assumes "key \<noteq> []" and "hd key \<noteq> CHR ''-''" and "CHR ''='' \<notin> set key" and "map_of F key = Some (StringFlag, d)"
  shows "parseArgs F ((''--'' @ key @ ''='' @ v) # rest) p = parseArgs F rest (noteFlag key (FlagStr v) p)"
proof -
  obtain k ks where key: "key = k # ks" using assms(1) by (cases key) auto
  have "takeWhile (\<lambda>c. c \<noteq> CHR ''='') (ks @ CHR ''='' # v) = ks"
    "dropWhile (\<lambda>c. c \<noteq> CHR ''='') (ks @ CHR ''='' # v) = CHR ''='' # v"
    using assms(3) key by (auto simp: takeWhile_tail dropWhile_append3)
  then have "cutValue (key @ CHR ''='' # v) = (key, Some v)"
    using key by (simp add: cutValue_def Let_def)
  then show ?thesis
    using assms key by (subst parseArgs.simps) (auto simp add: parseNamed_def valueOf_def Let_def)
qed

end
