(* ===== verification/Operator_Main.thy ===== *)
theory Operator_Main
  imports Azure_KeyVault Controller_Metrics Events_Listener Go_Flag
begin

text \<open>
  \<open>cmd/main.go\<close>, with the set-up of the controller that it calls (\<open>SetupWithManager\<close>,
  \<open>ManagedSecretCacheOptions\<close> and the registration of the metrics): from the command line and the
  environment to the start of the manager, or to an exit code.

  Libraries are the record \<open>'v bootEnv\<close>: each constructor or call of controller-runtime and of the Azure
  SDK is a function of the service behind it that answers an error or nil; flags that libraries bind are
  \<open>be_extraFlags\<close>. Nothing is assumed of them. \<open>boot\<close> is the process: that service with the reader's
  state, the library calls made with their answers, the two output streams, and the registration of the
  metrics. The starting environment of the process is the function \<open>getenv\<close>, empty for a variable that
  is not set; no code of \<open>main\<close> reads a variable after it wrote one.

  The result of a run is the exit code. What the process had wired when the manager was started is in
  the call \<open>BStart\<close>.
\<close>

section \<open>Constants\<close>

abbreviation eventsChannelBufferSize :: nat where "eventsChannelBufferSize \<equiv> 256"

abbreviation mainReconcileInterval :: duration where "mainReconcileInterval \<equiv> 4 * Hour"

abbreviation nonPositiveReconcileIntervalMessage :: string where
  "nonPositiveReconcileIntervalMessage \<equiv>
     ''Configured reconcile interval is not positive and is being ignored. ''
     @ ''The periodic reconcile cannot be turned off: it is the safety net for missed events, ''
     @ ''vault-side deletions and in-cluster drift. Set a positive duration, e.g. 4h.''"

abbreviation queueSASWarning :: string where
  "queueSASWarning \<equiv>
     ''Configured queue URL has a query string; it is redacted from logs. ''
     @ ''If it is a SAS token it is not used: this operator always authenticates ''
     @ ''with DefaultAzureCredential. Configure the queue URL without one.''"

abbreviation unparseableQueueURLMessage :: string where
  "unparseableQueueURLMessage \<equiv>
     ''Configured queue URL cannot be parsed as a URL ''
     @ ''(the value is not shown: it may contain a SAS token). Fix --queue-url/QUEUE_URL. ''
     @ ''The operator keeps running: queue delivery will not work until this is fixed, ''
     @ ''but every SecretSync still converges through periodic reconciliation.''"

abbreviation queueURLLogKey :: string where "queueURLLogKey \<equiv> ''queueURL''"

section \<open>Configuration of the manager and the controller\<close>

record certFiles =
  cf_Dir :: string
  cf_Name :: string
  cf_Key :: string

text \<open>A TLS option is a callback that a server runs on its configuration when it starts; there is one,
  \<open>disableHTTP2\<close> below, for which \<open>DisableHTTP2\<close> stands in the options.\<close>

record tlsConfig =
  tc_NextProtos :: "string list"

datatype tlsOption = DisableHTTP2

text \<open>\<open>ctrl.Options\<close>: \<open>mo_Metrics*\<close> and \<open>mo_Webhook*\<close> are the options of the two servers, each with its TLS options;
  \<open>mo_SecretLabels\<close> is the selector of the Secrets in the cache. The scheme, the package variable that \<open>init\<close> fills, is
  the subject of \<open>Scheme_Registration\<close>.\<close>

record managerOptions =
  mo_MetricsBindAddress :: string
  mo_MetricsSecureServing :: bool
  mo_MetricsAuthFilter :: bool
  mo_MetricsTLSOpts :: "tlsOption list"
  mo_MetricsCert :: "certFiles option"
  mo_WebhookTLSOpts :: "tlsOption list"
  mo_WebhookCert :: "certFiles option"
  mo_HealthProbeBindAddress :: string
  mo_SecretLabels :: "(string \<times> string) list"
  mo_LeaderElection :: bool
  mo_LeaderElectionID :: string

definition ManagedSecretCacheOptions :: "(string \<times> string) list" where
  "ManagedSecretCacheOptions = [(LabelManagedBy, LabelManagedByValue)]"

text \<open>What the controller builder is given: the watched kinds, the options, and whether the raw source over
  the channel of the listener is watched.\<close>

record controllerSetup =
  cs_For :: string
  cs_Owns :: string
  cs_MaxConcurrentReconciles :: nat
  cs_Name :: string
  cs_RawSource :: bool

record ('c, 'v) wiring =
  wi_Options :: managerOptions
  wi_Reconciler :: "('c, 'v) kvSys SecretSyncReconciler"
  wi_Controller :: controllerSetup
  wi_Listener :: "Listener option"
  wi_EventsBuffer :: "nat option"

datatype ('c, 'v) bcall =
    BSetenv string string "goerr option"
  | BGetConfig bool
  | BNewManager managerOptions "goerr option"
  | BCredential "goerr option"
  | BNewQueueClient "goerr option"
  | BAdd Listener "goerr option"
  | BComplete controllerSetup "goerr option"
  | BAddHealthzCheck string "goerr option"
  | BAddReadyzCheck string "goerr option"
  | BStart "('c, 'v) wiring" "goerr option"

record 'v bootEnv =
  be_lit :: "string \<Rightarrow> string option"
  be_extraFlags :: flagset
  be_Setenv :: "string \<Rightarrow> string \<Rightarrow> 'v \<Rightarrow> goerr option \<times> 'v"
  be_GetConfig :: "'v \<Rightarrow> bool \<times> 'v"
  be_NewManager :: "managerOptions \<Rightarrow> 'v \<Rightarrow> goerr option \<times> 'v"
  be_Credential :: "'v \<Rightarrow> goerr option \<times> 'v"
  be_NewQueueClient :: "string \<Rightarrow> 'v \<Rightarrow> goerr option \<times> 'v"
  be_Add :: "Listener \<Rightarrow> 'v \<Rightarrow> goerr option \<times> 'v"
  be_Complete :: "controllerSetup \<Rightarrow> 'v \<Rightarrow> goerr option \<times> 'v"
  be_AddHealthzCheck :: "string \<Rightarrow> 'v \<Rightarrow> goerr option \<times> 'v"
  be_AddReadyzCheck :: "string \<Rightarrow> 'v \<Rightarrow> goerr option \<times> 'v"
  be_Start :: "'v \<Rightarrow> goerr option \<times> 'v"

text \<open>What is written to stderr before the logger exists; \<open>Usage\<close> stands for the rendering of all flags with
  their defaults by \<open>PrintDefaults\<close>.\<close>

datatype stderrLine =
    InvalidEnv string string duration durationError
  | FlagFailure flagError
  | Usage flagset

record ('c, 'v) boot =
  bo_world :: "('c, 'v) kvSys"
  bo_calls :: "('c, 'v) bcall list"
  bo_stderr :: "stderrLine list"
  bo_logs :: "logline list"
  bo_stateReader :: bool
  bo_registered :: "metricDesc list"

definition performB ::
    "('r \<Rightarrow> ('c, 'v) bcall) \<Rightarrow> ('v \<Rightarrow> 'r \<times> 'v) \<Rightarrow> (('c, 'v) boot, 'r) state" where
  "performB c f =
     State (\<lambda>s. case inService f (bo_world s) of
        (r, w) \<Rightarrow> (r, s\<lparr>bo_world := w, bo_calls := bo_calls s @ [c r]\<rparr>))"

definition logB :: "loglevel \<Rightarrow> string \<Rightarrow> (string \<times> logval) list \<Rightarrow> (('c, 'v) boot, unit) state" where
  "logB lvl msg kv =
     modify (\<lambda>s. s\<lparr>bo_logs := bo_logs s @ [\<lparr>log_Level = lvl, log_Msg = msg, log_KV = kv\<rparr>]\<rparr>)"

definition stderrB :: "stderrLine \<Rightarrow> (('c, 'v) boot, unit) state" where
  "stderrB l = modify (\<lambda>s. s\<lparr>bo_stderr := bo_stderr s @ [l]\<rparr>)"

text \<open>\<open>sync.Once\<close> around \<open>MustRegister\<close>: the descriptors are there when the body has run.\<close>

definition registerOnce :: "metricDesc list \<Rightarrow> (('c, 'v) boot, unit) state" where
  "registerOnce descs =
     modify (\<lambda>s. if set descs \<subseteq> set (bo_registered s) then s
                 else s\<lparr>bo_registered := bo_registered s @ descs\<rparr>)"

definition registerSyncMetrics :: "(('c, 'v) boot, unit) state" where
  "registerSyncMetrics =
     do {
       modify (\<lambda>s. s\<lparr>bo_stateReader := True\<rparr>);
       registerOnce (syncTotalDesc # Describe)
     }"

definition registerQueueMetrics :: "(('c, 'v) boot, unit) state" where
  "registerQueueMetrics =
     registerOnce [queueLastSuccessfulReceiveTimestamp, queueConsecutiveReceiveFailures, queueMessagesTotal]"

text \<open>A step that ends the process when it fails.\<close>

definition orExit ::
    "(('c, 'v) boot, goerr option) state \<Rightarrow> string \<Rightarrow> (string \<times> logval) list
     \<Rightarrow> (('c, 'v) boot, nat) state \<Rightarrow> (('c, 'v) boot, nat) state" where
  "orExit m msg kv k =
     do {
       r \<leftarrow> m;
       (case r of
          Some err \<Rightarrow> do { logB (LError (Some err)) msg kv; State_Monad.return 1 }
        | None \<Rightarrow> k)
     }"

section \<open>Set-up of the controller\<close>

definition SetupWithManager ::
    "'v bootEnv \<Rightarrow> ('c, 'v) kvSys SecretSyncReconciler \<Rightarrow> bool
     \<Rightarrow> (('c, 'v) boot, ('c, 'v) kvSys SecretSyncReconciler \<times> controllerSetup \<times> goerr option) state" where
  "SetupWithManager B r syncEvents =
     do {
       let r = (if \<not> rc_Recorder r then r\<lparr>rc_Recorder := True\<rparr> else r);
       let r = (if rc_APIReader r = None then r\<lparr>rc_APIReader := Some APIReader\<rparr> else r);
       registerSyncMetrics;
       let bldr = \<lparr>cs_For = secretSyncKind, cs_Owns = ''Secret'',
         cs_MaxConcurrentReconciles = maxConcurrentReconciles, cs_Name = ''secretsync'', cs_RawSource = False\<rparr>;
       let bldr = (if syncEvents then bldr\<lparr>cs_RawSource := True\<rparr> else bldr);
       err \<leftarrow> performB (BComplete bldr) (be_Complete B bldr);
       State_Monad.return (r, bldr, err)
     }"

section \<open>Flags and environment\<close>

definition durationFromEnv :: "(string \<Rightarrow> string) \<Rightarrow> string \<Rightarrow> duration \<Rightarrow> (('c, 'v) boot, duration) state" where
  "durationFromEnv getenv key def =
     (let v = getenv key in
      if v = [] then State_Monad.return def
      else (case ParseDuration v of
          Inl err \<Rightarrow> do { stderrB (InvalidEnv key v def err); State_Monad.return def }
        | Inr d \<Rightarrow> State_Monad.return d))"

definition effectiveReconcileInterval :: "duration \<Rightarrow> duration \<times> bool" where
  "effectiveReconcileInterval configured =
     (if configured > 0 then (configured, False) else (mainReconcileInterval, True))"

definition configLogKeyValues ::
    "(string \<Rightarrow> string option) \<Rightarrow> string \<Rightarrow> duration \<Rightarrow> string \<Rightarrow> (string \<times> logval) list" where
  "configLogKeyValues lit queueURL interval azureClientID =
     (let safeQueueURL = fst (RedactURL lit queueURL) in
      [(queueURLLogKey, LStr safeQueueURL), (''reconcileInterval'', LInt interval),
       (''azureClientID'', LStr azureClientID)])"

definition queueListenerLogKeyValues ::
    "(string \<Rightarrow> string option) \<Rightarrow> string \<Rightarrow> (string \<times> logval) list option \<times> (string \<times> logval) list" where
  "queueListenerLogKeyValues lit queueURL =
     (case RedactURL lit queueURL of (safeQueueURL, hadQuery) \<Rightarrow>
        (if hadQuery then Some [(queueURLLogKey, LStr safeQueueURL)] else None,
         [(queueURLLogKey, LStr safeQueueURL)]))"

definition registerQueueURLFlag :: "string \<times> flagkind \<times> flagval" where
  "registerQueueURLFlag = (''queue-url'', StringFlag, FlagStr [])"

definition flagWasSupplied :: "parsedFlags \<Rightarrow> string \<Rightarrow> bool" where
  "flagWasSupplied p name \<longleftrightarrow> list_ex (\<lambda>f. f = name) (pf_Actual p)"

definition queueURLFromEnv :: "(string \<Rightarrow> string) \<Rightarrow> parsedFlags \<Rightarrow> string \<Rightarrow> string" where
  "queueURLFromEnv getenv p supplied =
     (if flagWasSupplied p ''queue-url'' then supplied else getenv ''QUEUE_URL'')"

text \<open>The flags that \<open>main\<close> registers, given the two defaults that come from the environment.\<close>

definition mainFlags :: "duration \<Rightarrow> string \<Rightarrow> flagset" where
  "mainFlags interval clientID =
     [(''metrics-bind-address'', StringFlag, FlagStr ''0''),
      (''health-probe-bind-address'', StringFlag, FlagStr '':8081''),
      (''leader-elect'', BoolFlag, FlagBool False),
      registerQueueURLFlag,
      (''reconcile-interval'', DurationFlag, FlagDur interval),
      (''azure-client-id'', StringFlag, FlagStr clientID),
      (''metrics-secure'', BoolFlag, FlagBool True),
      (''webhook-cert-path'', StringFlag, FlagStr []),
      (''webhook-cert-name'', StringFlag, FlagStr ''tls.crt''),
      (''webhook-cert-key'', StringFlag, FlagStr ''tls.key''),
      (''metrics-cert-path'', StringFlag, FlagStr []),
      (''metrics-cert-name'', StringFlag, FlagStr ''tls.crt''),
      (''metrics-cert-key'', StringFlag, FlagStr ''tls.key''),
      (''enable-http2'', BoolFlag, FlagBool False)]"

section \<open>Start-up\<close>

text \<open>The values of the flags that the rest of \<open>main\<close> reads.\<close>

record settings_main =
  sm_QueueURL :: string
  sm_ReconcileInterval :: duration
  sm_AzureClientID :: string
  sm_MetricsAddr :: string
  sm_ProbeAddr :: string
  sm_SecureMetrics :: bool
  sm_EnableHTTP2 :: bool
  sm_WebhookCert :: certFiles
  sm_MetricsCert :: certFiles

definition readFlags :: "(string \<Rightarrow> string) \<Rightarrow> flagset \<Rightarrow> parsedFlags \<Rightarrow> settings_main" where
  "readFlags getenv F p =
     (let str = (\<lambda>n. asStr (flagValue F p n)) in
      \<lparr>sm_QueueURL = queueURLFromEnv getenv p (str ''queue-url''),
       sm_ReconcileInterval = asDur (flagValue F p ''reconcile-interval''),
       sm_AzureClientID = str ''azure-client-id'',
       sm_MetricsAddr = str ''metrics-bind-address'',
       sm_ProbeAddr = str ''health-probe-bind-address'',
       sm_SecureMetrics = asBool (flagValue F p ''metrics-secure''),
       sm_EnableHTTP2 = asBool (flagValue F p ''enable-http2''),
       sm_WebhookCert = \<lparr>cf_Dir = str ''webhook-cert-path'', cf_Name = str ''webhook-cert-name'',
         cf_Key = str ''webhook-cert-key''\<rparr>,
       sm_MetricsCert = \<lparr>cf_Dir = str ''metrics-cert-path'', cf_Name = str ''metrics-cert-name'',
         cf_Key = str ''metrics-cert-key''\<rparr>\<rparr>)"

text \<open>The certificate files of a server, announced when a directory is given.\<close>

definition certOptions :: "string \<Rightarrow> certFiles \<Rightarrow> (('c, 'v) boot, certFiles option) state" where
  "certOptions server c =
     (if cf_Dir c = [] then State_Monad.return None
      else do {
        logB LInfo (''Initializing '' @ server @ '' certificate watcher using provided certificates'')
          [(server @ ''-cert-path'', LStr (cf_Dir c)), (server @ ''-cert-name'', LStr (cf_Name c)),
           (server @ ''-cert-key'', LStr (cf_Key c))];
        State_Monad.return (Some c)
      })"

text \<open>The two reports on the configuration that never stop the process: an interval that is not positive is
  replaced, an unparseable queue URL is announced without its value.\<close>

definition checkConfig :: "'v bootEnv \<Rightarrow> settings_main \<Rightarrow> (('c, 'v) boot, duration) state" where
  "checkConfig B c =
     do {
       interval \<leftarrow> (case effectiveReconcileInterval (sm_ReconcileInterval c) of
          (effective, substituted) \<Rightarrow>
            if substituted then do {
              logB (LError None) nonPositiveReconcileIntervalMessage
                [(''configured'', LInt (sm_ReconcileInterval c)), (''using'', LInt effective)];
              State_Monad.return effective
            }
            else State_Monad.return (sm_ReconcileInterval c));
       (if sm_QueueURL c \<noteq> [] \<and> url_Parse (be_lit B) (sm_QueueURL c) = None
        then logB (LError None) unparseableQueueURLMessage []
        else State_Monad.return ());
       State_Monad.return interval
     }"

text \<open>The callback, when a server runs it: it says so and pins HTTP/1.1.\<close>

definition disableHTTP2 :: "tlsConfig \<Rightarrow> (('c, 'v) boot, tlsConfig) state" where
  "disableHTTP2 c =
     do {
       logB LInfo ''Disabling HTTP/2'' [];
       State_Monad.return (c\<lparr>tc_NextProtos := [''http/1.1'']\<rparr>)
     }"

text \<open>The options of the manager: HTTP/2 off unless enabled, the metrics endpoint behind authentication when it
  is secure, the cache restricted to managed Secrets, leader election off whatever \<open>--leader-elect\<close> says.\<close>

definition buildOptions :: "settings_main \<Rightarrow> (('c, 'v) boot, managerOptions) state" where
  "buildOptions c =
     do {
       let tlsOpts = (if \<not> sm_EnableHTTP2 c then [DisableHTTP2] else []);
       webhookCert \<leftarrow> certOptions ''webhook'' (sm_WebhookCert c);
       metricsCert \<leftarrow> certOptions ''metrics'' (sm_MetricsCert c);
       State_Monad.return
         \<lparr>mo_MetricsBindAddress = sm_MetricsAddr c, mo_MetricsSecureServing = sm_SecureMetrics c,
          mo_MetricsAuthFilter = sm_SecureMetrics c, mo_MetricsTLSOpts = tlsOpts, mo_MetricsCert = metricsCert,
          mo_WebhookTLSOpts = tlsOpts, mo_WebhookCert = webhookCert, mo_HealthProbeBindAddress = sm_ProbeAddr c,
          mo_SecretLabels = ManagedSecretCacheOptions, mo_LeaderElection = False, mo_LeaderElectionID = ''cd7454d8.io''\<rparr>
     }"

text \<open>The queue branch; the rest of \<open>main\<close> is its continuation, which gets the listener, if there is one.\<close>

definition newQueueSource :: "'v bootEnv \<Rightarrow> string \<Rightarrow> (('c, 'v) boot, goerr option) state" where
  "newQueueSource B url =
     do {
       cred \<leftarrow> performB BCredential (be_Credential B);
       (case cred of
          Some _ \<Rightarrow> State_Monad.return (NewQueueSource cred None)
        | None \<Rightarrow> do {
            client \<leftarrow> performB BNewQueueClient (be_NewQueueClient B url);
            State_Monad.return (NewQueueSource None client)
          })
     }"

definition setupQueue ::
    "'v bootEnv \<Rightarrow> string \<Rightarrow> (Listener option \<Rightarrow> (('c, 'v) boot, nat) state) \<Rightarrow> (('c, 'v) boot, nat) state" where
  "setupQueue B url k =
     (if url = [] then do {
        logB LInfo ''No queue URL configured; relying on periodic reconciliation only'' [];
        k None
      }
      else (case queueListenerLogKeyValues (be_lit B) url of (sasWarning, listenerEnabled) \<Rightarrow> do {
        (case sasWarning of None \<Rightarrow> State_Monad.return () | Some kv \<Rightarrow> logB LInfo queueSASWarning kv);
        orExit (newQueueSource B url) ''Failed to create storage queue source'' [] (do {
          registerQueueMetrics;
          let listener = NewListener;
          orExit (performB (BAdd listener) (be_Add B listener)) ''Failed to register queue listener'' [] (do {
            logB LInfo ''Queue listener enabled'' listenerEnabled;
            k (Some listener)
          })
        })
      }))"

text \<open>\<open>azure.NewSecretReader\<close>: the fresh reader becomes the state behind the interface value.\<close>

definition newReader :: "'v bootEnv \<Rightarrow> (('c, 'v) boot, goerr option) state" where
  "newReader B =
     do {
       cred \<leftarrow> performB BCredential (be_Credential B);
       (case NewSecretReader cred of
          Inl err \<Rightarrow> State_Monad.return (Some err)
        | Inr rd \<Rightarrow> do {
            modify (\<lambda>s. s\<lparr>bo_world := (bo_world s)\<lparr>kvs_reader := rd\<rparr>\<rparr>);
            State_Monad.return None
          })
     }"

text \<open>After the controller's set-up: the probes, then the manager, which runs until it is stopped.\<close>

definition runManager :: "'v bootEnv \<Rightarrow> ('c, 'v) wiring \<Rightarrow> goerr option \<Rightarrow> (('c, 'v) boot, nat) state" where
  "runManager B wired err =
     orExit (State_Monad.return err) ''Failed to create controller'' [(''controller'', LStr ''secretsync'')] (
     orExit (performB (BAddHealthzCheck ''healthz'') (be_AddHealthzCheck B ''healthz''))
       ''Failed to set up health check'' [] (
     orExit (performB (BAddReadyzCheck ''readyz'') (be_AddReadyzCheck B ''readyz''))
       ''Failed to set up ready check'' [] (do {
       logB LInfo ''Starting manager'' [];
       orExit (performB (BStart wired) (be_Start B)) ''Failed to run manager'' [] (State_Monad.return 0)
     })))"

definition startManager ::
    "'v bootEnv \<Rightarrow> ('c, 'v) azureEnv \<Rightarrow> managerOptions \<Rightarrow> duration \<Rightarrow> Listener option
     \<Rightarrow> (('c, 'v) boot, nat) state" where
  "startManager B A options interval listener =
     do {
       let r = \<lparr>rc_Client = ManagerClient, rc_Reader = Some (kvReader A), rc_ReconcileInterval = interval,
         rc_APIReader = None, rc_Recorder = False\<rparr>;
       res \<leftarrow> SetupWithManager B r (listener \<noteq> None);
       (case res of (r, bldr, err) \<Rightarrow>
          runManager B \<lparr>wi_Options = options, wi_Reconciler = r, wi_Controller = bldr, wi_Listener = listener,
            wi_EventsBuffer = (if listener \<noteq> None then Some eventsChannelBufferSize else None)\<rparr> err)
     }"

definition startup ::
    "'v bootEnv \<Rightarrow> ('c, 'v) azureEnv \<Rightarrow> settings_main \<Rightarrow> (('c, 'v) boot, nat) state" where
  "startup B A c =
     do {
       interval \<leftarrow> checkConfig B c;
       orExit (if sm_AzureClientID c = [] then State_Monad.return None
               else performB (BSetenv ''AZURE_CLIENT_ID'' (sm_AzureClientID c))
                 (be_Setenv B ''AZURE_CLIENT_ID'' (sm_AzureClientID c)))
         ''Failed to set AZURE_CLIENT_ID environment variable'' [] (do {
         logB LInfo ''Operator configuration''
           (configLogKeyValues (be_lit B) (sm_QueueURL c) interval (sm_AzureClientID c));
         options \<leftarrow> buildOptions c;
         config \<leftarrow> performB BGetConfig (be_GetConfig B);
         if \<not> config then State_Monad.return 1
         else
           orExit (performB (BNewManager options) (be_NewManager B options)) ''Failed to start manager'' [] (
           orExit (newReader B) ''Failed to create key vault secret reader'' [] (
           setupQueue B (sm_QueueURL c) (startManager B A options interval)))
       })
     }"

text \<open>\<open>main\<close>; \<open>flag.CommandLine\<close> exits with 0 after help and with 2 after any other error.\<close>

definition main ::
    "'v bootEnv \<Rightarrow> ('c, 'v) azureEnv \<Rightarrow> (string \<Rightarrow> string) \<Rightarrow> string list \<Rightarrow> (('c, 'v) boot, nat) state" where
  "main B A getenv args =
     do {
       interval \<leftarrow> durationFromEnv getenv ''RECONCILE_INTERVAL'' mainReconcileInterval;
       let F = mainFlags interval (getenv ''AZURE_CLIENT_ID'') @ be_extraFlags B;
       (case parseArgs F args noFlags of
          Inl HelpRequested \<Rightarrow> do { stderrB (Usage F); State_Monad.return 0 }
        | Inl err \<Rightarrow> do { stderrB (FlagFailure err); stderrB (Usage F); State_Monad.return 2 }
        | Inr p \<Rightarrow> startup B A (readFlags getenv F p))
     }"

section \<open>Specification vocabulary\<close>

text \<open>Every library call of the start-up succeeds; \<open>Start\<close> itself may end in any way.\<close>

definition willing :: "'v bootEnv \<Rightarrow> bool" where
  "willing B \<longleftrightarrow>
     (\<forall>k x v. fst (be_Setenv B k x v) = None) \<and> (\<forall>v. fst (be_GetConfig B v)) \<and> (\<forall>m v. fst (be_NewManager B m v) = None)
     \<and> (\<forall>v. fst (be_Credential B v) = None) \<and> (\<forall>u v. fst (be_NewQueueClient B u v) = None)
     \<and> (\<forall>l v. fst (be_Add B l v) = None) \<and> (\<forall>c v. fst (be_Complete B c v) = None)
     \<and> (\<forall>n v. fst (be_AddHealthzCheck B n v) = None) \<and> (\<forall>n v. fst (be_AddReadyzCheck B n v) = None)"

text \<open>The default of \<open>--reconcile-interval\<close>, and the flags it is registered with.\<close>

definition envInterval :: "(string \<Rightarrow> string) \<Rightarrow> duration" where
  "envInterval getenv =
     (case ParseDuration (getenv ''RECONCILE_INTERVAL'') of Inl _ \<Rightarrow> mainReconcileInterval | Inr d \<Rightarrow> d)"

definition allFlags :: "'v bootEnv \<Rightarrow> (string \<Rightarrow> string) \<Rightarrow> flagset" where
  "allFlags B getenv = mainFlags (envInterval getenv) (getenv ''AZURE_CLIENT_ID'') @ be_extraFlags B"

text \<open>What the process runs with for an interval and a listener.\<close>

definition wiringOf ::
    "('c, 'v) azureEnv \<Rightarrow> managerOptions \<Rightarrow> duration \<Rightarrow> Listener option \<Rightarrow> ('c, 'v) wiring" where
  "wiringOf A options interval listener =
     \<lparr>wi_Options = options,
      wi_Reconciler = \<lparr>rc_Client = ManagerClient, rc_Reader = Some (kvReader A), rc_ReconcileInterval = interval,
        rc_APIReader = Some APIReader, rc_Recorder = True\<rparr>,
      wi_Controller = \<lparr>cs_For = secretSyncKind, cs_Owns = ''Secret'', cs_MaxConcurrentReconciles = maxConcurrentReconciles,
        cs_Name = ''secretsync'', cs_RawSource = (listener \<noteq> None)\<rparr>,
      wi_Listener = listener,
      wi_EventsBuffer = (if listener \<noteq> None then Some eventsChannelBufferSize else None)\<rparr>"

text \<open>The last call started the manager on \<open>w\<close>, and the exit code tells how it ended.\<close>

definition started :: "('c, 'v) wiring \<Rightarrow> nat \<Rightarrow> ('c, 'v) boot \<Rightarrow> bool" where
  "started w code s \<longleftrightarrow> (\<exists>pre r. bo_calls s = pre @ [BStart w r] \<and> code = (if r = None then 0 else 1))"

text \<open>The options every start-up uses: Secrets cached only with the operator's label, leader election off, a
  secure metrics endpoint behind authentication, and HTTP/2 off unless enabled.\<close>

definition safeOptions :: "settings_main \<Rightarrow> managerOptions \<Rightarrow> bool" where
  "safeOptions c options \<longleftrightarrow>
     mo_SecretLabels options = [(LabelManagedBy, LabelManagedByValue)] \<and> \<not> mo_LeaderElection options
     \<and> (mo_MetricsSecureServing options \<longrightarrow> mo_MetricsAuthFilter options)
     \<and> (DisableHTTP2 \<in> set (mo_MetricsTLSOpts options) \<longleftrightarrow> \<not> sm_EnableHTTP2 c)
     \<and> (DisableHTTP2 \<in> set (mo_WebhookTLSOpts options) \<longleftrightarrow> \<not> sm_EnableHTTP2 c)"

text \<open>What stays of a state as the start-up goes on, and the triples over it: from every state, \<open>m\<close> keeps what
  there was and ends in a result and state in \<open>R\<close>.\<close>

definition grows :: "('c, 'v) boot \<Rightarrow> ('c, 'v) boot \<Rightarrow> bool" where
  "grows s s' \<longleftrightarrow> set (bo_logs s) \<subseteq> set (bo_logs s') \<and> (bo_stateReader s \<longrightarrow> bo_stateReader s')"

definition leads :: "(('c, 'v) boot, 'a) state \<Rightarrow> ('a \<Rightarrow> ('c, 'v) boot \<Rightarrow> bool) \<Rightarrow> bool" where
  "leads m R \<longleftrightarrow> (\<forall>s. wp m (\<lambda>a s'. grows s s' \<and> R a s') s)"

definition stable :: "(('c, 'v) boot \<Rightarrow> bool) \<Rightarrow> bool" where
  "stable P \<longleftrightarrow> (\<forall>s s'. P s \<longrightarrow> grows s s' \<longrightarrow> P s')"

section \<open>Lemmas\<close>

lemma grows_refl [simp]: "grows s s"
  by (simp add: grows_def)

lemma grows_trans: "grows s s' \<Longrightarrow> grows s' s'' \<Longrightarrow> grows s s''"
  by (auto simp: grows_def)

lemma stable_log [simp]: "stable (\<lambda>s. l \<in> set (bo_logs s))"
  by (auto simp: stable_def grows_def)

lemma stable_reader [simp]: "stable bo_stateReader"
  by (auto simp: stable_def grows_def)

lemma leads_bind:
  assumes "leads m R" and "\<And>a s. R a s \<Longrightarrow> leads (f a) R'"
  shows "leads (State_Monad.bind m f) R'"
  unfolding leads_def
proof
  fix s
  have "wp m (\<lambda>a s'. wp (f a) (\<lambda>b s''. grows s s'' \<and> R' b s'') s') s"
  proof (rule wp_mono)
    show "wp m (\<lambda>a s'. grows s s' \<and> R a s') s" using assms(1) by (simp add: leads_def)
    fix a s' assume h: "grows s s' \<and> R a s'"
    then have "leads (f a) R'" using assms(2) by blast
    then have "wp (f a) (\<lambda>b s''. grows s' s'' \<and> R' b s'') s'" by (simp add: leads_def)
    then show "wp (f a) (\<lambda>b s''. grows s s'' \<and> R' b s'') s'"
      by (rule wp_mono) (use h grows_trans in blast)
  qed
  then show "wp (State_Monad.bind m f) (\<lambda>a s'. grows s s' \<and> R' a s') s" by (simp add: wp_simps)
qed

lemma leads_keep:
  assumes "leads m (\<lambda>a s. V a \<and> P s)" and "stable P" and "\<And>a. V a \<Longrightarrow> leads (f a) R"
  shows "leads (State_Monad.bind m f) (\<lambda>b s. P s \<and> R b s)"
  unfolding leads_def
proof
  fix s
  have "wp m (\<lambda>a s'. wp (f a) (\<lambda>b s''. grows s s'' \<and> P s'' \<and> R b s'') s') s"
  proof (rule wp_mono)
    show "wp m (\<lambda>a s'. grows s s' \<and> V a \<and> P s') s" using assms(1) by (simp add: leads_def)
    fix a s' assume h: "grows s s' \<and> V a \<and> P s'"
    then have "wp (f a) (\<lambda>b s''. grows s' s'' \<and> R b s'') s'" using assms(3) by (simp add: leads_def)
    then show "wp (f a) (\<lambda>b s''. grows s s'' \<and> P s'' \<and> R b s'') s'"
      by (rule wp_mono) (use h assms(2) grows_trans in \<open>auto simp: stable_def\<close>)
  qed
  then show "wp (State_Monad.bind m f) (\<lambda>b s'. grows s s' \<and> P s' \<and> R b s') s" by (simp add: wp_simps)
qed

lemma leads_mono: "leads m R \<Longrightarrow> (\<And>a s. R a s \<Longrightarrow> R' a s) \<Longrightarrow> leads m R'"
  by (auto simp: leads_def wp_def split: prod.splits)

lemma leads_return [simp]: "leads (State_Monad.return a) R \<longleftrightarrow> (\<forall>s. R a s)"
  by (simp add: leads_def wp_simps)

lemma leads_log: "leads (logB lvl msg kv) (\<lambda>_ s. \<lparr>log_Level = lvl, log_Msg = msg, log_KV = kv\<rparr> \<in> set (bo_logs s))"
  by (auto simp: leads_def logB_def wp_simps grows_def)

lemma wp_performB:
  "wp (performB c f) Q s =
     (case inService f (bo_world s) of (r, w) \<Rightarrow> Q r (s\<lparr>bo_world := w, bo_calls := bo_calls s @ [c r]\<rparr>))"
  by (simp add: wp_def performB_def split: prod.split)

lemma leads_perform: "leads (performB c f) (\<lambda>r s. (\<exists>v. r = fst (f v)) \<and> (\<exists>pre. bo_calls s = pre @ [c r]))"
  by (auto simp: leads_def wp_performB inService_def grows_def split: prod.split) (metis fst_conv)+

lemma leads_orExit:
  assumes "leads m (\<lambda>r s. r = None)" and "leads k R"
  shows "leads (orExit m msg kv k) R"
  unfolding orExit_def by (rule leads_bind [OF assms(1)]) (simp add: assms(2))

text \<open>The parts of the start-up with willing libraries.\<close>

lemma leads_willing:
  assumes "\<forall>v. fst (f v) = r"
  shows "leads (performB c f) (\<lambda>a s. a = r)"
  by (rule leads_mono [OF leads_perform]) (use assms in auto)

lemma leads_register: "leads registerSyncMetrics (\<lambda>_ s. True \<and> bo_stateReader s)" "leads registerQueueMetrics (\<lambda>_ _. True)"
  by (auto simp: leads_def registerSyncMetrics_def registerQueueMetrics_def registerOnce_def wp_simps grows_def)

lemma leads_Setup:
  assumes "willing B" and "\<not> rc_Recorder r" and "rc_APIReader r = None"
  shows "leads (SetupWithManager B r ev) (\<lambda>x s. x = (r\<lparr>rc_Recorder := True, rc_APIReader := Some APIReader\<rparr>,
      \<lparr>cs_For = secretSyncKind, cs_Owns = ''Secret'', cs_MaxConcurrentReconciles = maxConcurrentReconciles,
        cs_Name = ''secretsync'', cs_RawSource = ev\<rparr>, None) \<and> bo_stateReader s)"
proof -
  have ok: "\<forall>v. fst (be_Complete B c v) = None" for c using assms(1) by (simp add: willing_def)
  let ?bldr = "\<lparr>cs_For = secretSyncKind, cs_Owns = ''Secret'', cs_MaxConcurrentReconciles = maxConcurrentReconciles,
    cs_Name = ''secretsync'', cs_RawSource = ev\<rparr>"
  have "SetupWithManager B r ev = do {
      registerSyncMetrics;
      err \<leftarrow> performB (BComplete ?bldr) (be_Complete B ?bldr);
      State_Monad.return (r\<lparr>rc_Recorder := True, rc_APIReader := Some APIReader\<rparr>, ?bldr, err)}"
    using assms(2,3) by (cases ev) (simp_all add: SetupWithManager_def Let_def)
  moreover have "leads (performB (BComplete ?bldr) (be_Complete B ?bldr) \<bind>
      (\<lambda>err. State_Monad.return (r\<lparr>rc_Recorder := True, rc_APIReader := Some APIReader\<rparr>, ?bldr, err)))
    (\<lambda>x s. x = (r\<lparr>rc_Recorder := True, rc_APIReader := Some APIReader\<rparr>, ?bldr, None))"
    by (rule leads_bind [OF leads_willing [OF ok]]) simp
  ultimately show ?thesis
    by (auto intro: leads_mono [OF leads_keep [OF leads_register(1) stable_reader]])
qed

lemma leads_runManager:
  assumes "willing B"
  shows "leads (runManager B w None) (started w)"
proof -
  have ok: "\<forall>v. fst (be_AddHealthzCheck B n v) = None" "\<forall>v. fst (be_AddReadyzCheck B n v) = None" for n
    using assms by (simp_all add: willing_def)
  have "leads (orExit (performB (BStart w) (be_Start B)) msg kv (State_Monad.return 0)) (started w)" for msg kv
    by (auto simp: leads_def orExit_def logB_def wp_simps wp_performB inService_def grows_def started_def
        split: prod.split option.split)
  then show ?thesis
    unfolding runManager_def
    by (rule leads_orExit [OF _ leads_orExit [OF leads_willing [OF ok(1)]
          leads_orExit [OF leads_willing [OF ok(2)] leads_bind [OF leads_log]]], rotated]) simp
qed

lemma leads_startManager:
  assumes "willing B"
  shows "leads (startManager B A options interval listener)
    (\<lambda>code s. bo_stateReader s \<and> started (wiringOf A options interval listener) code s)"
  unfolding startManager_def Let_def
  by (rule leads_keep [OF leads_Setup [OF assms] stable_reader])
    (use leads_runManager [OF assms] in \<open>auto simp: wiringOf_def\<close>)

lemma leads_queueSource:
  assumes "willing B"
  shows "leads (newQueueSource B url) (\<lambda>r s. r = None)" and "leads (newReader B) (\<lambda>r s. r = None)"
proof -
  have ok: "\<forall>v. fst (be_Credential B v) = None" "\<forall>v. fst (be_NewQueueClient B u v) = None" for u
    using assms by (simp_all add: willing_def)
  have "leads (performB BNewQueueClient (be_NewQueueClient B url) \<bind>
      (\<lambda>client. State_Monad.return (NewQueueSource None client))) (\<lambda>r s. r = None)"
    by (rule leads_bind [OF leads_willing [OF ok(2)]]) (simp add: NewQueueSource_def)
  then show "leads (newQueueSource B url) (\<lambda>r s. r = None)"
    unfolding newQueueSource_def by (intro leads_bind [OF leads_willing [OF ok(1)]]) simp
  show "leads (newReader B) (\<lambda>r s. r = None)"
    unfolding newReader_def
    by (rule leads_bind [OF leads_willing [OF ok(1)]])
      (simp add: NewSecretReader_def leads_def wp_simps grows_def)
qed

lemma leads_setupQueue:
  assumes "willing B" and "leads (k (if url = [] then None else Some NewListener)) R"
  shows "leads (setupQueue B url k) R"
proof (cases "url = []")
  case True
  then show ?thesis using assms(2) by (auto simp: setupQueue_def intro: leads_bind [OF leads_log])
next
  case False
  have ok: "\<forall>v. fst (be_Add B l v) = None" for l using assms(1) by (simp add: willing_def)
  obtain warn kv where kv: "queueListenerLogKeyValues (be_lit B) url = (warn, kv)" by fastforce
  have "leads (case warn of None \<Rightarrow> State_Monad.return () | Some kv \<Rightarrow> logB LInfo queueSASWarning kv) (\<lambda>_ _. True)"
    by (auto split: option.split intro: leads_mono [OF leads_log])
  moreover have "leads (do { logB LInfo ''Queue listener enabled'' kv; k (Some NewListener) }) R"
    using assms(2) False by (intro leads_bind [OF leads_log]) simp
  ultimately show ?thesis
    using False kv unfolding setupQueue_def Let_def
    by (auto intro!: leads_bind [where R = "\<lambda>_ _. True"] leads_orExit leads_queueSource leads_register leads_willing
        assms(1) ok)
qed

lemma leads_checkConfig:
  "leads (checkConfig B c) (\<lambda>d s. d = fst (effectiveReconcileInterval (sm_ReconcileInterval c)))"
proof -
  have "leads (if sm_QueueURL c \<noteq> [] \<and> url_Parse (be_lit B) (sm_QueueURL c) = None
      then logB (LError None) unparseableQueueURLMessage [] else State_Monad.return ()) (\<lambda>_ _. True)"
    by (auto intro: leads_mono [OF leads_log])
  then have rest: "leads (do {
      (if sm_QueueURL c \<noteq> [] \<and> url_Parse (be_lit B) (sm_QueueURL c) = None
       then logB (LError None) unparseableQueueURLMessage [] else State_Monad.return ());
      State_Monad.return d}) (\<lambda>x s. x = d)" for d
    by (rule leads_bind) simp
  show ?thesis
    unfolding checkConfig_def
    by (rule leads_bind [where R = "\<lambda>d s. d = fst (effectiveReconcileInterval (sm_ReconcileInterval c))"])
      (auto simp: effectiveReconcileInterval_def intro: leads_bind [OF leads_log] leads_mono [OF rest])
qed

lemma leads_options: "leads (buildOptions c) (\<lambda>options s. safeOptions c options)"
proof -
  have cert: "leads (certOptions server files) (\<lambda>_ _. True)" for server files
    by (auto simp: certOptions_def intro: leads_bind [OF leads_log])
  show ?thesis
    unfolding buildOptions_def Let_def
    by (intro leads_bind [OF cert]) (simp add: safeOptions_def ManagedSecretCacheOptions_def)
qed

lemma leads_startup:
  fixes c :: settings_main
  defines "d \<equiv> fst (effectiveReconcileInterval (sm_ReconcileInterval c))"
  assumes "willing B"
  shows "leads (startup B A c) (\<lambda>code s.
    \<lparr>log_Level = LInfo, log_Msg = ''Operator configuration'',
      log_KV = configLogKeyValues (be_lit B) (sm_QueueURL c) d (sm_AzureClientID c)\<rparr> \<in> set (bo_logs s)
    \<and> (\<exists>options. safeOptions c options \<and> bo_stateReader s
        \<and> started (wiringOf A options d (if sm_QueueURL c = [] then None else Some NewListener)) code s))"
    (is "leads _ (\<lambda>code s. ?line s \<and> ?run code s)")
proof -
  have ok: "\<forall>v. fst (be_Setenv B k x v) = None" "\<forall>v. fst (be_GetConfig B v) = True"
    "\<forall>v. fst (be_NewManager B m v) = None" for k x m
    using assms(2) by (simp_all add: willing_def)
  have manager: "leads (setupQueue B (sm_QueueURL c) (startManager B A options d)) ?run" if "safeOptions c options" for options
    by (rule leads_setupQueue [OF assms(2)]) (use that in \<open>auto intro: leads_mono [OF leads_startManager [OF assms(2)]]\<close>)
  have "leads (do {
      config \<leftarrow> performB BGetConfig (be_GetConfig B);
      if \<not> config then State_Monad.return 1
      else orExit (performB (BNewManager options) (be_NewManager B options)) ''Failed to start manager'' [] (
        orExit (newReader B) ''Failed to create key vault secret reader'' [] (
        setupQueue B (sm_QueueURL c) (startManager B A options d)))}) ?run" if "safeOptions c options" for options
    by (rule leads_bind [OF leads_willing [OF ok(2)]])
      (simp add: leads_orExit leads_willing [OF ok(3)] leads_queueSource(2) [OF assms(2)] manager [OF that])
  note rest = leads_bind [OF leads_options this]
  have set: "leads (if sm_AzureClientID c = [] then State_Monad.return None
      else performB (BSetenv k x) (be_Setenv B k x)) (\<lambda>r s. r = None)" for k x
    by (simp add: leads_willing [OF ok(1)])
  have line: "leads (logB lvl msg kv)
      (\<lambda>a s. True \<and> \<lparr>log_Level = lvl, log_Msg = msg, log_KV = kv\<rparr> \<in> set (bo_logs s))" for lvl msg kv
    by (rule leads_mono [OF leads_log]) simp
  note run = leads_orExit [OF set leads_keep [OF line stable_log rest]]
  show ?thesis
    unfolding startup_def
    by (rule leads_bind [OF leads_checkConfig], unfold d_def [symmetric], erule ssubst) (rule run)
qed

lemma main_run:
  "run_state (main B A getenv args) s =
     (case parseArgs (allFlags B getenv) args noFlags of
        Inl err \<Rightarrow> run_state (if err = HelpRequested then do { stderrB (Usage (allFlags B getenv)); State_Monad.return 0 }
          else do { stderrB (FlagFailure err); stderrB (Usage (allFlags B getenv)); State_Monad.return 2 })
          (snd (run_state (durationFromEnv getenv ''RECONCILE_INTERVAL'' mainReconcileInterval) s))
      | Inr p \<Rightarrow> run_state (startup B A (readFlags getenv (allFlags B getenv) p))
          (snd (run_state (durationFromEnv getenv ''RECONCILE_INTERVAL'' mainReconcileInterval) s)))"
proof -
  have "ParseDuration [] = Inl (InvalidDuration [])" by (simp add: ParseDuration_def)
  then have "fst (run_state (durationFromEnv getenv ''RECONCILE_INTERVAL'' mainReconcileInterval) s) = envInterval getenv"
    by (auto simp: durationFromEnv_def envInterval_def Let_def stderrB_def split: sum.split)
  then obtain s1 where run: "run_state (durationFromEnv getenv ''RECONCILE_INTERVAL'' mainReconcileInterval) s = (envInterval getenv, s1)"
    by (metis prod.collapse)
  show ?thesis
    unfolding main_def Let_def allFlags_def [symmetric] run_state_bind run
    by (simp add: allFlags_def [symmetric] split: sum.split flagError.split)
qed

text \<open>Libraries that always succeed, on a service without state, and a process that begins.\<close>

definition quietLibraries :: "unit bootEnv" where
  "quietLibraries =
     \<lparr>be_lit = (\<lambda>_. None), be_extraFlags = [(''zap-devel'', ExtraFlag True (\<lambda>v. ParseBool v \<noteq> None), FlagText ''false'')],
      be_Setenv = (\<lambda>k x v. (None, v)), be_GetConfig = (\<lambda>v. (True, v)), be_NewManager = (\<lambda>m v. (None, v)),
      be_Credential = (\<lambda>v. (None, v)), be_NewQueueClient = (\<lambda>u v. (None, v)), be_Add = (\<lambda>l v. (None, v)),
      be_Complete = (\<lambda>c v. (None, v)), be_AddHealthzCheck = (\<lambda>n v. (None, v)), be_AddReadyzCheck = (\<lambda>n v. (None, v)),
      be_Start = (\<lambda>v. (None, v))\<rparr>"

definition bootState :: "(unit, unit) boot" where
  "bootState =
     \<lparr>bo_world = \<lparr>kvs_service = (), kvs_reader = \<lparr>kv_clients = fmempty\<rparr>, kvs_calls = [], kvs_logs = []\<rparr>,
      bo_calls = [], bo_stderr = [], bo_logs = [], bo_stateReader = False, bo_registered = []\<rparr>"

definition quietVault :: "(unit, unit) azureEnv" where
  "quietVault =
     \<lparr>az_unicode = \<lparr>tab_IsPrint = (\<lambda>_. True), tab_ToLower = id, tab_SimpleFold = id\<rparr>, az_Getenv = (\<lambda>_. []),
      az_NewClient = (\<lambda>endpoint opts v. (Inr (), v)), az_GetSecret = (\<lambda>c ctx name version v. (Inl (errors_New ''none''), v)),
      az_Version = (\<lambda>i. i)\<rparr>"

text \<open>A queue URL that does not parse, an interval that is not positive, and leader election asked for.\<close>

definition badConfig :: "string list" where
  "badConfig = [''--queue-url=%zz'', ''--reconcile-interval=-5m'', ''--leader-elect'']"

lemma willing_quiet: "willing quietLibraries"
  by (simp add: willing_def quietLibraries_def)

text \<open>Two queue URLs that differ only in what redaction hides give the same start-up.\<close>

definition sameQueue :: "'v bootEnv \<Rightarrow> string \<Rightarrow> string \<Rightarrow> bool" where
  "sameQueue B u u' \<longleftrightarrow>
     u \<noteq> [] \<and> u' \<noteq> [] \<and> RedactURL (be_lit B) u = RedactURL (be_lit B) u'
     \<and> (url_Parse (be_lit B) u = None \<longleftrightarrow> url_Parse (be_lit B) u' = None)
     \<and> be_NewQueueClient B u = be_NewQueueClient B u'"

lemma sameQueue_parts:
  assumes "sameQueue B u u'"
  shows "checkConfig B (c\<lparr>sm_QueueURL := u\<rparr>) = checkConfig B (c\<lparr>sm_QueueURL := u'\<rparr>)"
    and "configLogKeyValues (be_lit B) u = configLogKeyValues (be_lit B) u'"
    and "queueListenerLogKeyValues (be_lit B) u = queueListenerLogKeyValues (be_lit B) u'"
    and "newQueueSource B u = newQueueSource B u'"
  using assms
  by (simp_all add: sameQueue_def checkConfig_def configLogKeyValues_def [abs_def] queueListenerLogKeyValues_def
      newQueueSource_def cong: if_cong prod.case_cong option.case_cong)

lemma buildOptions_queue: "buildOptions (c\<lparr>sm_QueueURL := u\<rparr>) = buildOptions c"
  by (simp add: buildOptions_def)

lemma setupQueue_sameQueue:
  assumes "sameQueue B u u'"
  shows "setupQueue B u = setupQueue B u'"
proof -
  have "u \<noteq> []" "u' \<noteq> []" using assms by (simp_all add: sameQueue_def)
  then show ?thesis
    by (intro ext) (simp add: setupQueue_def sameQueue_parts(3,4) [OF assms])
qed

lemma startup_sameQueue:
  assumes "sameQueue B u u'"
  shows "startup B A (c\<lparr>sm_QueueURL := u\<rparr>) = startup B A (c\<lparr>sm_QueueURL := u'\<rparr>)"
proof -
  have "sm_QueueURL (c\<lparr>sm_QueueURL := x\<rparr>) = x" "sm_AzureClientID (c\<lparr>sm_QueueURL := x\<rparr>) = sm_AzureClientID c" for x
    by simp_all
  then show ?thesis
    unfolding startup_def
    by (simp only: sameQueue_parts [OF assms] setupQueue_sameQueue [OF assms] buildOptions_queue)
qed

lemma allFlags_queue [simp]: "allFlags B (getenv(''QUEUE_URL'' := u)) = allFlags B getenv"
  by (simp add: allFlags_def envInterval_def)

lemma durationFromEnv_queue [simp]:
  "durationFromEnv (getenv(''QUEUE_URL'' := u)) ''RECONCILE_INTERVAL'' = durationFromEnv getenv ''RECONCILE_INTERVAL''"
  by (simp add: durationFromEnv_def fun_eq_iff)

lemma readFlags_env:
  "readFlags (getenv(''QUEUE_URL'' := u)) F p =
     (if flagWasSupplied p ''queue-url'' then readFlags getenv F p else (readFlags getenv F p)\<lparr>sm_QueueURL := u\<rparr>)"
  by (simp add: readFlags_def queueURLFromEnv_def Let_def)

lemma readFlags_flag:
  "readFlags getenv F (after q (noteFlag ''queue-url'' (FlagStr u) noFlags)) =
     (case map_of (pf_Values q) ''queue-url'' of
        Some x \<Rightarrow> readFlags getenv F (after q (noteFlag ''queue-url'' (FlagStr []) noFlags))
      | None \<Rightarrow> (readFlags getenv F (after q (noteFlag ''queue-url'' (FlagStr []) noFlags)))\<lparr>sm_QueueURL := u\<rparr>)"
  by (simp add: readFlags_def queueURLFromEnv_def flagWasSupplied_def flagValue_def after_def noteFlag_def
      map_add_def Let_def split: option.split)

lemma url_query_parses:
  assumes "CHR ''?'' \<notin> set base" and "CHR ''#'' \<notin> set base" and "base \<noteq> ''*''"
    and "q \<noteq> []" and "CHR ''#'' \<notin> set q" and "\<not> containsCTLByte q"
  shows "url_Parse lit (base @ ''?'' @ q) = None \<longleftrightarrow> url_Parse lit base = None"
  using parse_query [OF assms(1,4,6,3), of lit] assms(2,5)
  by (simp add: url_Parse_def cut_absent split: option.split)

lemma sameQueue_query:
  assumes "CHR ''?'' \<notin> set base" and "CHR ''#'' \<notin> set base" and "base \<noteq> ''*''"
    and q: "q \<noteq> []" "CHR ''#'' \<notin> set q" "\<not> containsCTLByte q"
    and q': "q' \<noteq> []" "CHR ''#'' \<notin> set q'" "\<not> containsCTLByte q'"
    and "be_NewQueueClient B (base @ ''?'' @ q) = be_NewQueueClient B (base @ ''?'' @ q')"
  shows "sameQueue B (base @ ''?'' @ q) (base @ ''?'' @ q')"
  using RedactURL_query [OF assms(1-3) q, of "[]" "be_lit B"] RedactURL_query [OF assms(1-3) q', of "[]" "be_lit B"]
    url_query_parses [OF assms(1-3) q, of "be_lit B"] url_query_parses [OF assms(1-3) q', of "be_lit B"] assms(10)
  by (simp add: sameQueue_def)

section \<open>Properties\<close>

text \<open>
  (C39) Nothing in the configuration keeps the operator from running. When the flags parse and the libraries
  do not fail, \<open>main\<close> starts the manager, whatever the queue URL (also one that does not parse), the reconcile
  interval and the environment are. The interval the reconciler requeues at is the one the line
  "Operator configuration" reports: the configured one when positive, else four hours. A listener and
  the watch on its channel of 256 exist exactly when there is a queue URL. The manager caches only
  Secrets with the operator's label, never elects a leader, and serves secure metrics only behind
  authentication; the state collector has its reader.
\<close>

theorem startup_reaches_manager:
  assumes "willing B" and "parseArgs (allFlags B getenv) args noFlags = Inr p"
    and "c = readFlags getenv (allFlags B getenv) p"
    and "d = (if 0 < sm_ReconcileInterval c then sm_ReconcileInterval c else 4 * Hour)"
    and "run_state (main B A getenv args) s = (code, s')"
  shows "\<exists>w. started w code s' \<and> safeOptions c (wi_Options w) \<and> bo_stateReader s'
    \<and> 0 < d \<and> reconcileInterval (wi_Reconciler w) = d
    \<and> \<lparr>log_Level = LInfo, log_Msg = ''Operator configuration'',
        log_KV = configLogKeyValues (be_lit B) (sm_QueueURL c) d (sm_AzureClientID c)\<rparr> \<in> set (bo_logs s')
    \<and> rc_Reader (wi_Reconciler w) = Some (kvReader A) \<and> rc_APIReader (wi_Reconciler w) = Some APIReader
    \<and> wi_Listener w = (if sm_QueueURL c = [] then None else Some NewListener)
    \<and> wi_EventsBuffer w = (if sm_QueueURL c = [] then None else Some 256)
    \<and> cs_RawSource (wi_Controller w) = (sm_QueueURL c \<noteq> [])"
proof -
  have d: "fst (effectiveReconcileInterval (sm_ReconcileInterval c)) = d" "0 < d"
    using assms(4) by (simp_all add: effectiveReconcileInterval_def)
  have run: "run_state (startup B A c) s1 = (code, s')"
    if "s1 = snd (run_state (durationFromEnv getenv ''RECONCILE_INTERVAL'' mainReconcileInterval) s)" for s1
    using assms(2,3,5) that by (simp add: main_run)
  obtain options where "started (wiringOf A options d (if sm_QueueURL c = [] then None else Some NewListener)) code s'"
      "safeOptions c options" "bo_stateReader s'" "\<lparr>log_Level = LInfo, log_Msg = ''Operator configuration'',
        log_KV = configLogKeyValues (be_lit B) (sm_QueueURL c) d (sm_AzureClientID c)\<rparr> \<in> set (bo_logs s')"
    using leads_startup [OF assms(1), of A c, unfolded d leads_def] wp_run [OF run [OF refl]] by blast
  then show ?thesis
    using d(2) by (intro exI [of _ "wiringOf A options d (if sm_QueueURL c = [] then None else Some NewListener)"])
      (simp add: wiringOf_def reconcileInterval_def)
qed

theorem startup_reaches_manager_witness:
  "\<exists>w. started w (fst (run_state (main quietLibraries quietVault (\<lambda>_. []) badConfig) bootState))
      (snd (run_state (main quietLibraries quietVault (\<lambda>_. []) badConfig) bootState))
    \<and> reconcileInterval (wi_Reconciler w) = 4 * Hour \<and> wi_Listener w = Some NewListener
    \<and> \<not> mo_LeaderElection (wi_Options w)"
proof -
  let ?F = "allFlags quietLibraries (\<lambda>_. [])"
  let ?p = "\<lparr>pf_Values = [(''leader-elect'', FlagBool True), (''reconcile-interval'', FlagDur (-300000000000)), (''queue-url'', FlagStr ''%zz'')],
    pf_Actual = [''leader-elect'', ''reconcile-interval'', ''queue-url'']\<rparr>"
  have "parseArgs ?F badConfig noFlags = Inr ?p" by code_simp
  moreover have "sm_QueueURL (readFlags (\<lambda>_. []) ?F ?p) = ''%zz''"
    "sm_ReconcileInterval (readFlags (\<lambda>_. []) ?F ?p) = -300000000000"
    by (simp_all add: readFlags_def queueURLFromEnv_def flagWasSupplied_def flagValue_def)
  moreover obtain code s' where run: "run_state (main quietLibraries quietVault (\<lambda>_. []) badConfig) bootState = (code, s')"
    by fastforce
  ultimately obtain w where "started w code s'" "safeOptions (readFlags (\<lambda>_. []) ?F ?p) (wi_Options w)"
      "reconcileInterval (wi_Reconciler w) = 4 * Hour" "wi_Listener w = Some NewListener"
    using startup_reaches_manager [OF willing_quiet _ refl refl run, of ?p] by auto
  then show ?thesis using run by (auto simp: safeOptions_def)
qed

text \<open>
  (C40) A SAS token in the queue URL leaves the process in no output. Two start-ups whose queue URLs
  differ only in the query are the same in everything the process writes and does: stderr with the usage
  text, log, library calls with their answers and exit code (the one argument that carries the URL, that of
  the constructor of the queue client, is not part of the recorded call). This holds when the URL comes from \<open>QUEUE_URL\<close>, and when it
  comes from \<open>--queue-url\<close>, whatever the other arguments are and also when they do not parse. The
  constructor of the queue client is taken to treat the two alike: it does not parse its URL.
\<close>

theorem startup_hides_sas:
  assumes "CHR ''?'' \<notin> set base" and "CHR ''#'' \<notin> set base" and "base \<noteq> ''*''"
    and "q \<noteq> []" and "CHR ''#'' \<notin> set q" and "\<not> containsCTLByte q"
    and "q' \<noteq> []" and "CHR ''#'' \<notin> set q'" and "\<not> containsCTLByte q'"
    and "be_NewQueueClient B (base @ ''?'' @ q) = be_NewQueueClient B (base @ ''?'' @ q')"
  shows "run_state (main B A (getenv(''QUEUE_URL'' := base @ ''?'' @ q)) args) s =
      run_state (main B A (getenv(''QUEUE_URL'' := base @ ''?'' @ q')) args) s
    \<and> run_state (main B A getenv ((''--queue-url='' @ base @ ''?'' @ q) # args)) s =
      run_state (main B A getenv ((''--queue-url='' @ base @ ''?'' @ q') # args)) s"
proof -
  note same = startup_sameQueue [OF sameQueue_query [OF assms]]
  have arg: "parseArgs (allFlags B getenv) ((''--queue-url='' @ u) # args) noFlags =
      (case parseArgs (allFlags B getenv) args noFlags of Inl e \<Rightarrow> Inl e
       | Inr q \<Rightarrow> Inr (after q (noteFlag ''queue-url'' (FlagStr u) noFlags)))" for u
  proof -
    have "map_of (allFlags B getenv) ''queue-url'' = Some (StringFlag, FlagStr [])"
      by (simp add: allFlags_def mainFlags_def registerQueueURLFlag_def)
    from parseArgs_string [OF _ _ _ this, of u args noFlags] show ?thesis
      by (simp add: parseArgs_after [of _ args "noteFlag ''queue-url'' (FlagStr u) noFlags"])
  qed
  have "startup B A (readFlags getenv F (after r (noteFlag ''queue-url'' (FlagStr (base @ ''?'' @ q)) noFlags))) =
      startup B A (readFlags getenv F (after r (noteFlag ''queue-url'' (FlagStr (base @ ''?'' @ q')) noFlags)))" for F r
    unfolding readFlags_flag [of getenv F r "base @ ''?'' @ q"] readFlags_flag [of getenv F r "base @ ''?'' @ q'"]
    by (cases "map_of (pf_Values r) ''queue-url''") (simp_all only: option.case same)
  then have "run_state (main B A getenv ((''--queue-url='' @ base @ ''?'' @ q) # args)) s =
      run_state (main B A getenv ((''--queue-url='' @ base @ ''?'' @ q') # args)) s"
    unfolding main_run arg by (cases "parseArgs (allFlags B getenv) args noFlags") (simp_all only: sum.case)
  moreover have "run_state (main B A (getenv(''QUEUE_URL'' := base @ ''?'' @ q)) args) s =
      run_state (main B A (getenv(''QUEUE_URL'' := base @ ''?'' @ q')) args) s"
    unfolding main_run readFlags_env allFlags_queue durationFromEnv_queue
    by (cases "parseArgs (allFlags B getenv) args noFlags") (simp_all only: sum.case same if_distrib [where f = "startup B A"] cong: if_cong)
  ultimately show ?thesis by blast
qed

theorem startup_hides_sas_witness:
  "run_state (main quietLibraries quietVault ((\<lambda>_. [])(''QUEUE_URL'' := ''https://q.example.net/events?sig=a'')) []) bootState =
   run_state (main quietLibraries quietVault ((\<lambda>_. [])(''QUEUE_URL'' := ''https://q.example.net/events?sig=b'')) []) bootState"
proof -
  have "\<not> containsCTLByte ''sig=a''" "\<not> containsCTLByte ''sig=b''" by code_simp+
  then show ?thesis
    using startup_hides_sas [of "''https://q.example.net/events''" "''sig=a''" "''sig=b''" quietLibraries quietVault "\<lambda>_. []" "[]" bootState]
    by (simp add: quietLibraries_def)
qed

end
