(* ===== verification/Scheme_Registration.thy ===== *)
theory Scheme_Registration
  imports Operator_Main
begin

text \<open>
  What runs before \<open>main\<close>: the package variables and \<open>init\<close> functions that register the API types
  (\<open>api/v1alpha1/groupversion_info.go\<close>, \<open>secretsync_types.go\<close>, \<open>cmd/main.go\<close>), and that the two groups of
  metrics never collide in the registry. Schemes and their builders are apimachinery's: the record
  \<open>schemeEnv\<close>, with \<open>schemeLaws\<close> for what its documentation says of them.
\<close>

section \<open>The scheme\<close>

record ('s, 'b) schemeEnv =
  se_NewScheme :: 's
  se_NewSchemeBuilder :: "('s \<Rightarrow> goerr option \<times> 's) \<Rightarrow> 'b"
  se_Register :: "'b \<Rightarrow> ('s \<Rightarrow> goerr option \<times> 's) \<Rightarrow> 'b"
  se_AddToScheme :: "'b \<Rightarrow> 's \<Rightarrow> goerr option \<times> 's"
  se_AddToGroupVersion :: "string \<Rightarrow> 's \<Rightarrow> 's"
  se_AddKnownTypes :: "string \<Rightarrow> string list \<Rightarrow> 's \<Rightarrow> 's"
  se_clientgo :: "'s \<Rightarrow> goerr option \<times> 's"

definition SchemeBuilder :: "('s, 'b) schemeEnv \<Rightarrow> 'b" where
  "SchemeBuilder L = se_NewSchemeBuilder L (\<lambda>scheme. (None, se_AddToGroupVersion L GroupVersion scheme))"

text \<open>The \<open>init\<close> of the API package registers its types with the builder.\<close>

definition init_types :: "('s, 'b) schemeEnv \<Rightarrow> 'b \<Rightarrow> 'b" where
  "init_types L b = se_Register L b
     (\<lambda>s. (None, se_AddKnownTypes L GroupVersion [''SecretSync'', ''SecretSyncList''] s))"

definition AddToScheme :: "('s, 'b) schemeEnv \<Rightarrow> 's \<Rightarrow> goerr option \<times> 's" where
  "AddToScheme L = se_AddToScheme L (init_types L (SchemeBuilder L))"

text \<open>The \<open>init\<close> of the main package; \<open>Inl\<close> is the panic of \<open>utilruntime.Must\<close>.\<close>

definition init_main :: "('s, 'b) schemeEnv \<Rightarrow> goerr + 's" where
  "init_main L =
     (case se_clientgo L (se_NewScheme L) of
        (Some err, _) \<Rightarrow> Inl err
      | (None, scheme) \<Rightarrow>
          (case AddToScheme L scheme of
             (Some err, _) \<Rightarrow> Inl err
           | (None, scheme) \<Rightarrow> Inr scheme))"

text \<open>A builder runs its functions in the order of their registration and stops at the first error; a
  scheme knows the types it was given and forgets none.\<close>

definition schemeLaws :: "('s, 'b) schemeEnv \<Rightarrow> ('s \<Rightarrow> string \<Rightarrow> string \<Rightarrow> bool) \<Rightarrow> bool" where
  "schemeLaws L knows \<longleftrightarrow>
     (\<forall>f. se_AddToScheme L (se_NewSchemeBuilder L f) = f)
     \<and> (\<forall>b f s. se_AddToScheme L (se_Register L b f) s =
          (case se_AddToScheme L b s of (Some err, s') \<Rightarrow> (Some err, s') | (None, s') \<Rightarrow> f s'))
     \<and> (\<forall>gv types s gv' k. knows (se_AddKnownTypes L gv types s) gv' k \<longleftrightarrow>
          knows s gv' k \<or> gv' = gv \<and> k \<in> set types)
     \<and> (\<forall>gv s gv' k. knows s gv' k \<longrightarrow> knows (se_AddToGroupVersion L gv s) gv' k)"

text \<open>What can be registered with the registry of metrics: either group, both, or none.\<close>

definition registryOk :: "metricDesc list \<Rightarrow> bool" where
  "registryOk ds \<longleftrightarrow>
     (let A = syncTotalDesc # Describe;
          B = [queueLastSuccessfulReceiveTimestamp, queueConsecutiveReceiveFailures, queueMessagesTotal] in
      ds \<in> {[], A, B, A @ B, B @ A})"

section \<open>Lemmas\<close>

lemma AddToScheme_run:
  "schemeLaws L knows \<Longrightarrow>
   AddToScheme L s = (None, se_AddKnownTypes L GroupVersion [''SecretSync'', ''SecretSyncList'']
     (se_AddToGroupVersion L GroupVersion s))"
  by (simp add: schemeLaws_def AddToScheme_def init_types_def SchemeBuilder_def)

text \<open>The process panics before \<open>main\<close> only when client-go cannot register its own types; otherwise the scheme
  knows both kinds of this API besides what client-go registered.\<close>

lemma init_main_scheme:
  assumes "schemeLaws L knows" and "se_clientgo L (se_NewScheme L) = (r, scheme0)"
  shows "case r of
      Some err \<Rightarrow> init_main L = Inl err
    | None \<Rightarrow> \<exists>scheme. init_main L = Inr scheme \<and> knows scheme GroupVersion ''SecretSync''
        \<and> knows scheme GroupVersion ''SecretSyncList'' \<and> (\<forall>gv k. knows scheme0 gv k \<longrightarrow> knows scheme gv k)"
  using assms(1) [unfolded schemeLaws_def] assms(2) AddToScheme_run [OF assms(1), of scheme0]
  by (simp add: init_main_def split: option.split)

text \<open>A scheme as a list of kinds and a builder as a list of functions satisfy the laws.\<close>

lemma schemeLaws_lists:
  "schemeLaws \<lparr>se_NewScheme = [], se_NewSchemeBuilder = (\<lambda>f. [f]), se_Register = (\<lambda>b f. b @ [f]),
     se_AddToScheme = (\<lambda>b s. fold (\<lambda>f (e, s). if e = None then f s else (e, s)) b (None, s)),
     se_AddToGroupVersion = (\<lambda>gv s. (gv, ''WatchEvent'') # s),
     se_AddKnownTypes = (\<lambda>gv types s. map (Pair gv) types @ s), se_clientgo = (\<lambda>s. (None, s))\<rparr>
   (\<lambda>s gv k. (gv, k) \<in> set s)"
  by (auto simp: schemeLaws_def split: prod.splits option.splits)

section \<open>The registry of metrics\<close>

text \<open>\<open>MustRegister\<close> panics on a name it has already. In any order of set-ups, and however often each runs,
  the registered names stay distinct, and are among the six of the two groups.\<close>

lemma metric_names_distinct:
  "distinct (map md_Name ((syncTotalDesc # Describe)
     @ [queueLastSuccessfulReceiveTimestamp, queueConsecutiveReceiveFailures, queueMessagesTotal]))"
  by (simp add: syncTotalDesc_def Describe_def secretSyncState_def oldestSuccessfulSync_def
      queueLastSuccessfulReceiveTimestamp_def queueConsecutiveReceiveFailures_def queueMessagesTotal_def)

lemma registryOk_distinct: "registryOk ds \<Longrightarrow> distinct (map md_Name ds)"
  using metric_names_distinct by (auto simp: registryOk_def Let_def)

lemma registryOk_groups:
  assumes "registryOk (bo_registered s)"
  shows "registryOk (bo_registered (snd (run_state registerSyncMetrics s)))"
    and "registryOk (bo_registered (snd (run_state registerQueueMetrics s)))"
proof -
  have names: "distinct ((syncTotalDesc # Describe)
     @ [queueLastSuccessfulReceiveTimestamp, queueConsecutiveReceiveFailures, queueMessagesTotal])"
    using metric_names_distinct unfolding distinct_map by (rule conjunct1)
  with assms show "registryOk (bo_registered (snd (run_state registerSyncMetrics s)))"
    by (auto simp: registryOk_def Let_def registerSyncMetrics_def registerOnce_def)
  from names assms show "registryOk (bo_registered (snd (run_state registerQueueMetrics s)))"
    by (auto simp: registryOk_def Let_def registerQueueMetrics_def registerOnce_def)
qed

end
