(* ===== verification/Api_Deepcopy.thy ===== *)
theory Api_Deepcopy
  imports Api_V1alpha1 Kv_Prelude
begin

text \<open>
  \<open>api/v1alpha1/zz_generated.deepcopy.go\<close>, over an explicit store. Elsewhere in the development a
  \<open>SecretSync\<close> is a value; in Go it is memory that other holders of a pointer, the client's cache
  above all, can see. The deep copies are what makes the two views agree, so they are modelled
  where the difference exists: \<open>heap\<close> holds the arrays behind pointers and slices, one map for each element type and one
  allocation limit for all. A pointer is a position in an array (\<open>new(T)\<close> makes an array of one), a
  slice is a window on an array or nil, and a place a statement reads or assigns, be it a variable, an
  array element or a field of one, is a \<open>loc\<close>.

  \<open>ObjectMeta\<close>, \<open>ListMeta\<close>, \<open>Condition\<close> and \<open>Time\<close> have their copy functions in apimachinery. These are the record
  \<open>apimeta\<close>; the locale \<open>apimachinery\<close> states what they promise: a copy denotes the same value, all memory
  it refers to is newly allocated, and memory allocated before does not change.
\<close>

section \<open>Memory\<close>

type_synonym addr = nat
type_synonym pointer = "addr \<times> nat"

record slice =
  sl_addr :: addr
  sl_off :: nat
  sl_len :: nat

record TypeMeta =
  tm_Kind :: string
  tm_APIVersion :: string

text \<open>The structs with their references; \<open>'m\<close> and \<open>'l\<close> are the structs \<open>ObjectMeta\<close> and \<open>ListMeta\<close>.\<close>

record StatusMem =
  sm_State :: SecretSyncState
  sm_LastSyncTime :: time
  sm_SyncedVersion :: string
  sm_Reason :: string
  sm_Message :: string
  sm_ObservedGeneration :: int
  sm_Conditions :: "slice option"

record 'm SyncMem =
  mem_TypeMeta :: TypeMeta
  mem_ObjectMeta :: 'm
  mem_Spec :: SecretSyncSpec
  mem_Status :: StatusMem

record 'l SecretSyncList =
  sl_TypeMeta :: TypeMeta
  sl_ListMeta :: 'l
  sl_Items :: "slice option"

text \<open>\<open>'x\<close> is what apimachinery stores in a cell of its own.\<close>

record ('m, 'l, 'x) heap =
  hp_syncs :: "addr \<Rightarrow> 'm SyncMem list"
  hp_lists :: "addr \<Rightarrow> 'l SecretSyncList list"
  hp_specs :: "addr \<Rightarrow> SecretSyncSpec list"
  hp_statuses :: "addr \<Rightarrow> StatusMem list"
  hp_targets :: "addr \<Rightarrow> TargetSpec list"
  hp_vaults :: "addr \<Rightarrow> VaultSpec list"
  hp_conds :: "addr \<Rightarrow> Condition list"
  hp_ext :: "addr \<Rightarrow> 'x"
  hp_lim :: addr

record ('h, 'v) loc =
  loc_get :: "'h \<Rightarrow> 'v"
  loc_put :: "'v \<Rightarrow> 'h \<Rightarrow> 'h"

text \<open>The copy functions of apimachinery: from the struct, its memory and the limit to the copy, the memory
  and the limit after it.\<close>

record ('m, 'l, 'x) apimeta =
  am_zeroMeta :: 'm
  am_zeroListMeta :: 'l
  am_ObjectMeta :: "'m \<Rightarrow> (addr \<Rightarrow> 'x) \<Rightarrow> addr \<Rightarrow> 'm \<times> (addr \<Rightarrow> 'x) \<times> addr"
  am_ListMeta :: "'l \<Rightarrow> (addr \<Rightarrow> 'x) \<Rightarrow> addr \<Rightarrow> 'l \<times> (addr \<Rightarrow> 'x) \<times> addr"
  am_Condition :: "Condition \<Rightarrow> Condition"
  am_Time :: "time \<Rightarrow> time"

section \<open>Places\<close>

definition assign :: "('h, 'v) loc \<Rightarrow> ('h \<Rightarrow> 'v) \<Rightarrow> ('h, unit) state" where
  "assign l f = modify (\<lambda>h. loc_put l (f h) h)"

definition syncLoc :: "pointer \<Rightarrow> (('m, 'l, 'x) heap, 'm SyncMem) loc" where
  "syncLoc p = \<lparr>loc_get = (\<lambda>h. hp_syncs h (fst p) ! snd p),
     loc_put = (\<lambda>v h. h\<lparr>hp_syncs := (hp_syncs h)(fst p := (hp_syncs h (fst p))[snd p := v])\<rparr>)\<rparr>"

definition listLoc :: "pointer \<Rightarrow> (('m, 'l, 'x) heap, 'l SecretSyncList) loc" where
  "listLoc p = \<lparr>loc_get = (\<lambda>h. hp_lists h (fst p) ! snd p),
     loc_put = (\<lambda>v h. h\<lparr>hp_lists := (hp_lists h)(fst p := (hp_lists h (fst p))[snd p := v])\<rparr>)\<rparr>"

definition specLoc :: "pointer \<Rightarrow> (('m, 'l, 'x) heap, SecretSyncSpec) loc" where
  "specLoc p = \<lparr>loc_get = (\<lambda>h. hp_specs h (fst p) ! snd p),
     loc_put = (\<lambda>v h. h\<lparr>hp_specs := (hp_specs h)(fst p := (hp_specs h (fst p))[snd p := v])\<rparr>)\<rparr>"

definition statusLoc :: "pointer \<Rightarrow> (('m, 'l, 'x) heap, StatusMem) loc" where
  "statusLoc p = \<lparr>loc_get = (\<lambda>h. hp_statuses h (fst p) ! snd p),
     loc_put = (\<lambda>v h. h\<lparr>hp_statuses := (hp_statuses h)(fst p := (hp_statuses h (fst p))[snd p := v])\<rparr>)\<rparr>"

definition targetLoc :: "pointer \<Rightarrow> (('m, 'l, 'x) heap, TargetSpec) loc" where
  "targetLoc p = \<lparr>loc_get = (\<lambda>h. hp_targets h (fst p) ! snd p),
     loc_put = (\<lambda>v h. h\<lparr>hp_targets := (hp_targets h)(fst p := (hp_targets h (fst p))[snd p := v])\<rparr>)\<rparr>"

definition vaultLoc :: "pointer \<Rightarrow> (('m, 'l, 'x) heap, VaultSpec) loc" where
  "vaultLoc p = \<lparr>loc_get = (\<lambda>h. hp_vaults h (fst p) ! snd p),
     loc_put = (\<lambda>v h. h\<lparr>hp_vaults := (hp_vaults h)(fst p := (hp_vaults h (fst p))[snd p := v])\<rparr>)\<rparr>"

text \<open>\<open>&x.Status\<close> and \<open>&x.Conditions\<close>.\<close>

definition statusField :: "('h, 'm SyncMem) loc \<Rightarrow> ('h, StatusMem) loc" where
  "statusField l = \<lparr>loc_get = (\<lambda>h. mem_Status (loc_get l h)),
     loc_put = (\<lambda>v h. loc_put l ((loc_get l h)\<lparr>mem_Status := v\<rparr>) h)\<rparr>"

definition conditionsField :: "('h, StatusMem) loc \<Rightarrow> ('h, slice option) loc" where
  "conditionsField l = \<lparr>loc_get = (\<lambda>h. sm_Conditions (loc_get l h)),
     loc_put = (\<lambda>v h. loc_put l ((loc_get l h)\<lparr>sm_Conditions := v\<rparr>) h)\<rparr>"

definition itemsField :: "('h, 'l SecretSyncList) loc \<Rightarrow> ('h, slice option) loc" where
  "itemsField l = \<lparr>loc_get = (\<lambda>h. sl_Items (loc_get l h)),
     loc_put = (\<lambda>v h. loc_put l ((loc_get l h)\<lparr>sl_Items := v\<rparr>) h)\<rparr>"

text \<open>\<open>&s[i]\<close> of a slice of SecretSyncs, and the element \<open>s[i]\<close> of a slice of conditions.\<close>

definition element :: "slice \<Rightarrow> nat \<Rightarrow> pointer" where
  "element s i = (sl_addr s, sl_off s + i)"

definition condAt :: "('m, 'l, 'x) heap \<Rightarrow> slice \<Rightarrow> nat \<Rightarrow> Condition" where
  "condAt h s i = hp_conds h (sl_addr s) ! (sl_off s + i)"

section \<open>Zero values and allocation\<close>

definition zeroTypeMeta :: TypeMeta where
  "zeroTypeMeta = \<lparr>tm_Kind = [], tm_APIVersion = []\<rparr>"

definition zeroVaultSpec :: VaultSpec where
  "zeroVaultSpec = \<lparr>vault_Name = [], vault_Secret = []\<rparr>"

definition zeroTargetSpec :: TargetSpec where
  "zeroTargetSpec = \<lparr>target_SecretName = [], target_DataKey = []\<rparr>"

definition zeroSpec :: SecretSyncSpec where
  "zeroSpec = \<lparr>spec_Vault = zeroVaultSpec, spec_Target = zeroTargetSpec\<rparr>"

definition zeroStatusMem :: StatusMem where
  "zeroStatusMem = \<lparr>sm_State = [], sm_LastSyncTime = 0, sm_SyncedVersion = [], sm_Reason = [], sm_Message = [],
     sm_ObservedGeneration = 0, sm_Conditions = None\<rparr>"

text \<open>The zero \<open>Condition\<close>; its status is the empty string in Go, of which the enumeration here has no
  constructor, and every element of a new array is assigned before it is read.\<close>

definition zeroCondition :: Condition where
  "zeroCondition = \<lparr>cond_Type = [], cond_Status = ConditionUnknown, cond_ObservedGeneration = 0,
     cond_LastTransitionTime = 0, cond_Reason = [], cond_Message = []\<rparr>"

definition zeroSyncMem :: "('m, 'l, 'x) apimeta \<Rightarrow> 'm SyncMem" where
  "zeroSyncMem ops = \<lparr>mem_TypeMeta = zeroTypeMeta, mem_ObjectMeta = am_zeroMeta ops, mem_Spec = zeroSpec,
     mem_Status = zeroStatusMem\<rparr>"

definition zeroList :: "('m, 'l, 'x) apimeta \<Rightarrow> 'l SecretSyncList" where
  "zeroList ops = \<lparr>sl_TypeMeta = zeroTypeMeta, sl_ListMeta = am_zeroListMeta ops, sl_Items = None\<rparr>"

text \<open>Claims the next address.\<close>

definition fresh :: "(('m, 'l, 'x) heap, addr) state" where
  "fresh = State (\<lambda>h. (hp_lim h, h\<lparr>hp_lim := Suc (hp_lim h)\<rparr>))"

definition make_syncs :: "('m, 'l, 'x) apimeta \<Rightarrow> nat \<Rightarrow> (('m, 'l, 'x) heap, addr) state" where
  "make_syncs ops n = do {
     a \<leftarrow> fresh;
     modify (\<lambda>h. h\<lparr>hp_syncs := (hp_syncs h)(a := replicate n (zeroSyncMem ops))\<rparr>);
     State_Monad.return a }"

definition make_conds :: "nat \<Rightarrow> (('m, 'l, 'x) heap, addr) state" where
  "make_conds n = do {
     a \<leftarrow> fresh;
     modify (\<lambda>h. h\<lparr>hp_conds := (hp_conds h)(a := replicate n zeroCondition)\<rparr>);
     State_Monad.return a }"

section \<open>The copy functions\<close>

definition VaultSpec_DeepCopyInto :: "('h, VaultSpec) loc \<Rightarrow> ('h, VaultSpec) loc \<Rightarrow> ('h, unit) state" where
  "VaultSpec_DeepCopyInto inn out = assign out (loc_get inn)"

definition TargetSpec_DeepCopyInto :: "('h, TargetSpec) loc \<Rightarrow> ('h, TargetSpec) loc \<Rightarrow> ('h, unit) state" where
  "TargetSpec_DeepCopyInto inn out = assign out (loc_get inn)"

definition SecretSyncSpec_DeepCopyInto :: "('h, SecretSyncSpec) loc \<Rightarrow> ('h, SecretSyncSpec) loc \<Rightarrow> ('h, unit) state" where
  "SecretSyncSpec_DeepCopyInto inn out = do {
     assign out (loc_get inn);
     assign out (\<lambda>h. (loc_get out h)\<lparr>spec_Vault := spec_Vault (loc_get inn h)\<rparr>);
     assign out (\<lambda>h. (loc_get out h)\<lparr>spec_Target := spec_Target (loc_get inn h)\<rparr>) }"

text \<open>The loop over the conditions: \<open>inn\<close> and \<open>out\<close> are the two slice variables, \<open>i\<close> the index and \<open>k\<close> what is
  left of the length, which \<open>range\<close> reads once.\<close>

fun copyConditions ::
    "('m, 'l, 'x) apimeta \<Rightarrow> (('m, 'l, 'x) heap, slice option) loc \<Rightarrow> (('m, 'l, 'x) heap, slice option) loc
     \<Rightarrow> nat \<Rightarrow> nat \<Rightarrow> (('m, 'l, 'x) heap, unit) state" where
  "copyConditions ops inn out i 0 = State_Monad.return ()"
| "copyConditions ops inn out i (Suc k) = do {
     modify (\<lambda>h. let src = the (loc_get inn h); dst = the (loc_get out h) in
       h\<lparr>hp_conds := (hp_conds h)(sl_addr dst :=
         (hp_conds h (sl_addr dst))[sl_off dst + i := am_Condition ops (condAt h src i)])\<rparr>);
     copyConditions ops inn out (Suc i) k }"

definition SecretSyncStatus_DeepCopyInto ::
    "('m, 'l, 'x) apimeta \<Rightarrow> (('m, 'l, 'x) heap, StatusMem) loc \<Rightarrow> (('m, 'l, 'x) heap, StatusMem) loc
     \<Rightarrow> (('m, 'l, 'x) heap, unit) state" where
  "SecretSyncStatus_DeepCopyInto ops inn out = do {
     assign out (loc_get inn);
     assign out (\<lambda>h. (loc_get out h)\<lparr>sm_LastSyncTime := am_Time ops (sm_LastSyncTime (loc_get inn h))\<rparr>);
     conditions \<leftarrow> gets (\<lambda>h. sm_Conditions (loc_get inn h));
     (if conditions \<noteq> None then do {
        let inn = conditionsField inn;
        let out = conditionsField out;
        n \<leftarrow> gets (\<lambda>h. sl_len (the (loc_get inn h)));
        a \<leftarrow> make_conds n;
        assign out (\<lambda>_. Some \<lparr>sl_addr = a, sl_off = 0, sl_len = n\<rparr>);
        m \<leftarrow> gets (\<lambda>h. sl_len (the (loc_get inn h)));
        copyConditions ops inn out 0 m }
      else State_Monad.return ()) }"

definition SecretSync_DeepCopyInto ::
    "('m, 'l, 'x) apimeta \<Rightarrow> (('m, 'l, 'x) heap, 'm SyncMem) loc \<Rightarrow> (('m, 'l, 'x) heap, 'm SyncMem) loc
     \<Rightarrow> (('m, 'l, 'x) heap, unit) state" where
  "SecretSync_DeepCopyInto ops inn out = do {
     assign out (loc_get inn);
     assign out (\<lambda>h. (loc_get out h)\<lparr>mem_TypeMeta := mem_TypeMeta (loc_get inn h)\<rparr>);
     m \<leftarrow> State (\<lambda>h. case am_ObjectMeta ops (mem_ObjectMeta (loc_get inn h)) (hp_ext h) (hp_lim h) of
       (m, e, n) \<Rightarrow> (m, h\<lparr>hp_ext := e, hp_lim := n\<rparr>));
     assign out (\<lambda>h. (loc_get out h)\<lparr>mem_ObjectMeta := m\<rparr>);
     assign out (\<lambda>h. (loc_get out h)\<lparr>mem_Spec := mem_Spec (loc_get inn h)\<rparr>);
     SecretSyncStatus_DeepCopyInto ops (statusField inn) (statusField out) }"

fun copyItems ::
    "('m, 'l, 'x) apimeta \<Rightarrow> (('m, 'l, 'x) heap, slice option) loc \<Rightarrow> (('m, 'l, 'x) heap, slice option) loc
     \<Rightarrow> nat \<Rightarrow> nat \<Rightarrow> (('m, 'l, 'x) heap, unit) state" where
  "copyItems ops inn out i 0 = State_Monad.return ()"
| "copyItems ops inn out i (Suc k) = do {
     src \<leftarrow> gets (\<lambda>h. the (loc_get inn h));
     dst \<leftarrow> gets (\<lambda>h. the (loc_get out h));
     SecretSync_DeepCopyInto ops (syncLoc (element src i)) (syncLoc (element dst i));
     copyItems ops inn out (Suc i) k }"

definition SecretSyncList_DeepCopyInto ::
    "('m, 'l, 'x) apimeta \<Rightarrow> (('m, 'l, 'x) heap, 'l SecretSyncList) loc \<Rightarrow> (('m, 'l, 'x) heap, 'l SecretSyncList) loc
     \<Rightarrow> (('m, 'l, 'x) heap, unit) state" where
  "SecretSyncList_DeepCopyInto ops inn out = do {
     assign out (loc_get inn);
     assign out (\<lambda>h. (loc_get out h)\<lparr>sl_TypeMeta := sl_TypeMeta (loc_get inn h)\<rparr>);
     m \<leftarrow> State (\<lambda>h. case am_ListMeta ops (sl_ListMeta (loc_get inn h)) (hp_ext h) (hp_lim h) of
       (m, e, n) \<Rightarrow> (m, h\<lparr>hp_ext := e, hp_lim := n\<rparr>));
     assign out (\<lambda>h. (loc_get out h)\<lparr>sl_ListMeta := m\<rparr>);
     items \<leftarrow> gets (\<lambda>h. sl_Items (loc_get inn h));
     (if items \<noteq> None then do {
        let inn = itemsField inn;
        let out = itemsField out;
        n \<leftarrow> gets (\<lambda>h. sl_len (the (loc_get inn h)));
        a \<leftarrow> make_syncs ops n;
        assign out (\<lambda>_. Some \<lparr>sl_addr = a, sl_off = 0, sl_len = n\<rparr>);
        m \<leftarrow> gets (\<lambda>h. sl_len (the (loc_get inn h)));
        copyItems ops inn out 0 m }
      else State_Monad.return ()) }"

text \<open>\<open>DeepCopy\<close> and \<open>DeepCopyObject\<close>: \<open>None\<close> is the nil pointer, and the nil interface.\<close>

definition VaultSpec_DeepCopy :: "pointer option \<Rightarrow> (('m, 'l, 'x) heap, pointer option) state" where
  "VaultSpec_DeepCopy inn =
     (case inn of
        None \<Rightarrow> State_Monad.return None
      | Some p \<Rightarrow> do {
          a \<leftarrow> fresh;
          modify (\<lambda>h. h\<lparr>hp_vaults := (hp_vaults h)(a := [zeroVaultSpec])\<rparr>);
          VaultSpec_DeepCopyInto (vaultLoc p) (vaultLoc (a, 0));
          State_Monad.return (Some (a, 0)) })"

definition TargetSpec_DeepCopy :: "pointer option \<Rightarrow> (('m, 'l, 'x) heap, pointer option) state" where
  "TargetSpec_DeepCopy inn =
     (case inn of
        None \<Rightarrow> State_Monad.return None
      | Some p \<Rightarrow> do {
          a \<leftarrow> fresh;
          modify (\<lambda>h. h\<lparr>hp_targets := (hp_targets h)(a := [zeroTargetSpec])\<rparr>);
          TargetSpec_DeepCopyInto (targetLoc p) (targetLoc (a, 0));
          State_Monad.return (Some (a, 0)) })"

definition SecretSyncSpec_DeepCopy :: "pointer option \<Rightarrow> (('m, 'l, 'x) heap, pointer option) state" where
  "SecretSyncSpec_DeepCopy inn =
     (case inn of
        None \<Rightarrow> State_Monad.return None
      | Some p \<Rightarrow> do {
          a \<leftarrow> fresh;
          modify (\<lambda>h. h\<lparr>hp_specs := (hp_specs h)(a := [zeroSpec])\<rparr>);
          SecretSyncSpec_DeepCopyInto (specLoc p) (specLoc (a, 0));
          State_Monad.return (Some (a, 0)) })"

definition SecretSyncStatus_DeepCopy ::
    "('m, 'l, 'x) apimeta \<Rightarrow> pointer option \<Rightarrow> (('m, 'l, 'x) heap, pointer option) state" where
  "SecretSyncStatus_DeepCopy ops inn =
     (case inn of
        None \<Rightarrow> State_Monad.return None
      | Some p \<Rightarrow> do {
          a \<leftarrow> fresh;
          modify (\<lambda>h. h\<lparr>hp_statuses := (hp_statuses h)(a := [zeroStatusMem])\<rparr>);
          SecretSyncStatus_DeepCopyInto ops (statusLoc p) (statusLoc (a, 0));
          State_Monad.return (Some (a, 0)) })"

definition SecretSync_DeepCopy ::
    "('m, 'l, 'x) apimeta \<Rightarrow> pointer option \<Rightarrow> (('m, 'l, 'x) heap, pointer option) state" where
  "SecretSync_DeepCopy ops inn =
     (case inn of
        None \<Rightarrow> State_Monad.return None
      | Some p \<Rightarrow> do {
          a \<leftarrow> make_syncs ops 1;
          SecretSync_DeepCopyInto ops (syncLoc p) (syncLoc (a, 0));
          State_Monad.return (Some (a, 0)) })"

definition SecretSyncList_DeepCopy ::
    "('m, 'l, 'x) apimeta \<Rightarrow> pointer option \<Rightarrow> (('m, 'l, 'x) heap, pointer option) state" where
  "SecretSyncList_DeepCopy ops inn =
     (case inn of
        None \<Rightarrow> State_Monad.return None
      | Some p \<Rightarrow> do {
          a \<leftarrow> fresh;
          modify (\<lambda>h. h\<lparr>hp_lists := (hp_lists h)(a := [zeroList ops])\<rparr>);
          SecretSyncList_DeepCopyInto ops (listLoc p) (listLoc (a, 0));
          State_Monad.return (Some (a, 0)) })"

text \<open>A \<open>runtime.Object\<close> holds a pointer of one of the two root types.\<close>

datatype runtimeObject = SecretSyncObject pointer | SecretSyncListObject pointer

definition SecretSync_DeepCopyObject ::
    "('m, 'l, 'x) apimeta \<Rightarrow> pointer option \<Rightarrow> (('m, 'l, 'x) heap, runtimeObject option) state" where
  "SecretSync_DeepCopyObject ops inn = do {
     c \<leftarrow> SecretSync_DeepCopy ops inn;
     (case c of
        Some p \<Rightarrow> State_Monad.return (Some (SecretSyncObject p))
      | None \<Rightarrow> State_Monad.return None) }"

definition SecretSyncList_DeepCopyObject ::
    "('m, 'l, 'x) apimeta \<Rightarrow> pointer option \<Rightarrow> (('m, 'l, 'x) heap, runtimeObject option) state" where
  "SecretSyncList_DeepCopyObject ops inn = do {
     c \<leftarrow> SecretSyncList_DeepCopy ops inn;
     (case c of
        Some p \<Rightarrow> State_Monad.return (Some (SecretSyncListObject p))
      | None \<Rightarrow> State_Monad.return None) }"

section \<open>What memory denotes\<close>

definition conditionsOf :: "('m, 'l, 'x) heap \<Rightarrow> slice option \<Rightarrow> Condition list" where
  "conditionsOf h s = (case s of None \<Rightarrow> [] | Some s \<Rightarrow> map (condAt h s) [0..<sl_len s])"

definition denotedStatus :: "('m, 'l, 'x) heap \<Rightarrow> StatusMem \<Rightarrow> SecretSyncStatus" where
  "denotedStatus h v =
     \<lparr>st_State = sm_State v, st_LastSyncTime = sm_LastSyncTime v, st_SyncedVersion = sm_SyncedVersion v,
      st_Reason = sm_Reason v, st_Message = sm_Message v, st_ObservedGeneration = sm_ObservedGeneration v,
      st_Conditions = conditionsOf h (sm_Conditions v)\<rparr>"

text \<open>A SecretSync in memory: its \<open>TypeMeta\<close>, the value the rest of the development works with, and whether its
  conditions are nil, which Go can tell from empty.\<close>

definition denotedSync ::
    "((addr \<Rightarrow> 'x) \<Rightarrow> 'm \<Rightarrow> ObjectMeta) \<Rightarrow> ('m, 'l, 'x) heap \<Rightarrow> pointer \<Rightarrow> TypeMeta \<times> SecretSync \<times> bool" where
  "denotedSync metaVal h p =
     (let v = loc_get (syncLoc p) h in
      (mem_TypeMeta v,
       \<lparr>ss_Meta = metaVal (hp_ext h) (mem_ObjectMeta v), ss_Spec = mem_Spec v, ss_Status = denotedStatus h (mem_Status v)\<rparr>,
       sm_Conditions (mem_Status v) = None))"

definition denotedList ::
    "((addr \<Rightarrow> 'x) \<Rightarrow> 'm \<Rightarrow> ObjectMeta) \<Rightarrow> ((addr \<Rightarrow> 'x) \<Rightarrow> 'l \<Rightarrow> 'lv) \<Rightarrow> ('m, 'l, 'x) heap \<Rightarrow> pointer
     \<Rightarrow> TypeMeta \<times> 'lv \<times> (TypeMeta \<times> SecretSync \<times> bool) list option" where
  "denotedList metaVal listVal h p =
     (let v = loc_get (listLoc p) h in
      (sl_TypeMeta v, listVal (hp_ext h) (sl_ListMeta v),
       map_option (\<lambda>s. map (\<lambda>i. denotedSync metaVal h (element s i)) [0..<sl_len s]) (sl_Items v)))"

text \<open>A place that is allocated, and everything a SecretSync or a list refers to.\<close>

definition windowed :: "addr \<Rightarrow> (addr \<Rightarrow> 'v list) \<Rightarrow> slice option \<Rightarrow> bool" where
  "windowed lim arr s \<longleftrightarrow>
     (case s of None \<Rightarrow> True | Some s \<Rightarrow> sl_addr s < lim \<and> sl_off s + sl_len s \<le> length (arr (sl_addr s)))"

definition validStatus :: "('m, 'l, 'x) heap \<Rightarrow> StatusMem \<Rightarrow> bool" where
  "validStatus h v \<longleftrightarrow> windowed (hp_lim h) (hp_conds h) (sm_Conditions v)"

definition validSync :: "((addr \<Rightarrow> 'x) \<Rightarrow> 'm \<Rightarrow> addr set) \<Rightarrow> ('m, 'l, 'x) heap \<Rightarrow> pointer \<Rightarrow> bool" where
  "validSync metaCells h p \<longleftrightarrow> fst p < hp_lim h \<and> snd p < length (hp_syncs h (fst p))
     \<and> metaCells (hp_ext h) (mem_ObjectMeta (loc_get (syncLoc p) h)) \<subseteq> {..<hp_lim h}
     \<and> validStatus h (mem_Status (loc_get (syncLoc p) h))"

definition validList ::
    "((addr \<Rightarrow> 'x) \<Rightarrow> 'm \<Rightarrow> addr set) \<Rightarrow> ((addr \<Rightarrow> 'x) \<Rightarrow> 'l \<Rightarrow> addr set) \<Rightarrow> ('m, 'l, 'x) heap \<Rightarrow> pointer \<Rightarrow> bool" where
  "validList metaCells listCells h p \<longleftrightarrow> fst p < hp_lim h \<and> snd p < length (hp_lists h (fst p))
     \<and> listCells (hp_ext h) (sl_ListMeta (loc_get (listLoc p) h)) \<subseteq> {..<hp_lim h}
     \<and> windowed (hp_lim h) (hp_syncs h) (sl_Items (loc_get (listLoc p) h))
     \<and> (\<forall>s i. sl_Items (loc_get (listLoc p) h) = Some s \<and> i < sl_len s \<longrightarrow> validSync metaCells h (element s i))"

text \<open>Two memories that agree on a set of addresses.\<close>

definition agree :: "addr set \<Rightarrow> ('m, 'l, 'x) heap \<Rightarrow> ('m, 'l, 'x) heap \<Rightarrow> bool" where
  "agree A h h' \<longleftrightarrow>
     (\<forall>a\<in>A. hp_syncs h' a = hp_syncs h a \<and> hp_lists h' a = hp_lists h a \<and> hp_specs h' a = hp_specs h a
        \<and> hp_statuses h' a = hp_statuses h a \<and> hp_targets h' a = hp_targets h a \<and> hp_vaults h' a = hp_vaults h a
        \<and> hp_conds h' a = hp_conds h a \<and> hp_ext h' a = hp_ext h a)"

text \<open>A deep copy: it starts in memory that is new, the memory from before is as it was, and nothing written
  later to the new memory changes what was there before, nor the other way round. \<open>den h p\<close> is what a
  memory has at a pointer.\<close>

definition deepCopied ::
    "(('m, 'l, 'x) heap \<Rightarrow> pointer \<Rightarrow> 'v) \<Rightarrow> ('m, 'l, 'x) heap \<Rightarrow> pointer \<Rightarrow> ('m, 'l, 'x) heap \<Rightarrow> pointer \<Rightarrow> bool" where
  "deepCopied den h p h' p' \<longleftrightarrow>
     den h' p' = den h p \<and> hp_lim h \<le> fst p' \<and> agree {..<hp_lim h} h h'
     \<and> (\<forall>h2. agree {..<hp_lim h} h' h2 \<longrightarrow> den h2 p = den h p)
     \<and> (\<forall>h2. agree {hp_lim h..<hp_lim h'} h' h2 \<longrightarrow> den h2 p' = den h p)"

text \<open>The struct \<open>v'\<close> in \<open>h'\<close> is a copy of the struct \<open>v\<close> in \<open>h\<close> that refers to nothing of \<open>h\<close>; and a memory that has
  only grown.\<close>

definition copied ::
    "((addr \<Rightarrow> 'x) \<Rightarrow> 'm \<Rightarrow> addr set) \<Rightarrow> ((addr \<Rightarrow> 'x) \<Rightarrow> 'm \<Rightarrow> ObjectMeta) \<Rightarrow> ('m, 'l, 'x) heap \<Rightarrow> 'm SyncMem
     \<Rightarrow> ('m, 'l, 'x) heap \<Rightarrow> 'm SyncMem \<Rightarrow> bool" where
  "copied metaCells metaVal h v h' v' \<longleftrightarrow>
     mem_TypeMeta v' = mem_TypeMeta v \<and> mem_Spec v' = mem_Spec v
     \<and> metaCells (hp_ext h') (mem_ObjectMeta v') \<subseteq> {hp_lim h..<hp_lim h'}
     \<and> metaVal (hp_ext h') (mem_ObjectMeta v') = metaVal (hp_ext h) (mem_ObjectMeta v)
     \<and> denotedStatus h' (mem_Status v') = denotedStatus h (mem_Status v)
     \<and> (sm_Conditions (mem_Status v') = None \<longleftrightarrow> sm_Conditions (mem_Status v) = None)
     \<and> (\<forall>s. sm_Conditions (mem_Status v') = Some s \<longrightarrow> hp_lim h \<le> sl_addr s \<and> sl_addr s < hp_lim h')"

definition grown :: "('m, 'l, 'x) heap \<Rightarrow> ('m, 'l, 'x) heap \<Rightarrow> bool" where
  "grown h h' \<longleftrightarrow> hp_lim h \<le> hp_lim h'
     \<and> (\<forall>a<hp_lim h. hp_conds h' a = hp_conds h a \<and> hp_ext h' a = hp_ext h a)"

text \<open>The addresses a status, a SecretSync and a list depend on.\<close>

definition sliceCells :: "slice option \<Rightarrow> addr set" where
  "sliceCells s = (case s of None \<Rightarrow> {} | Some s \<Rightarrow> {sl_addr s})"

definition syncCells :: "((addr \<Rightarrow> 'x) \<Rightarrow> 'm \<Rightarrow> addr set) \<Rightarrow> ('m, 'l, 'x) heap \<Rightarrow> pointer \<Rightarrow> addr set" where
  "syncCells metaCells h p =
     (let v = loc_get (syncLoc p) h in
      {fst p} \<union> metaCells (hp_ext h) (mem_ObjectMeta v) \<union> sliceCells (sm_Conditions (mem_Status v)))"

definition listCellsAt ::
    "((addr \<Rightarrow> 'x) \<Rightarrow> 'm \<Rightarrow> addr set) \<Rightarrow> ((addr \<Rightarrow> 'x) \<Rightarrow> 'l \<Rightarrow> addr set) \<Rightarrow> ('m, 'l, 'x) heap \<Rightarrow> pointer \<Rightarrow> addr set" where
  "listCellsAt metaCells listCells h p =
     (let v = loc_get (listLoc p) h in
      {fst p} \<union> listCells (hp_ext h) (sl_ListMeta v)
      \<union> (case sl_Items v of None \<Rightarrow> {} | Some s \<Rightarrow> \<Union>i<sl_len s. syncCells metaCells h (element s i)))"

text \<open>A concrete apimachinery: the maps and slices of \<open>ObjectMeta\<close> are references to cells, which a copy
  duplicates one after the other; the modelled fields of \<open>ListMeta\<close> are strings.\<close>

datatype metaCell = MapCell stringmap | OwnersCell "OwnerReference list" | StringsCell "string list"

record metaMem =
  mm_Scalars :: ObjectMeta
  mm_Labels :: "addr option"
  mm_Annotations :: "addr option"
  mm_Owners :: "addr option"
  mm_Finalizers :: "addr option"

record ListMetaMem =
  lm_ResourceVersion :: string
  lm_Continue :: string

definition copyRef :: "addr option \<Rightarrow> (addr \<Rightarrow> 'x) \<times> addr \<Rightarrow> addr option \<times> (addr \<Rightarrow> 'x) \<times> addr" where
  "copyRef ref mem = (case mem of (e, n) \<Rightarrow>
     (case ref of None \<Rightarrow> (None, e, n) | Some a \<Rightarrow> (Some n, e(n := e a), Suc n)))"

definition refCopyMeta :: "metaMem \<Rightarrow> (addr \<Rightarrow> metaCell) \<Rightarrow> addr \<Rightarrow> metaMem \<times> (addr \<Rightarrow> metaCell) \<times> addr" where
  "refCopyMeta m e n =
     (case copyRef (mm_Labels m) (e, n) of (l, mem) \<Rightarrow>
      case copyRef (mm_Annotations m) mem of (a, mem) \<Rightarrow>
      case copyRef (mm_Owners m) mem of (r, mem) \<Rightarrow>
      case copyRef (mm_Finalizers m) mem of (f, mem) \<Rightarrow>
        (m\<lparr>mm_Labels := l, mm_Annotations := a, mm_Owners := r, mm_Finalizers := f\<rparr>, mem))"

definition refMetaCells :: "(addr \<Rightarrow> metaCell) \<Rightarrow> metaMem \<Rightarrow> addr set" where
  "refMetaCells e m =
     set_option (mm_Labels m) \<union> set_option (mm_Annotations m) \<union> set_option (mm_Owners m) \<union> set_option (mm_Finalizers m)"

fun cellMap :: "metaCell option \<Rightarrow> stringmap" where
  "cellMap (Some (MapCell x)) = x" | "cellMap _ = fmempty"

fun cellOwners :: "metaCell option \<Rightarrow> OwnerReference list" where
  "cellOwners (Some (OwnersCell x)) = x" | "cellOwners _ = []"

fun cellStrings :: "metaCell option \<Rightarrow> string list" where
  "cellStrings (Some (StringsCell x)) = x" | "cellStrings _ = []"

definition refMetaVal :: "(addr \<Rightarrow> metaCell) \<Rightarrow> metaMem \<Rightarrow> ObjectMeta" where
  "refMetaVal e m = (mm_Scalars m)\<lparr>om_Labels := cellMap (map_option e (mm_Labels m)),
     om_Annotations := cellMap (map_option e (mm_Annotations m)),
     om_OwnerReferences := cellOwners (map_option e (mm_Owners m)),
     om_Finalizers := cellStrings (map_option e (mm_Finalizers m))\<rparr>"

definition refMeta :: "(metaMem, ListMetaMem, metaCell) apimeta" where
  "refMeta = \<lparr>am_zeroMeta = \<lparr>mm_Scalars = zeroObjectMeta, mm_Labels = None, mm_Annotations = None, mm_Owners = None,
       mm_Finalizers = None\<rparr>,
     am_zeroListMeta = \<lparr>lm_ResourceVersion = [], lm_Continue = []\<rparr>,
     am_ObjectMeta = refCopyMeta, am_ListMeta = (\<lambda>m e n. (m, e, n)), am_Condition = (\<lambda>c. c), am_Time = (\<lambda>t. t)\<rparr>"

text \<open>A memory with one list of two declarations that share an array of conditions, the first with labels.\<close>

definition demoMem :: "string \<Rightarrow> addr option \<Rightarrow> slice option \<Rightarrow> metaMem SyncMem" where
  "demoMem name labels conditions = \<lparr>mem_TypeMeta = \<lparr>tm_Kind = ''SecretSync'', tm_APIVersion = ''kvsynk8s.io/v1alpha1''\<rparr>,
     mem_ObjectMeta = \<lparr>mm_Scalars = zeroObjectMeta\<lparr>om_Name := name\<rparr>, mm_Labels = labels, mm_Annotations = None,
       mm_Owners = None, mm_Finalizers = None\<rparr>,
     mem_Spec = zeroSpec, mem_Status = zeroStatusMem\<lparr>sm_State := ''InSync'', sm_Conditions := conditions\<rparr>\<rparr>"

definition demoHeap :: "(metaMem, ListMetaMem, metaCell) heap" where
  "demoHeap =
     \<lparr>hp_syncs = (\<lambda>_. [])(1 := [demoMem ''a'' (Some 3) (Some \<lparr>sl_addr = 2, sl_off = 0, sl_len = 1\<rparr>),
                          demoMem ''b'' None (Some \<lparr>sl_addr = 2, sl_off = 1, sl_len = 1\<rparr>)]),
      hp_lists = (\<lambda>_. [])(0 := [\<lparr>sl_TypeMeta = zeroTypeMeta, sl_ListMeta = am_zeroListMeta refMeta,
        sl_Items = Some \<lparr>sl_addr = 1, sl_off = 0, sl_len = 2\<rparr>\<rparr>]),
      hp_specs = (\<lambda>_. []), hp_statuses = (\<lambda>_. []), hp_targets = (\<lambda>_. []), hp_vaults = (\<lambda>_. []),
      hp_conds = (\<lambda>_. [])(2 := [zeroCondition\<lparr>cond_Type := ''Ready''\<rparr>, zeroCondition]),
      hp_ext = (\<lambda>_. StringsCell [])(3 := MapCell (fmupd ''team'' ''red'' fmempty)), hp_lim = 4\<rparr>"

section \<open>Updates of memory commute\<close>

lemma heap_comm:
  "h\<lparr>hp_lim := n, hp_conds := c\<rparr> = h\<lparr>hp_conds := c, hp_lim := n\<rparr>"
  "h\<lparr>hp_lim := n, hp_ext := e\<rparr> = h\<lparr>hp_ext := e, hp_lim := n\<rparr>"
  "h\<lparr>hp_ext := e, hp_conds := c\<rparr> = h\<lparr>hp_conds := c, hp_ext := e\<rparr>"
  by simp_all

lemma heap_comm_arrays:
  "h\<lparr>hp_syncs := x, hp_lists := y\<rparr> = h\<lparr>hp_lists := y, hp_syncs := x\<rparr>"
  "h\<lparr>hp_conds := c, hp_lists := y\<rparr> = h\<lparr>hp_lists := y, hp_conds := c\<rparr>"
  "h\<lparr>hp_ext := e, hp_lists := y\<rparr> = h\<lparr>hp_lists := y, hp_ext := e\<rparr>"
  "h\<lparr>hp_lim := n, hp_lists := y\<rparr> = h\<lparr>hp_lists := y, hp_lim := n\<rparr>"
  "h\<lparr>hp_conds := c, hp_syncs := x\<rparr> = h\<lparr>hp_syncs := x, hp_conds := c\<rparr>"
  "h\<lparr>hp_ext := e, hp_syncs := x\<rparr> = h\<lparr>hp_syncs := x, hp_ext := e\<rparr>"
  "h\<lparr>hp_lim := n, hp_syncs := x\<rparr> = h\<lparr>hp_syncs := x, hp_lim := n\<rparr>"
  by simp_all

section \<open>What apimachinery promises\<close>

locale apimachinery =
  fixes ops :: "('m, 'l, 'x) apimeta"
    and metaCells :: "(addr \<Rightarrow> 'x) \<Rightarrow> 'm \<Rightarrow> addr set" and metaVal :: "(addr \<Rightarrow> 'x) \<Rightarrow> 'm \<Rightarrow> ObjectMeta"
    and listCells :: "(addr \<Rightarrow> 'x) \<Rightarrow> 'l \<Rightarrow> addr set" and listVal :: "(addr \<Rightarrow> 'x) \<Rightarrow> 'l \<Rightarrow> 'lv"
  assumes meta_copy: "am_ObjectMeta ops m e n = (m', e', n') \<Longrightarrow> metaCells e m \<subseteq> {..<n} \<Longrightarrow>
      n \<le> n' \<and> (\<forall>a<n. e' a = e a) \<and> metaCells e' m' \<subseteq> {n..<n'} \<and> metaVal e' m' = metaVal e m"
    and meta_frame: "(\<And>a. a \<in> metaCells e m \<Longrightarrow> e' a = e a) \<Longrightarrow> metaCells e' m = metaCells e m \<and> metaVal e' m = metaVal e m"
    and list_copy: "am_ListMeta ops lm e n = (lm', e', n') \<Longrightarrow> listCells e lm \<subseteq> {..<n} \<Longrightarrow>
      n \<le> n' \<and> (\<forall>a<n. e' a = e a) \<and> listCells e' lm' \<subseteq> {n..<n'} \<and> listVal e' lm' = listVal e lm"
    and list_frame: "(\<And>a. a \<in> listCells e lm \<Longrightarrow> e' a = e a) \<Longrightarrow> listCells e' lm = listCells e lm \<and> listVal e' lm = listVal e lm"
    and condition_copy: "am_Condition ops c = c"
    and time_copy: "am_Time ops t = t"

section \<open>Places that do not overlap\<close>

text \<open>Two places of one type, the second of which is allocated (\<open>ok\<close>): assigning to it changes neither the
  first nor the memory behind slices.\<close>

locale copy_site =
  fixes inn out :: "(('m, 'l, 'x) heap, 'v) loc" and ok :: "('m, 'l, 'x) heap \<Rightarrow> bool"
  assumes get_put [simp]: "ok h \<Longrightarrow> loc_get out (loc_put out v h) = v"
    and get_in [simp]: "ok h \<Longrightarrow> loc_get inn (loc_put out v h) = loc_get inn h"
    and put_put [simp]: "ok h \<Longrightarrow> loc_put out v (loc_put out v' h) = loc_put out v h"
    and ok_put [simp]: "ok h \<Longrightarrow> ok (loc_put out v h)"
    and mem_put [simp]: "hp_conds (loc_put out v h) = hp_conds h" "hp_lim (loc_put out v h) = hp_lim h"
      "hp_ext (loc_put out v h) = hp_ext h"
    and ok_mem [simp]: "ok (h\<lparr>hp_conds := c\<rparr>) = ok h" "ok (h\<lparr>hp_lim := n\<rparr>) = ok h" "ok (h\<lparr>hp_ext := e\<rparr>) = ok h"
    and in_mem [simp]: "loc_get inn (h\<lparr>hp_conds := c\<rparr>) = loc_get inn h" "loc_get inn (h\<lparr>hp_lim := n\<rparr>) = loc_get inn h"
      "loc_get inn (h\<lparr>hp_ext := e\<rparr>) = loc_get inn h"
    and out_mem [simp]: "loc_get out (h\<lparr>hp_conds := c\<rparr>) = loc_get out h" "loc_get out (h\<lparr>hp_lim := n\<rparr>) = loc_get out h"
      "loc_get out (h\<lparr>hp_ext := e\<rparr>) = loc_get out h"
    and put_mem: "loc_put out v (h\<lparr>hp_conds := c\<rparr>) = (loc_put out v h)\<lparr>hp_conds := c\<rparr>"
      "loc_put out v (h\<lparr>hp_lim := n\<rparr>) = (loc_put out v h)\<lparr>hp_lim := n\<rparr>"
      "loc_put out v (h\<lparr>hp_ext := e\<rparr>) = (loc_put out v h)\<lparr>hp_ext := e\<rparr>"

text \<open>The two kinds of places the functions copy between: statuses, and SecretSyncs, whose statuses are such
  places in turn.\<close>

locale status_site = copy_site inn out ok
  for inn out :: "(('m, 'l, 'x) heap, StatusMem) loc" and ok :: "('m, 'l, 'x) heap \<Rightarrow> bool"
begin

lemma copyConditions_run:
  assumes "ok h" and "sm_Conditions (loc_get inn h) = Some s"
    and "sm_Conditions (loc_get out h) = Some \<lparr>sl_addr = a, sl_off = 0, sl_len = n\<rparr>"
    and "sl_addr s \<noteq> a" and "length (hp_conds h a) = n" and "i + k = n"
  shows "run_state (copyConditions ops (conditionsField inn) (conditionsField out) i k) h =
    ((), h\<lparr>hp_conds := (hp_conds h)(a := take i (hp_conds h a) @ map (\<lambda>j. am_Condition ops (condAt h s j)) [i..<n])\<rparr>)"
  using assms
proof (induction k arbitrary: i h)
  case 0
  then show ?case by simp
next
  case (Suc k)
  let ?h = "h\<lparr>hp_conds := (hp_conds h)(a := (hp_conds h a)[i := am_Condition ops (condAt h s i)])\<rparr>"
  have "i < n" using Suc.prems(6) by simp
  then have upt: "[i..<n] = i # [Suc i..<n]" and
    tk: "take (Suc i) ((hp_conds h a)[i := x]) = take i (hp_conds h a) @ [x]" for x
    using Suc.prems(5) by (simp_all add: upt_conv_Cons take_Suc_conv_app_nth)
  have same: "condAt ?h s j = condAt h s j" for j using Suc.prems(4) by (simp add: condAt_def)
  have "run_state (copyConditions ops (conditionsField inn) (conditionsField out) i (Suc k)) h =
      run_state (copyConditions ops (conditionsField inn) (conditionsField out) (Suc i) k) ?h"
    using Suc.prems(2,3) by (simp add: conditionsField_def Let_def)
  also have "\<dots> = ((), ?h\<lparr>hp_conds := (hp_conds ?h)(a := take (Suc i) (hp_conds ?h a)
        @ map (\<lambda>j. am_Condition ops (condAt ?h s j)) [Suc i..<n])\<rparr>)"
    by (rule Suc.IH) (use Suc.prems in simp_all)
  also have "?h\<lparr>hp_conds := (hp_conds ?h)(a := take (Suc i) (hp_conds ?h a)
        @ map (\<lambda>j. am_Condition ops (condAt ?h s j)) [Suc i..<n])\<rparr> =
      h\<lparr>hp_conds := (hp_conds h)(a := take i (hp_conds h a) @ map (\<lambda>j. am_Condition ops (condAt h s j)) [i..<n])\<rparr>"
    unfolding same upt by (rule heap.equality) (simp_all add: tk)
  finally show ?case .
qed

text \<open>The status a copy is, the array of conditions it points to, and the limit after it.\<close>

abbreviation copiedStatus where
  "copiedStatus ops h \<equiv> (let v = (loc_get inn h)\<lparr>sm_LastSyncTime := am_Time ops (sm_LastSyncTime (loc_get inn h))\<rparr> in
     case sm_Conditions v of
       None \<Rightarrow> loc_put out v h
     | Some s \<Rightarrow> (loc_put out (v\<lparr>sm_Conditions := Some \<lparr>sl_addr = hp_lim h, sl_off = 0, sl_len = sl_len s\<rparr>\<rparr>) h)
         \<lparr>hp_conds := (hp_conds h)(hp_lim h := map (\<lambda>j. am_Condition ops (condAt h s j)) [0..<sl_len s]),
          hp_lim := Suc (hp_lim h)\<rparr>)"

lemma DeepCopyInto_run:
  assumes "ok h" and "validStatus h (loc_get inn h)"
  shows "run_state (SecretSyncStatus_DeepCopyInto ops inn out) h = ((), copiedStatus ops h)"
proof (cases "sm_Conditions (loc_get inn h)")
  case None
  with assms(1) show ?thesis by (simp add: SecretSyncStatus_DeepCopyInto_def assign_def)
next
  case (Some s)
  let ?v = "(loc_get inn h)\<lparr>sm_LastSyncTime := am_Time ops (sm_LastSyncTime (loc_get inn h)),
    sm_Conditions := Some \<lparr>sl_addr = hp_lim h, sl_off = 0, sl_len = sl_len s\<rparr>\<rparr>"
  let ?h = "(loc_put out ?v h)\<lparr>hp_conds := (hp_conds h)(hp_lim h := replicate (sl_len s) zeroCondition), hp_lim := Suc (hp_lim h)\<rparr>"
  have "sl_addr s \<noteq> hp_lim h" using assms(2) Some by (auto simp: validStatus_def windowed_def)
  then have same: "condAt ?h s j = condAt h s j" for j by (simp add: condAt_def)
  have "run_state (copyConditions ops (conditionsField inn) (conditionsField out) 0 (sl_len s)) ?h =
      ((), ?h\<lparr>hp_conds := (hp_conds ?h)(hp_lim h := take 0 (hp_conds ?h (hp_lim h))
        @ map (\<lambda>j. am_Condition ops (condAt ?h s j)) [0..<sl_len s])\<rparr>)"
    by (rule copyConditions_run) (use assms(1) Some \<open>sl_addr s \<noteq> hp_lim h\<close> in \<open>simp_all\<close>)
  then show ?thesis
    using assms(1) Some
    by (simp add: SecretSyncStatus_DeepCopyInto_def assign_def conditionsField_def make_conds_def fresh_def put_mem same heap_comm)
qed

end

locale sync_site = copy_site inn out ok
  for inn out :: "(('m, 'l, 'x) heap, 'm SyncMem) loc" and ok :: "('m, 'l, 'x) heap \<Rightarrow> bool"

sublocale sync_site \<subseteq> status: status_site "statusField inn" "statusField out" ok
  by unfold_locales (simp_all add: statusField_def put_mem)

context sync_site
begin

lemma copied_status:
  assumes "validStatus h (mem_Status (loc_get inn h))" and "\<And>c. am_Condition ops c = c" and "\<And>t. am_Time ops t = t"
    and "ok h" and "mem_Status (loc_get inn h) = v"
  shows "\<exists>v' c n. status.copiedStatus ops h = (loc_put (statusField out) v' h)\<lparr>hp_conds := c, hp_lim := n\<rparr>
    \<and> hp_lim h \<le> n \<and> (\<forall>a<hp_lim h. c a = hp_conds h a)
    \<and> denotedStatus (h\<lparr>hp_conds := c, hp_lim := n\<rparr>) v' = denotedStatus h v
    \<and> (sm_Conditions v' = None \<longleftrightarrow> sm_Conditions v = None)
    \<and> (\<forall>s. sm_Conditions v' = Some s \<longrightarrow> hp_lim h \<le> sl_addr s \<and> sl_addr s < n)"
proof (cases "sm_Conditions v")
  case None
  with assms show ?thesis
    by (intro exI [of _ v] exI [of _ "hp_conds h"] exI [of _ "hp_lim h"]) (simp add: statusField_def denotedStatus_def conditionsOf_def)
next
  case (Some s)
  let ?v = "v\<lparr>sm_Conditions := Some \<lparr>sl_addr = hp_lim h, sl_off = 0, sl_len = sl_len s\<rparr>\<rparr>"
  let ?c = "(hp_conds h)(hp_lim h := map (condAt h s) [0..<sl_len s])"
  have "map (condAt (h\<lparr>hp_conds := ?c, hp_lim := Suc (hp_lim h)\<rparr>) \<lparr>sl_addr = hp_lim h, sl_off = 0, sl_len = sl_len s\<rparr>)
      [0..<sl_len s] = map (condAt h s) [0..<sl_len s]"
    by (auto simp: condAt_def)
  with Some assms show ?thesis
    by (intro exI [of _ ?v] exI [of _ ?c] exI [of _ "Suc (hp_lim h)"])
      (simp add: statusField_def denotedStatus_def conditionsOf_def Let_def)
qed

lemma SecretSync_run:
  assumes "apimachinery ops metaCells metaVal listCells listVal" and "ok h"
    and "metaCells (hp_ext h) (mem_ObjectMeta (loc_get inn h)) \<subseteq> {..<hp_lim h}"
    and "validStatus h (mem_Status (loc_get inn h))"
  shows "\<exists>v' c e n. run_state (SecretSync_DeepCopyInto ops inn out) h = ((), (loc_put out v' h)\<lparr>hp_conds := c, hp_ext := e, hp_lim := n\<rparr>)
    \<and> grown h (h\<lparr>hp_conds := c, hp_ext := e, hp_lim := n\<rparr>)
    \<and> copied metaCells metaVal h (loc_get inn h) (h\<lparr>hp_conds := c, hp_ext := e, hp_lim := n\<rparr>) v'"
proof -
  note am = apimachinery.meta_copy [OF assms(1)] apimachinery.condition_copy [OF assms(1)] apimachinery.time_copy [OF assms(1)]
  let ?v = "loc_get inn h"
  obtain m e n where m: "am_ObjectMeta ops (mem_ObjectMeta ?v) (hp_ext h) (hp_lim h) = (m, e, n)"
    by (metis prod_cases3)
  from am(1) [OF this assms(3)] have e: "hp_lim h \<le> n" "\<forall>a<hp_lim h. e a = hp_ext h a" "metaCells e m \<subseteq> {hp_lim h..<n}"
    "metaVal e m = metaVal (hp_ext h) (mem_ObjectMeta ?v)" by blast+
  let ?h = "(loc_put out (?v\<lparr>mem_ObjectMeta := m\<rparr>) h)\<lparr>hp_ext := e, hp_lim := n\<rparr>"
  have ok: "ok ?h" and v: "mem_Status (loc_get inn ?h) = mem_Status ?v" using assms(2) by simp_all
  have valid: "validStatus ?h (mem_Status (loc_get inn ?h))"
    using assms(4) e(1) v by (auto simp: validStatus_def windowed_def split: option.splits)
  obtain v' c n' where s: "status.copiedStatus ops ?h = (loc_put (statusField out) v' ?h)\<lparr>hp_conds := c, hp_lim := n'\<rparr>"
      "n \<le> n'" "\<forall>a<n. c a = hp_conds h a" "denotedStatus (?h\<lparr>hp_conds := c, hp_lim := n'\<rparr>) v' = denotedStatus ?h (mem_Status ?v)"
      "sm_Conditions v' = None \<longleftrightarrow> sm_Conditions (mem_Status ?v) = None"
      "\<forall>s. sm_Conditions v' = Some s \<longrightarrow> n \<le> sl_addr s \<and> sl_addr s < n'"
    using copied_status [OF valid am(2,3) ok v] by auto
  have "run_state (SecretSync_DeepCopyInto ops inn out) h =
      run_state (SecretSyncStatus_DeepCopyInto ops (statusField inn) (statusField out)) ?h"
    using assms(2) m by (simp add: SecretSync_DeepCopyInto_def assign_def put_mem)
  also have "\<dots> = ((), status.copiedStatus ops ?h)"
    by (rule status.DeepCopyInto_run) (use ok valid in \<open>simp_all add: statusField_def\<close>)
  also have "status.copiedStatus ops ?h = (loc_put out (?v\<lparr>mem_ObjectMeta := m, mem_Status := v'\<rparr>) h)
      \<lparr>hp_conds := c, hp_ext := e, hp_lim := n'\<rparr>"
    unfolding s(1) using assms(2) by (simp add: statusField_def put_mem heap_comm)
  finally show ?thesis
    using e s(2-6)
    by (intro exI [of _ "?v\<lparr>mem_ObjectMeta := m, mem_Status := v'\<rparr>"] exI [of _ c] exI [of _ e] exI [of _ n'])
      (auto simp: grown_def copied_def denotedStatus_def conditionsOf_def condAt_def [abs_def] split: option.splits)
qed

end

section \<open>The places of the code\<close>

text \<open>Two positions are places that do not overlap when they differ and the second exists.\<close>

definition apart :: "(('m, 'l, 'x) heap \<Rightarrow> addr \<Rightarrow> 'v list) \<Rightarrow> pointer \<Rightarrow> pointer \<Rightarrow> ('m, 'l, 'x) heap \<Rightarrow> bool" where
  "apart arr p q h \<longleftrightarrow> p \<noteq> q \<and> snd q < length (arr h (fst q))"

interpretation sync_places: sync_site "syncLoc p" "syncLoc q" "apart hp_syncs p q" for p q
  by unfold_locales (auto simp: syncLoc_def apart_def prod_eq_iff nth_list_update)

interpretation status_places: status_site "statusLoc p" "statusLoc q" "apart hp_statuses p q" for p q
  by unfold_locales (auto simp: statusLoc_def apart_def prod_eq_iff nth_list_update)

text \<open>The lists live in a map of their own.\<close>

interpretation list_places: copy_site "listLoc p" "listLoc q" "apart hp_lists p q" for p q
  by unfold_locales (auto simp: listLoc_def apart_def prod_eq_iff nth_list_update)

section \<open>Values depend on their cells only\<close>

lemma agree_mono: "agree A h h' \<Longrightarrow> B \<subseteq> A \<Longrightarrow> agree B h h'"
  by (auto simp: agree_def)

lemma agree_trans: "agree A h h' \<Longrightarrow> agree A h' h'' \<Longrightarrow> agree A h h''"
  by (simp add: agree_def)

lemma denotedStatus_frame:
  assumes "\<And>a. a \<in> sliceCells (sm_Conditions v) \<Longrightarrow> hp_conds h' a = hp_conds h a"
  shows "denotedStatus h' v = denotedStatus h v"
  using assms
  by (cases "sm_Conditions v") (auto simp: denotedStatus_def conditionsOf_def condAt_def [abs_def] sliceCells_def)

lemma grown_trans: "grown h h' \<Longrightarrow> grown h' h'' \<Longrightarrow> grown h h''"
  by (auto simp: grown_def)

lemma validStatus_cells: "validStatus h v \<Longrightarrow> sliceCells (sm_Conditions v) \<subseteq> {..<hp_lim h}"
  by (auto simp: validStatus_def windowed_def sliceCells_def split: option.splits)

lemma validStatus_grown: "validStatus h v \<Longrightarrow> grown h h' \<Longrightarrow> validStatus h' v"
  by (auto simp: validStatus_def windowed_def grown_def split: option.splits)

context apimachinery
begin

lemma sync_frame:
  assumes "agree (syncCells metaCells h p) h h'"
  shows "denotedSync metaVal h' p = denotedSync metaVal h p" "syncCells metaCells h' p = syncCells metaCells h p"
proof -
  let ?v = "loc_get (syncLoc p) h"
  have v: "loc_get (syncLoc p) h' = ?v" using assms by (simp add: agree_def syncCells_def syncLoc_def Let_def)
  have ext: "hp_ext h' a = hp_ext h a" if "a \<in> metaCells (hp_ext h) (mem_ObjectMeta ?v)" for a
    using assms that by (simp add: agree_def syncCells_def Let_def)
  have "denotedStatus h' (mem_Status ?v) = denotedStatus h (mem_Status ?v)"
    by (rule denotedStatus_frame) (use assms in \<open>simp add: agree_def syncCells_def Let_def\<close>)
  with meta_frame [of "hp_ext h" "mem_ObjectMeta ?v" "hp_ext h'", OF ext] v
  show "denotedSync metaVal h' p = denotedSync metaVal h p" "syncCells metaCells h' p = syncCells metaCells h p"
    by (simp_all add: denotedSync_def syncCells_def Let_def)
qed

lemma list_frame_at:
  assumes "agree (listCellsAt metaCells listCells h p) h h'"
  shows "denotedList metaVal listVal h' p = denotedList metaVal listVal h p"
proof -
  let ?v = "loc_get (listLoc p) h"
  have v: "loc_get (listLoc p) h' = ?v" using assms by (simp add: agree_def listCellsAt_def listLoc_def Let_def)
  have ext: "hp_ext h' a = hp_ext h a" if "a \<in> listCells (hp_ext h) (sl_ListMeta ?v)" for a
    using assms that by (simp add: agree_def listCellsAt_def Let_def)
  have "denotedSync metaVal h' (element s i) = denotedSync metaVal h (element s i)" if "sl_Items ?v = Some s" "i < sl_len s" for s i
    by (rule sync_frame(1), rule agree_mono [OF assms]) (use that in \<open>auto simp: listCellsAt_def Let_def\<close>)
  with list_frame [of "hp_ext h" "sl_ListMeta ?v" "hp_ext h'", OF ext] v show ?thesis
    by (cases "sl_Items ?v") (simp_all add: denotedList_def Let_def)
qed

lemma validSync_cells: "validSync metaCells h p \<Longrightarrow> syncCells metaCells h p \<subseteq> {..<hp_lim h}"
  using validStatus_cells [of h] by (auto simp: validSync_def syncCells_def Let_def)

text \<open>A copy stays one while memory grows, and is one of what the original was before it grew.\<close>

lemma copied_later:
  assumes "copied metaCells metaVal h v h' v'" and "grown h' h''"
  shows "copied metaCells metaVal h v h'' v'"
proof -
  have "metaCells (hp_ext h'') (mem_ObjectMeta v') = metaCells (hp_ext h') (mem_ObjectMeta v')
      \<and> metaVal (hp_ext h'') (mem_ObjectMeta v') = metaVal (hp_ext h') (mem_ObjectMeta v')"
    by (rule meta_frame) (use assms in \<open>auto simp: copied_def grown_def\<close>)
  moreover have "denotedStatus h'' (mem_Status v') = denotedStatus h' (mem_Status v')"
    by (rule denotedStatus_frame) (use assms in \<open>auto simp: copied_def grown_def sliceCells_def split: option.splits\<close>)
  ultimately show ?thesis using assms by (force simp: copied_def grown_def)
qed

lemma copied_earlier:
  assumes "copied metaCells metaVal h' v h'' v'" and "grown h h'"
    and "metaCells (hp_ext h) (mem_ObjectMeta v) \<subseteq> {..<hp_lim h}" and "validStatus h (mem_Status v)"
  shows "copied metaCells metaVal h v h'' v'"
proof -
  have "metaVal (hp_ext h') (mem_ObjectMeta v) = metaVal (hp_ext h) (mem_ObjectMeta v)"
    by (rule conjunct2 [OF meta_frame]) (use assms(2,3) in \<open>auto simp: grown_def\<close>)
  moreover have "denotedStatus h' (mem_Status v) = denotedStatus h (mem_Status v)"
    by (rule denotedStatus_frame) (use assms(2) validStatus_cells [OF assms(4)] in \<open>auto simp: grown_def\<close>)
  ultimately show ?thesis using assms(1,2) by (force simp: copied_def grown_def)
qed

lemma validSync_grown:
  assumes "validSync metaCells h p" and "grown h h'" and "hp_syncs h' (fst p) = hp_syncs h (fst p)"
  shows "validSync metaCells h' p"
proof -
  let ?v = "loc_get (syncLoc p) h"
  have v: "loc_get (syncLoc p) h' = ?v" using assms(3) by (simp add: syncLoc_def)
  have "metaCells (hp_ext h') (mem_ObjectMeta ?v) = metaCells (hp_ext h) (mem_ObjectMeta ?v)"
    by (rule conjunct1 [OF meta_frame]) (use assms(1,2) in \<open>auto simp: grown_def validSync_def\<close>)
  with assms v show ?thesis using validStatus_grown [OF _ assms(2)] by (auto simp: validSync_def grown_def)
qed

text \<open>A pointer at a copied struct.\<close>

lemma copied_between:
  assumes "validSync metaCells h p" and "grown h h1" and "grown h2 h3"
    and "copied metaCells metaVal h1 (loc_get (syncLoc p) h) h2 w"
  shows "copied metaCells metaVal h (loc_get (syncLoc p) h) h3 w"
  using assms(1) copied_earlier [OF copied_later [OF assms(4,3)] assms(2)] unfolding validSync_def by blast

lemma copied_denotes:
  assumes "copied metaCells metaVal h v h' v'" and "loc_get (syncLoc p) h = v" and "loc_get (syncLoc q) h' = v'"
  shows "denotedSync metaVal h' q = denotedSync metaVal h p"
  using assms by (auto simp: copied_def denotedSync_def Let_def)

lemma copied_cells:
  assumes "copied metaCells metaVal h v h' v'" and "loc_get (syncLoc q) h' = v'" and "fst q \<in> {n..<hp_lim h'}" and "n \<le> hp_lim h"
  shows "syncCells metaCells h' q \<subseteq> {n..<hp_lim h'}"
  using assms by (auto simp: copied_def syncCells_def Let_def sliceCells_def split: option.splits)

end

section \<open>Structs without references\<close>

interpretation spec_places: copy_site "specLoc p" "specLoc q" "apart hp_specs p q" for p q
  by unfold_locales (auto simp: specLoc_def apart_def prod_eq_iff nth_list_update)

interpretation target_places: copy_site "targetLoc p" "targetLoc q" "apart hp_targets p q" for p q
  by unfold_locales (auto simp: targetLoc_def apart_def prod_eq_iff nth_list_update)

interpretation vault_places: copy_site "vaultLoc p" "vaultLoc q" "apart hp_vaults p q" for p q
  by unfold_locales (auto simp: vaultLoc_def apart_def prod_eq_iff nth_list_update)

lemma VaultSpec_DeepCopy_copies:
  assumes "fst p < hp_lim h"
  shows "\<exists>h'. run_state (VaultSpec_DeepCopy (Some p)) h = (Some (hp_lim h, 0), h')
    \<and> deepCopied (\<lambda>h p. loc_get (vaultLoc p) h) h p h' (hp_lim h, 0)"
  using assms
  by (auto simp: VaultSpec_DeepCopy_def VaultSpec_DeepCopyInto_def fresh_def assign_def vaultLoc_def deepCopied_def agree_def)

lemma TargetSpec_DeepCopy_copies:
  assumes "fst p < hp_lim h"
  shows "\<exists>h'. run_state (TargetSpec_DeepCopy (Some p)) h = (Some (hp_lim h, 0), h')
    \<and> deepCopied (\<lambda>h p. loc_get (targetLoc p) h) h p h' (hp_lim h, 0)"
  using assms
  by (auto simp: TargetSpec_DeepCopy_def TargetSpec_DeepCopyInto_def fresh_def assign_def targetLoc_def deepCopied_def agree_def)

lemma SecretSyncSpec_DeepCopy_copies:
  assumes "fst p < hp_lim h"
  shows "\<exists>h'. run_state (SecretSyncSpec_DeepCopy (Some p)) h = (Some (hp_lim h, 0), h')
    \<and> deepCopied (\<lambda>h p. loc_get (specLoc p) h) h p h' (hp_lim h, 0)"
  using assms
  by (auto simp: SecretSyncSpec_DeepCopy_def SecretSyncSpec_DeepCopyInto_def fresh_def assign_def specLoc_def deepCopied_def agree_def)

section \<open>A status is copied\<close>

lemma SecretSyncStatus_DeepCopy_copies:
  assumes "\<And>c. am_Condition ops c = c" and "\<And>t. am_Time ops t = t"
    and "fst p < hp_lim h" and "validStatus h (loc_get (statusLoc p) h)"
  shows "\<exists>h'. run_state (SecretSyncStatus_DeepCopy ops (Some p)) h = (Some (hp_lim h, 0), h')
    \<and> deepCopied (\<lambda>h p. denotedStatus h (loc_get (statusLoc p) h)) h p h' (hp_lim h, 0)"
proof -
  let ?a = "hp_lim h" and ?v = "loc_get (statusLoc p) h"
  let ?h = "h\<lparr>hp_lim := Suc ?a, hp_statuses := (hp_statuses h)(?a := [zeroStatusMem])\<rparr>"
  have v: "loc_get (statusLoc p) ?h = ?v" using assms(3) by (simp add: statusLoc_def)
  have valid: "validStatus ?h (loc_get (statusLoc p) ?h)"
    unfolding v by (rule validStatus_grown [OF assms(4)]) (simp add: grown_def)
  have ok: "apart hp_statuses p (?a, 0) ?h" using assms(3) by (auto simp: apart_def)
  obtain h' where run: "run_state (SecretSyncStatus_DeepCopyInto ops (statusLoc p) (statusLoc (?a, 0))) ?h = ((), h')"
      and h': "h' = status_places.copiedStatus p (?a, 0) ops ?h"
    using status_places.DeepCopyInto_run [OF ok valid, of ops] by blast
  let ?s = "\<lambda>s. \<lparr>sl_addr = Suc ?a, sl_off = 0, sl_len = sl_len s\<rparr>"
  have cells: "sliceCells (sm_Conditions ?v) \<subseteq> {..<?a}" by (rule validStatus_cells [OF assms(4)])
  have new: "loc_get (statusLoc (?a, 0)) h' = ?v\<lparr>sm_Conditions := map_option ?s (sm_Conditions ?v)\<rparr>"
    and frame: "agree {..<?a} h h'" and lim: "hp_lim h' = (if sm_Conditions ?v = None then Suc ?a else Suc (Suc ?a))"
    and conds: "\<And>s. sm_Conditions ?v = Some s \<Longrightarrow> hp_conds h' (Suc ?a) = map (condAt h s) [0..<sl_len s]"
    using assms(1,2) v unfolding h'
    by (cases "sm_Conditions ?v"; auto simp: statusLoc_def agree_def condAt_def [abs_def] Let_def)+
  have same: "denotedStatus h' (?v\<lparr>sm_Conditions := map_option ?s (sm_Conditions ?v)\<rparr>) = denotedStatus h ?v"
    using conds by (cases "sm_Conditions ?v") (auto simp: denotedStatus_def conditionsOf_def condAt_def)
  have "deepCopied (\<lambda>h p. denotedStatus h (loc_get (statusLoc p) h)) h p h' (?a, 0)"
    unfolding deepCopied_def
  proof (intro conjI allI impI)
    show "denotedStatus h' (loc_get (statusLoc (?a, 0)) h') = denotedStatus h ?v" using same new by simp
    show "denotedStatus h2 (loc_get (statusLoc p) h2) = denotedStatus h ?v" if "agree {..<?a} h' h2" for h2
    proof -
      have both: "agree {..<?a} h h2" by (rule agree_trans [OF frame that])
      then have "loc_get (statusLoc p) h2 = ?v" using assms(3) by (simp add: agree_def statusLoc_def)
      moreover have "denotedStatus h2 ?v = denotedStatus h ?v"
        by (rule denotedStatus_frame) (use both cells in \<open>auto simp: agree_def\<close>)
      ultimately show ?thesis by simp
    qed
    show "denotedStatus h2 (loc_get (statusLoc (?a, 0)) h2) = denotedStatus h ?v" if "agree {?a..<hp_lim h'} h' h2" for h2
    proof -
      have "loc_get (statusLoc (?a, 0)) h2 = loc_get (statusLoc (?a, 0)) h'" using that lim by (simp add: agree_def statusLoc_def)
      moreover have "denotedStatus h2 (loc_get (statusLoc (?a, 0)) h') = denotedStatus h' (loc_get (statusLoc (?a, 0)) h')"
        by (rule denotedStatus_frame) (use that lim new in \<open>auto simp: agree_def sliceCells_def split: option.splits if_splits\<close>)
      ultimately show ?thesis using same new by simp
    qed
  qed (use frame in simp_all)
  moreover have "run_state (SecretSyncStatus_DeepCopy ops (Some p)) h = (Some (?a, 0), h')"
    using run by (simp add: SecretSyncStatus_DeepCopy_def fresh_def)
  ultimately show ?thesis by blast
qed

section \<open>A SecretSync is copied\<close>

context apimachinery
begin

lemma deepCopiedI:
  assumes "den h' p' = den h p" and "hp_lim h \<le> fst p'" and "agree {..<hp_lim h} h h'"
    and "\<And>h2. agree {..<hp_lim h} h h2 \<Longrightarrow> den h2 p = den h p"
    and "\<And>h2. agree {hp_lim h..<hp_lim h'} h' h2 \<Longrightarrow> den h2 p' = den h' p'"
  shows "deepCopied den h p h' p'"
  using assms agree_trans [of "{..<hp_lim h}" h h'] by (auto simp: deepCopied_def)

lemma SecretSync_DeepCopy_copies:
  assumes "validSync metaCells h p"
  shows "\<exists>p' h'. run_state (SecretSync_DeepCopy ops (Some p)) h = (Some p', h')
    \<and> deepCopied (denotedSync metaVal) h p h' p'"
proof -
  let ?a = "hp_lim h" and ?v = "loc_get (syncLoc p) h"
  let ?h = "h\<lparr>hp_lim := Suc ?a, hp_syncs := (hp_syncs h)(?a := [zeroSyncMem ops])\<rparr>"
  have v: "loc_get (syncLoc p) ?h = ?v" and ok: "apart hp_syncs p (?a, 0) ?h"
    using assms by (auto simp: validSync_def syncLoc_def apart_def)
  have grow: "grown h ?h" by (simp add: grown_def)
  have "validSync metaCells ?h p"
    by (rule validSync_grown [OF assms grow]) (use assms in \<open>simp add: validSync_def\<close>)
  then have valid: "metaCells (hp_ext ?h) (mem_ObjectMeta (loc_get (syncLoc p) ?h)) \<subseteq> {..<hp_lim ?h}"
      "validStatus ?h (mem_Status (loc_get (syncLoc p) ?h))"
    unfolding validSync_def by blast+
  obtain v' c e n where run: "run_state (SecretSync_DeepCopyInto ops (syncLoc p) (syncLoc (?a, 0))) ?h =
        ((), (loc_put (syncLoc (?a, 0)) v' ?h)\<lparr>hp_conds := c, hp_ext := e, hp_lim := n\<rparr>)"
      and g: "grown ?h (?h\<lparr>hp_conds := c, hp_ext := e, hp_lim := n\<rparr>)"
      and cp: "copied metaCells metaVal ?h ?v (?h\<lparr>hp_conds := c, hp_ext := e, hp_lim := n\<rparr>) v'"
    using sync_places.SecretSync_run [OF apimachinery_axioms ok valid] unfolding v by blast
  let ?h' = "(loc_put (syncLoc (?a, 0)) v' ?h)\<lparr>hp_conds := c, hp_ext := e, hp_lim := n\<rparr>"
  have v': "loc_get (syncLoc (?a, 0)) ?h' = v'" by (simp add: syncLoc_def)
  have cp': "copied metaCells metaVal ?h ?v ?h' v'"
    by (rule copied_later [OF cp]) (simp add: grown_def syncLoc_def)
  have "copied metaCells metaVal h ?v ?h' v'"
    using copied_earlier [OF cp' grow] assms by (simp add: validSync_def)
  note copy = this
  have "deepCopied (denotedSync metaVal) h p ?h' (?a, 0)"
  proof (rule deepCopiedI)
    show "denotedSync metaVal ?h' (?a, 0) = denotedSync metaVal h p" using copied_denotes [OF copy refl v'] .
    show "agree {..<?a} h ?h'" using g by (auto simp: agree_def grown_def syncLoc_def)
    show "denotedSync metaVal h2 p = denotedSync metaVal h p" if "agree {..<?a} h h2" for h2
      by (rule sync_frame(1), rule agree_mono [OF that validSync_cells [OF assms]])
    have "syncCells metaCells ?h' (?a, 0) \<subseteq> {?a..<hp_lim ?h'}"
      by (rule copied_cells [OF copy v']) (use g in \<open>simp_all add: grown_def syncLoc_def\<close>)
    then show "denotedSync metaVal h2 (?a, 0) = denotedSync metaVal ?h' (?a, 0)" if "agree {?a..<hp_lim ?h'} ?h' h2" for h2
      using that by (blast intro: sync_frame(1) agree_mono)
  qed simp
  moreover have "run_state (SecretSync_DeepCopy ops (Some p)) h = (Some (?a, 0), ?h')"
    using run by (simp add: SecretSync_DeepCopy_def make_syncs_def fresh_def)
  ultimately show ?thesis by blast
qed

end

section \<open>A list is copied\<close>

context apimachinery
begin

lemma copyItem_run:
  assumes "validSync metaCells h p" and "apart hp_syncs p q h"
  obtains v c e l where "run_state (SecretSync_DeepCopyInto ops (syncLoc p) (syncLoc q)) h =
      ((), (loc_put (syncLoc q) v h)\<lparr>hp_conds := c, hp_ext := e, hp_lim := l\<rparr>)"
    "grown h (h\<lparr>hp_conds := c, hp_ext := e, hp_lim := l\<rparr>)"
    "copied metaCells metaVal h (loc_get (syncLoc p) h) (h\<lparr>hp_conds := c, hp_ext := e, hp_lim := l\<rparr>) v"
proof -
  have "metaCells (hp_ext h) (mem_ObjectMeta (loc_get (syncLoc p) h)) \<subseteq> {..<hp_lim h}"
      "validStatus h (mem_Status (loc_get (syncLoc p) h))"
    using assms(1) unfolding validSync_def by blast+
  from sync_places.SecretSync_run [OF apimachinery_axioms assms(2) this] that show thesis by blast
qed

text \<open>The copies of the first item and of the others, seen from the memory before and after them.\<close>

lemma copied_Cons:
  assumes "\<And>j. j < Suc k \<Longrightarrow> validSync metaCells h (element s (i + j))" and "grown h h1"
    and "copied metaCells metaVal h (loc_get (syncLoc (element s i)) h) h1' v" and "grown h1' h'" and "grown h2 h'"
    and "\<And>j. loc_get (syncLoc (element s j)) h1 = loc_get (syncLoc (element s j)) h"
    and "\<And>j. j < k \<Longrightarrow> copied metaCells metaVal h1 (loc_get (syncLoc (element s (Suc i + j))) h1) h2 (vs ! j)"
  shows "\<forall>j<Suc k. copied metaCells metaVal h (loc_get (syncLoc (element s (i + j))) h) h' ((v # vs) ! j)"
proof (intro allI impI)
  fix j
  assume j: "j < Suc k"
  show "copied metaCells metaVal h (loc_get (syncLoc (element s (i + j))) h) h' ((v # vs) ! j)"
  proof (cases j)
    case 0
    with copied_later [OF assms(3,4)] show ?thesis by simp
  next
    case (Suc m)
    with j assms(7) [of m] have "copied metaCells metaVal h1 (loc_get (syncLoc (element s (i + j))) h) h2 (vs ! m)"
      by (simp add: assms(6))
    from copied_between [OF assms(1) [OF j] assms(2,5) this] Suc show ?thesis by simp
  qed
qed

text \<open>The loop over the items, from index \<open>i\<close> on: the array \<open>a\<close> of the copy is filled with copies, and nothing else
  that was allocated changes.\<close>

lemma copyItems_copies:
  assumes "loc_get inn h = Some s" and "loc_get out h = Some \<lparr>sl_addr = a, sl_off = 0, sl_len = n\<rparr>"
    and "\<And>h2. hp_lists h2 = hp_lists h \<Longrightarrow> loc_get inn h2 = loc_get inn h \<and> loc_get out h2 = loc_get out h"
    and "sl_addr s \<noteq> a" and "length (hp_syncs h a) = n" and "i + k = n"
    and "\<And>j. j < n \<Longrightarrow> validSync metaCells h (element s j)"
  shows "\<exists>vs c e l. run_state (copyItems ops inn out i k) h =
      ((), h\<lparr>hp_syncs := (hp_syncs h)(a := take i (hp_syncs h a) @ vs), hp_conds := c, hp_ext := e, hp_lim := l\<rparr>)
    \<and> length vs = k \<and> grown h (h\<lparr>hp_conds := c, hp_ext := e, hp_lim := l\<rparr>)
    \<and> (\<forall>j<k. copied metaCells metaVal h (loc_get (syncLoc (element s (i + j))) h)
          (h\<lparr>hp_conds := c, hp_ext := e, hp_lim := l\<rparr>) (vs ! j))"
  using assms
proof (induction k arbitrary: i h)
  case 0
  from 0(5,6) show ?case
    by (intro exI [of _ "[]"] exI [of _ "hp_conds h"] exI [of _ "hp_ext h"] exI [of _ "hp_lim h"]) (auto simp: grown_def)
next
  case (Suc k)
  let ?src = "element s i" and ?dst = "element \<lparr>sl_addr = a, sl_off = 0, sl_len = n\<rparr> i"
  note valids = Suc.prems(7) and total = Suc.prems(6)
  have i: "i < n" using total by simp
  have ok: "apart hp_syncs ?src ?dst h" using Suc.prems(4,5) i by (simp add: apart_def element_def)
  obtain v c e l where run: "run_state (SecretSync_DeepCopyInto ops (syncLoc ?src) (syncLoc ?dst)) h =
        ((), (loc_put (syncLoc ?dst) v h)\<lparr>hp_conds := c, hp_ext := e, hp_lim := l\<rparr>)"
      and g: "grown h (h\<lparr>hp_conds := c, hp_ext := e, hp_lim := l\<rparr>)"
      and cp: "copied metaCells metaVal h (loc_get (syncLoc ?src) h) (h\<lparr>hp_conds := c, hp_ext := e, hp_lim := l\<rparr>) v"
    using copyItem_run [OF valids [OF i] ok] .
  let ?h = "(loc_put (syncLoc ?dst) v h)\<lparr>hp_conds := c, hp_ext := e, hp_lim := l\<rparr>"
  have syncs: "hp_syncs ?h = (hp_syncs h)(a := (hp_syncs h a)[i := v])" "hp_lists ?h = hp_lists h"
    by (simp_all add: syncLoc_def element_def)
  have grow: "grown h ?h" using g by (simp add: grown_def syncLoc_def)
  have src: "loc_get (syncLoc (element s j)) ?h = loc_get (syncLoc (element s j)) h" for j
    using Suc.prems(4) by (simp add: syncLoc_def element_def)
  have "\<exists>vs c e l. run_state (copyItems ops inn out (Suc i) k) ?h =
      ((), ?h\<lparr>hp_syncs := (hp_syncs ?h)(a := take (Suc i) (hp_syncs ?h a) @ vs), hp_conds := c, hp_ext := e, hp_lim := l\<rparr>)
    \<and> length vs = k \<and> grown ?h (?h\<lparr>hp_conds := c, hp_ext := e, hp_lim := l\<rparr>)
    \<and> (\<forall>j<k. copied metaCells metaVal ?h (loc_get (syncLoc (element s (Suc i + j))) ?h)
          (?h\<lparr>hp_conds := c, hp_ext := e, hp_lim := l\<rparr>) (vs ! j))"
  proof (rule Suc.IH)
    show "validSync metaCells ?h (element s j)" if "j < n" for j
      by (rule validSync_grown [OF Suc.prems(7) [OF that] grow])
        (use Suc.prems(4) in \<open>simp add: syncLoc_def element_def\<close>)
    show "loc_get inn h2 = loc_get inn ?h \<and> loc_get out h2 = loc_get out ?h" if "hp_lists h2 = hp_lists ?h" for h2
      using Suc.prems(3) [of h2] Suc.prems(3) [of ?h] that syncs(2) by simp
  qed (use Suc.prems(1,2,4-6) Suc.prems(3) [of ?h] syncs in simp_all)
  then obtain vs c' e' l' where rest: "run_state (copyItems ops inn out (Suc i) k) ?h =
      ((), ?h\<lparr>hp_syncs := (hp_syncs ?h)(a := take (Suc i) (hp_syncs ?h a) @ vs), hp_conds := c', hp_ext := e', hp_lim := l'\<rparr>)"
    "length vs = k" "grown ?h (?h\<lparr>hp_conds := c', hp_ext := e', hp_lim := l'\<rparr>)"
    "\<And>j. j < k \<Longrightarrow> copied metaCells metaVal ?h (loc_get (syncLoc (element s (Suc i + j))) ?h)
          (?h\<lparr>hp_conds := c', hp_ext := e', hp_lim := l'\<rparr>) (vs ! j)"
    by blast
  let ?h' = "h\<lparr>hp_conds := c', hp_ext := e', hp_lim := l'\<rparr>"
  show ?case
  proof (intro exI conjI)
    have "run_state (copyItems ops inn out i (Suc k)) h = run_state (copyItems ops inn out (Suc i) k) ?h"
      using run Suc.prems(1,2) by simp
    also have "\<dots> = ((), h\<lparr>hp_syncs := (hp_syncs h)(a := take i (hp_syncs h a) @ v # vs), hp_conds := c', hp_ext := e', hp_lim := l'\<rparr>)"
      unfolding rest(1) syncs using Suc.prems(5) i
      by (auto intro!: heap.equality simp: syncLoc_def take_Suc_conv_app_nth)
    finally show "run_state (copyItems ops inn out i (Suc k)) h =
        ((), h\<lparr>hp_syncs := (hp_syncs h)(a := take i (hp_syncs h a) @ v # vs), hp_conds := c', hp_ext := e', hp_lim := l'\<rparr>)" .
    show "length (v # vs) = Suc k" using rest(2) by simp
    show "grown h ?h'" using grow rest(3) by (auto simp: grown_def)
    show "\<forall>j<Suc k. copied metaCells metaVal h (loc_get (syncLoc (element s (i + j))) h) ?h' ((v # vs) ! j)"
      by (rule copied_Cons [OF valids grow cp _ _ src rest(4)]) (use rest(3) total in \<open>auto simp: grown_def\<close>)
  qed
qed

lemma listCellsAt_subset:
  assumes "loc_get (listLoc p) h = v" and "fst p \<in> A" and "listCells (hp_ext h) (sl_ListMeta v) \<subseteq> A"
    and "\<And>s j. sl_Items v = Some s \<Longrightarrow> j < sl_len s \<Longrightarrow> syncCells metaCells h (element s j) \<subseteq> A"
  shows "listCellsAt metaCells listCells h p \<subseteq> A"
  using assms by (cases "sl_Items v") (auto simp: listCellsAt_def Let_def)

lemma validList_cells:
  assumes "validList metaCells listCells h p"
  shows "listCellsAt metaCells listCells h p \<subseteq> {..<hp_lim h}"
proof (rule listCellsAt_subset [OF refl])
  show "syncCells metaCells h (element s j) \<subseteq> {..<hp_lim h}" if "sl_Items (loc_get (listLoc p) h) = Some s" "j < sl_len s" for s j
    using assms that by (intro validSync_cells) (simp add: validList_def)
qed (use assms in \<open>simp_all add: validList_def\<close>)

lemma list_copiedI:
  assumes "validList metaCells listCells h p" and "loc_get (listLoc p) h = v" and "agree {..<hp_lim h} h h'"
    and "hp_lists h' (hp_lim h) = [v\<lparr>sl_ListMeta := m, sl_Items := items\<rparr>]" and "hp_lim h < hp_lim h'"
    and "listCells (hp_ext h') m \<subseteq> {hp_lim h..<hp_lim h'}" and "listVal (hp_ext h') m = listVal (hp_ext h) (sl_ListMeta v)"
    and "rel_option (\<lambda>s s'. sl_len s' = sl_len s \<and> (\<forall>j<sl_len s.
        denotedSync metaVal h' (element s' j) = denotedSync metaVal h (element s j)
        \<and> syncCells metaCells h' (element s' j) \<subseteq> {hp_lim h..<hp_lim h'})) (sl_Items v) items"
  shows "deepCopied (denotedList metaVal listVal) h p h' (hp_lim h, 0)"
proof (rule deepCopiedI)
  let ?q = "(hp_lim h, 0 :: nat)"
  have q: "loc_get (listLoc ?q) h' = v\<lparr>sl_ListMeta := m, sl_Items := items\<rparr>" by (simp add: listLoc_def assms(4))
  show "denotedList metaVal listVal h' ?q = denotedList metaVal listVal h p"
    using assms(2,7,8) q by (auto simp: denotedList_def Let_def elim!: option.rel_cases)
  show "denotedList metaVal listVal h2 p = denotedList metaVal listVal h p" if "agree {..<hp_lim h} h h2" for h2
    by (rule list_frame_at, rule agree_mono [OF that validList_cells [OF assms(1)]])
  have "listCellsAt metaCells listCells h' ?q \<subseteq> {hp_lim h..<hp_lim h'}"
  proof (rule listCellsAt_subset [OF q])
    fix s' j
    assume "sl_Items (v\<lparr>sl_ListMeta := m, sl_Items := items\<rparr>) = Some s'" "j < sl_len s'"
    with assms(8) show "syncCells metaCells h' (element s' j) \<subseteq> {hp_lim h..<hp_lim h'}"
      by (cases "sl_Items v") auto
  qed (use assms(5,6) in simp_all)
  then show "denotedList metaVal listVal h2 ?q = denotedList metaVal listVal h' ?q"
    if "agree {hp_lim h..<hp_lim h'} h' h2" for h2
    using that by (blast intro: list_frame_at agree_mono)
qed (use assms(3) in simp_all)

lemma item_copied:
  assumes "validSync metaCells h p" and "grown h h1" and "grown h2 h'"
    and "copied metaCells metaVal h1 (loc_get (syncLoc p) h) h2 (loc_get (syncLoc q) h')"
    and "hp_lim h \<le> fst q" and "fst q < hp_lim h'"
  shows "denotedSync metaVal h' q = denotedSync metaVal h p \<and> syncCells metaCells h' q \<subseteq> {hp_lim h..<hp_lim h'}"
proof
  note copy = copied_between [OF assms(1-4)]
  show "denotedSync metaVal h' q = denotedSync metaVal h p" by (rule copied_denotes [OF copy refl refl])
  show "syncCells metaCells h' q \<subseteq> {hp_lim h..<hp_lim h'}"
    by (rule copied_cells [OF copy refl]) (use assms(5,6) in simp_all)
qed

text \<open>The two ways through the function: \<open>m\<close>, \<open>e\<close> and \<open>n\<close> are what apimachinery's copy of the \<open>ListMeta\<close> returns.\<close>

lemma list_copies_nil:
  assumes valid: "validList metaCells listCells h p" and v: "loc_get (listLoc p) h = v" and nil: "sl_Items v = None"
    and m: "am_ListMeta ops (sl_ListMeta v) (hp_ext h) (Suc (hp_lim h)) = (m, e, n)"
    and e: "hp_lim h < n" "\<forall>a<Suc (hp_lim h). e a = hp_ext h a" "listCells e m \<subseteq> {hp_lim h..<n}"
      "listVal e m = listVal (hp_ext h) (sl_ListMeta v)"
  shows "\<exists>p' h'. run_state (SecretSyncList_DeepCopy ops (Some p)) h = (Some p', h')
    \<and> deepCopied (denotedList metaVal listVal) h p h' p'"
proof -
  let ?a = "hp_lim h"
  let ?h = "h\<lparr>hp_lists := (hp_lists h)(?a := [v\<lparr>sl_ListMeta := m, sl_Items := None\<rparr>]), hp_ext := e, hp_lim := n\<rparr>"
  have "fst p < ?a" using valid by (simp add: validList_def)
  then have "run_state (SecretSyncList_DeepCopy ops (Some p)) h = (Some (?a, 0), ?h)"
    using nil m v
    by (auto intro!: heap.equality simp: SecretSyncList_DeepCopy_def SecretSyncList_DeepCopyInto_def fresh_def assign_def listLoc_def)
  moreover have "deepCopied (denotedList metaVal listVal) h p ?h (?a, 0)"
    by (rule list_copiedI [OF valid v]) (use e nil in \<open>auto simp: agree_def\<close>)
  ultimately show ?thesis by blast
qed

lemma list_copies_items:
  assumes valid: "validList metaCells listCells h p" and v: "loc_get (listLoc p) h = v" and items: "sl_Items v = Some s"
    and m: "am_ListMeta ops (sl_ListMeta v) (hp_ext h) (Suc (hp_lim h)) = (m, e, n)"
    and e: "hp_lim h < n" "\<forall>a<Suc (hp_lim h). e a = hp_ext h a" "listCells e m \<subseteq> {hp_lim h..<n}"
      "listVal e m = listVal (hp_ext h) (sl_ListMeta v)"
  shows "\<exists>p' h'. run_state (SecretSyncList_DeepCopy ops (Some p)) h = (Some p', h')
    \<and> deepCopied (denotedList metaVal listVal) h p h' p'"
proof -
  let ?a = "hp_lim h" and ?s = "\<lparr>sl_addr = n, sl_off = 0, sl_len = sl_len s\<rparr>"
  let ?h3 = "h\<lparr>hp_lists := (hp_lists h)(?a := [v\<lparr>sl_ListMeta := m, sl_Items := Some ?s\<rparr>]), hp_ext := e,
    hp_syncs := (hp_syncs h)(n := replicate (sl_len s) (zeroSyncMem ops)), hp_lim := Suc n\<rparr>"
  let ?loop = "copyItems ops (itemsField (listLoc p)) (itemsField (listLoc (?a, 0))) 0 (sl_len s)"
  have s: "fst p < ?a" "sl_addr s < ?a" "\<And>j. j < sl_len s \<Longrightarrow> validSync metaCells h (element s j)"
    using valid v items by (auto simp: validList_def windowed_def)
  have grow: "grown h ?h3" using e by (simp add: grown_def)
  have run: "run_state (SecretSyncList_DeepCopy ops (Some p)) h = (Some (?a, 0), snd (run_state ?loop ?h3))"
    using v items m s(1)
    by (simp add: SecretSyncList_DeepCopy_def SecretSyncList_DeepCopyInto_def fresh_def assign_def listLoc_def
        itemsField_def make_syncs_def heap_comm heap_comm_arrays split: prod.split)
  obtain vs c e' l where loop: "run_state ?loop ?h3 =
        ((), ?h3\<lparr>hp_syncs := (hp_syncs ?h3)(n := take 0 (hp_syncs ?h3 n) @ vs), hp_conds := c, hp_ext := e', hp_lim := l\<rparr>)"
      "length vs = sl_len s" and g: "grown ?h3 (?h3\<lparr>hp_conds := c, hp_ext := e', hp_lim := l\<rparr>)"
      and cp: "\<forall>j<sl_len s. copied metaCells metaVal ?h3 (loc_get (syncLoc (element s (0 + j))) ?h3)
          (?h3\<lparr>hp_conds := c, hp_ext := e', hp_lim := l\<rparr>) (vs ! j)"
  proof -
    have "validSync metaCells ?h3 (element s j)" if "j < sl_len s" for j
      by (rule validSync_grown [OF s(3) [OF that] grow]) (use s(2) e(1) in \<open>simp add: element_def\<close>)
    then have "\<exists>vs c e' l. run_state ?loop ?h3 =
        ((), ?h3\<lparr>hp_syncs := (hp_syncs ?h3)(n := take 0 (hp_syncs ?h3 n) @ vs), hp_conds := c, hp_ext := e', hp_lim := l\<rparr>)
      \<and> length vs = sl_len s \<and> grown ?h3 (?h3\<lparr>hp_conds := c, hp_ext := e', hp_lim := l\<rparr>)
      \<and> (\<forall>j<sl_len s. copied metaCells metaVal ?h3 (loc_get (syncLoc (element s (0 + j))) ?h3)
            (?h3\<lparr>hp_conds := c, hp_ext := e', hp_lim := l\<rparr>) (vs ! j))"
      by (intro copyItems_copies) (use v items s(1,2) e(1) in \<open>simp_all add: itemsField_def listLoc_def\<close>)
    with that show thesis by blast
  qed
  let ?h4 = "?h3\<lparr>hp_syncs := (hp_syncs ?h3)(n := vs), hp_conds := c, hp_ext := e', hp_lim := l\<rparr>"
  have g4: "grown ?h3 ?h4" "grown (?h3\<lparr>hp_conds := c, hp_ext := e', hp_lim := l\<rparr>) ?h4" using g by (simp_all add: grown_def)
  have lim: "?a < hp_lim ?h4" "n < hp_lim ?h4" using g4(1) e(1) by (simp_all add: grown_def)
  have "deepCopied (denotedList metaVal listVal) h p ?h4 (?a, 0)"
  proof (rule list_copiedI [OF valid v _ _ lim(1)])
    show "agree {..<?a} h ?h4" using grown_trans [OF grow g4(1)] e(1) by (auto simp: agree_def grown_def)
    show "hp_lists ?h4 ?a = [v\<lparr>sl_ListMeta := m, sl_Items := Some ?s\<rparr>]" by simp
    have "listCells (hp_ext ?h4) m = listCells e m \<and> listVal (hp_ext ?h4) m = listVal e m"
      by (rule list_frame) (use g4(1) e(3) in \<open>auto simp: grown_def\<close>)
    then show "listCells (hp_ext ?h4) m \<subseteq> {?a..<hp_lim ?h4}" "listVal (hp_ext ?h4) m = listVal (hp_ext h) (sl_ListMeta v)"
      using e(3,4) lim(2) by auto
    have "denotedSync metaVal ?h4 (element ?s j) = denotedSync metaVal h (element s j)
        \<and> syncCells metaCells ?h4 (element ?s j) \<subseteq> {?a..<hp_lim ?h4}" if j: "j < sl_len s" for j
      by (rule item_copied [OF s(3) [OF j] grow g4(2)])
        (use cp [rule_format, OF j] s(2) e(1) lim(2) in \<open>simp_all add: syncLoc_def element_def\<close>)
    then show "rel_option (\<lambda>s s'. sl_len s' = sl_len s \<and> (\<forall>j<sl_len s.
        denotedSync metaVal ?h4 (element s' j) = denotedSync metaVal h (element s j)
        \<and> syncCells metaCells ?h4 (element s' j) \<subseteq> {?a..<hp_lim ?h4})) (sl_Items v) (Some ?s)"
      unfolding items by simp
  qed
  with run loop(1) show ?thesis by (intro exI conjI) simp_all
qed

lemma SecretSyncList_DeepCopy_copies:
  assumes "validList metaCells listCells h p"
  shows "\<exists>p' h'. run_state (SecretSyncList_DeepCopy ops (Some p)) h = (Some p', h')
    \<and> deepCopied (denotedList metaVal listVal) h p h' p'"
proof -
  let ?a = "hp_lim h" and ?v = "loc_get (listLoc p) h"
  obtain m e n where m: "am_ListMeta ops (sl_ListMeta ?v) (hp_ext h) (Suc ?a) = (m, e, n)" by (metis prod_cases3)
  have "listCells (hp_ext h) (sl_ListMeta ?v) \<subseteq> {..<Suc ?a}" using assms by (auto simp: validList_def)
  from list_copy [OF m this] have e: "?a < n" "\<forall>a<Suc ?a. e a = hp_ext h a" "listCells e m \<subseteq> {?a..<n}"
    "listVal e m = listVal (hp_ext h) (sl_ListMeta ?v)" by auto
  show ?thesis
  proof (cases "sl_Items ?v")
    case None
    from list_copies_nil [OF assms refl this m e] show ?thesis .
  next
    case (Some s)
    from list_copies_items [OF assms refl this m e] show ?thesis .
  qed
qed

end

section \<open>The concrete apimachinery\<close>

interpretation reference: apimachinery refMeta refMetaCells refMetaVal "\<lambda>_ _. {}" "\<lambda>_ m. m"
proof
  fix m m' :: metaMem and e e' :: "addr \<Rightarrow> metaCell" and n n' :: addr
  assume copy: "am_ObjectMeta refMeta m e n = (m', e', n')" and cells: "refMetaCells e m \<subseteq> {..<n}"
  obtain sc l a r f where "m = \<lparr>mm_Scalars = sc, mm_Labels = l, mm_Annotations = a, mm_Owners = r, mm_Finalizers = f\<rparr>"
    by (cases m) auto
  with copy cells show "n \<le> n' \<and> (\<forall>a<n. e' a = e a) \<and> refMetaCells e' m' \<subseteq> {n..<n'} \<and> refMetaVal e' m' = refMetaVal e m"
    by (cases l; cases a; cases r; cases f)
      (auto simp: refMeta_def refCopyMeta_def copyRef_def refMetaCells_def refMetaVal_def)
next
  fix e e' :: "addr \<Rightarrow> metaCell" and m :: metaMem
  assume "\<And>a. a \<in> refMetaCells e m \<Longrightarrow> e' a = e a"
  then show "refMetaCells e' m = refMetaCells e m \<and> refMetaVal e' m = refMetaVal e m"
    by (cases "mm_Labels m"; cases "mm_Annotations m"; cases "mm_Owners m"; cases "mm_Finalizers m")
      (auto simp: refMetaCells_def refMetaVal_def)
qed (auto simp: refMeta_def)

lemma demoHeap_valid:
  "validSync refMetaCells demoHeap (1, 0)" "validSync refMetaCells demoHeap (1, 1)"
  "validList refMetaCells (\<lambda>_ _. {}) demoHeap (0, 0)"
proof -
  show *: "validSync refMetaCells demoHeap (1, 0)" "validSync refMetaCells demoHeap (1, 1)"
    by (simp_all add: validSync_def validStatus_def windowed_def syncLoc_def refMetaCells_def demoHeap_def demoMem_def)
  have "validSync refMetaCells demoHeap (1, i)" if "i < 2" for i
    using * that by (cases i rule: nat.exhaust) (auto simp: less_Suc_eq numeral_2_eq_2)
  then show "validList refMetaCells (\<lambda>_ _. {}) demoHeap (0, 0)"
    by (auto simp: validList_def windowed_def listLoc_def element_def demoHeap_def)
qed

section \<open>Properties\<close>

text \<open>
  (C36) \<open>DeepCopy\<close> of a SecretSync is a deep copy. From a pointer at allocated memory it returns a pointer at
  new memory that denotes the same declaration: the same type, metadata, spec and status, nil conditions
  where they were nil. Everything the original depends on is as it was; and whatever is written later to the
  memory the copy brought changes nothing of the original, and nothing written to the memory that was
  there before changes the copy. So declarations are values, as the rest of the development has them,
  and what a reconcile changes on its copy never reaches the client's cache.
\<close>

theorem deepcopy_secretsync:
  assumes "apimachinery ops metaCells metaVal listCells listVal" and "validSync metaCells h p"
  shows "\<exists>p' h'. run_state (SecretSync_DeepCopyObject ops (Some p)) h = (Some (SecretSyncObject p'), h')
    \<and> run_state (SecretSync_DeepCopy ops (Some p)) h = (Some p', h') \<and> deepCopied (denotedSync metaVal) h p h' p'"
proof -
  obtain p' h' where "run_state (SecretSync_DeepCopy ops (Some p)) h = (Some p', h')" "deepCopied (denotedSync metaVal) h p h' p'"
    using apimachinery.SecretSync_DeepCopy_copies [OF assms] by blast
  then show ?thesis by (intro exI [of _ p'] exI [of _ h']) (simp add: SecretSync_DeepCopyObject_def)
qed

theorem deepcopy_secretsync_witness:
  "\<exists>p' h'. run_state (SecretSync_DeepCopyObject refMeta (Some (1, 0))) demoHeap = (Some (SecretSyncObject p'), h')
    \<and> run_state (SecretSync_DeepCopy refMeta (Some (1, 0))) demoHeap = (Some p', h')
    \<and> deepCopied (denotedSync refMetaVal) demoHeap (1, 0) h' p'"
  by (rule deepcopy_secretsync [OF reference.apimachinery_axioms demoHeap_valid(1)])

text \<open>
  (C37) \<open>DeepCopy\<close> of a SecretSyncList is a deep copy, whatever its items share: a nil list of items stays
  nil, each item of the copy denotes what the item of the original does, in the same order, and the two
  lists, their items and their items' conditions and metadata, have no memory in common.
\<close>

theorem deepcopy_list:
  assumes "apimachinery ops metaCells metaVal listCells listVal" and "validList metaCells listCells h p"
  shows "\<exists>p' h'. run_state (SecretSyncList_DeepCopyObject ops (Some p)) h = (Some (SecretSyncListObject p'), h')
    \<and> run_state (SecretSyncList_DeepCopy ops (Some p)) h = (Some p', h') \<and> deepCopied (denotedList metaVal listVal) h p h' p'"
proof -
  obtain p' h' where "run_state (SecretSyncList_DeepCopy ops (Some p)) h = (Some p', h')"
      "deepCopied (denotedList metaVal listVal) h p h' p'"
    using apimachinery.SecretSyncList_DeepCopy_copies [OF assms] by blast
  then show ?thesis by (intro exI [of _ p'] exI [of _ h']) (simp add: SecretSyncList_DeepCopyObject_def)
qed

theorem deepcopy_list_witness:
  "\<exists>p' h'. run_state (SecretSyncList_DeepCopyObject refMeta (Some (0, 0))) demoHeap = (Some (SecretSyncListObject p'), h')
    \<and> run_state (SecretSyncList_DeepCopy refMeta (Some (0, 0))) demoHeap = (Some p', h')
    \<and> deepCopied (denotedList refMetaVal (\<lambda>_ m. m)) demoHeap (0, 0) h' p'"
  by (rule deepcopy_list [OF reference.apimachinery_axioms demoHeap_valid(3)])

end
