(* ===== verification/Spec2Isabelle.thy ===== *)
theory Spec2Isabelle
  imports Event_Delivery Interleaving Outcome_Records Scheme_Registration Api_Deepcopy
begin

text \<open>
  Verification of kvsynk8s, a Kubernetes operator that keeps Kubernetes Secrets in step with
  secrets in Azure Key Vault.

  The program. A \<open>SecretSync\<close> object declares one vault secret and one target Secret. The reconciler
  (\<open>internal/controller/secretsync_controller.go\<close>) drives each declaration: it checks for competing
  declarations, reads the target through the cache, lets the engine (\<open>internal/sync/engine.go\<close>) read
  the vault and decide status and Secret, lets the writer (\<open>internal/sync/writer.go\<close>) create or update
  the Secret, persists the status, and collects Secrets left behind by a rename; on deletion it
  removes the Secret and then the finalizer. The vault is read through \<open>azure.SecretReader\<close>
  (\<open>internal/azure/keyvault.go\<close>). Beside the periodic reconcile, a listener
  (\<open>internal/events/listener.go\<close>) polls a storage queue (\<open>internal/azure/queue.go\<close>), parses the change
  notifications (\<open>parser.go\<close>) and sends the declarations they concern to the reconciler. \<open>cmd/main.go\<close>
  reads flags and environment and wires all of it to the manager.

  How the code is modelled. Effectful Go code is a value of the state monad over the state of its
  component: \<open>'w sys\<close> (\<open>Operator_State\<close>) for reconciler, engine and writer, \<open>kvSys\<close> for the vault reader,
  \<open>'w lsys\<close> for the listener, \<open>boot\<close> for \<open>main\<close>. Each holds the world behind the libraries, the list of all
  calls made with their answers, and the log; \<open>'w sys\<close> also the events and the result counter, \<open>'w lsys\<close>
  the listener's record, its gauges and counter. Everything that is not in the repository (the
  Kubernetes client, the helpers of apimachinery and controller-runtime, the clock, the Azure SDK)
  is a parameter: a field of \<open>'w env\<close>, \<open>azureEnv\<close>, \<open>queueEnv\<close>, \<open>'w lenv\<close>, \<open>bootEnv\<close>, \<open>schemeEnv\<close> or \<open>apimeta\<close>.
  Nothing is assumed of it unless a theorem names a law: \<open>ownerRefLaws\<close>, \<open>clientErrorLaws\<close>, \<open>controllerOfLaw\<close>,
  \<open>refusesOthers\<close>, \<open>declarationLaws\<close>, \<open>conditionLaw\<close>, \<open>statusEcho\<close>, \<open>willing\<close>, \<open>schemeLaws\<close>, or the locales \<open>kube_api\<close>, \<open>kube_lagging\<close>, \<open>kube_vault\<close>,
  \<open>versioned_store\<close> and \<open>apimachinery\<close>, whose predicates are the hypotheses of the theorems that rest on them. The
  in-memory cluster of \<open>Reference_Cluster\<close>, its copy behind a lagging cache (\<open>Stale_Cache\<close>) and the demonstration
  environments of the components satisfy them, and the witnesses run on these. Safety holds for every environment;
  what the operator achieves is proved for servers that work (\<open>kube_api\<close>, \<open>kube_lagging\<close>, \<open>kube_vault\<close>).

  Go's pointers are values except in \<open>Api_Deepcopy\<close>, which models the generated deep copies over an explicit
  memory and shows that a copy is as independent as a value; the Secret that \<open>Sync\<close> changes in place
  is the explicit snapshot \<open>priorOf\<close>. A nil dereference is the error kind \<open>KPanic\<close>, shown unreachable.
  Go strings are byte strings, times and durations are nanoseconds, maps are finite maps.

  Theories and what they show.
  \<^item> \<open>Kv_Prelude\<close>, \<open>Go_Strings\<close>, \<open>Go_Errors\<close>: the monad's calculus, Go maps, \<open>strconv.Quote\<close> and
    \<open>strings.EqualFold\<close>, the error trees of \<open>errors.Is\<close> and \<open>errors.As\<close>.
  \<^item> \<open>Go_Json\<close>, \<open>Go_Base64\<close>, \<open>Go_Url\<close>, \<open>Go_Time\<close>, \<open>Go_Flag\<close>: what the program uses of Go's library: the JSON
    scanner with a printer it inverts, Base64 likewise, \<open>net/url\<close>, \<open>time.ParseDuration\<close> with its 64-bit
    limits and its rounding, and the flag parser.
  \<^item> \<open>Api_V1alpha1\<close>: the types of \<open>api/v1alpha1/secretsync_types.go\<close> and its admission rules.
  \<^item> \<open>Api_Deepcopy\<close>: \<open>zz_generated.deepcopy.go\<close> over a memory of pointers and slices. Copies denote the value of
    the original, in memory of their own, and leave all other memory unchanged.
  \<^item> \<open>Operator_State\<close>: calls, contexts, the environment, and the calculi for traces: \<open>emits\<close> (a property
    of every call), \<open>proto\<close> (which call may follow which), \<open>sim\<close> (refinement of a transition system)
    and \<open>costs\<close> (how many calls).
  \<^item> \<open>Secret_Writer\<close>: all of \<open>SecretWriter\<close>. Its protocol \<open>writerStep\<close>; that it updates only Secrets that
    carry its label or are the owner's and whose controller, if any, has the owner's kind and name (which is what the library's
    check compares: \<open>namesake_taken_over\<close> is a run on the Secret of a namesake with another UID), never fights an immutable one, answers truthfully, and makes at most six calls.
  \<^item> \<open>Sync_Engine\<close>: \<open>Engine.Sync\<close>. That a failure keeps the last known good value, that InSync means an
    up-to-date Secret, that no value and no upstream text reaches the status, and idempotency.
  \<^item> \<open>Secretsync_Controller\<close>: \<open>Reconcile\<close> cut at its early returns, deletion, garbage collection, the
    Ready condition, outcome recording.
  \<^item> \<open>Target_Claims\<close>: the precedence between declarations, as a locale interpreted on \<open>takesPrecedence\<close>.
  \<^item> \<open>Reconcile_Protocol\<close>: the abstract specification of a reconcile as the transition system \<open>rstep\<close>,
    and the refinement lemma \<open>sim_Reconcile\<close>.
  \<^item> \<open>Reference_Runs\<close>: five whole reconciles evaluated on the reference cluster.
  \<^item> \<open>Reconcile_Safety\<close>: the invariants of \<open>rstep\<close>, as interpretations of the locale
    \<open>history_invariant\<close>, and the properties of \<open>Reconcile\<close> for every behaviour of its environment.
    Deletion reads the target through the cache, which holds labelled Secrets only: \<open>deletion_misses_stripped\<close> is a run that
    releases the finalizer while the declaration's own Secret, its label stripped, still exists.
  \<^item> \<open>Status_Types\<close>: the type of a status; every status a reconcile persists has it.
  \<^item> \<open>Outcome_Records\<close>: counter and events. Each reconcile reports its outcome once, under closed labels.
  \<^item> \<open>Kube_Api\<close>, \<open>Reconcile_Converges\<close>: the locales of a working API server and vault, interpreted on the
    reference cluster. One reconcile converges from any reclaimable target (none, or an Opaque Secret that is not immutable
    and is labelled or the declaration's own) whose new content the server admits (\<open>storable\<close>), if the Secrets it has to
    collect have no finalizers (\<open>sweepable\<close>); and a deletion completes, removing the labelled Secret of the declaration.
    Both rest on \<open>kube_server\<close>, the laws of the server itself. What the server admits is its parameter \<open>admits\<close>, and
    nothing is assumed of a write it does not admit, of an update that changes the type of a Secret, or of the deletion of
    a Secret with finalizers. \<open>kube_api\<close> adds a cache that is up to date.
  \<^item> \<open>Stale_Cache\<close>: \<open>kube_lagging\<close> adds to \<open>kube_server\<close> a cache that may be behind, and optimistic concurrency. Whatever
    the cache says, the writer stores the value on the copy the server holds.
  \<^item> \<open>Interleaving\<close>: a reconcile while other clients change the cluster before each of its calls. The locale
    \<open>versioned_store\<close> says what resource versions promise; no update of another client is lost. Deletions carry no
    version, and \<open>delete_race\<close> is a run in which one hits a foreign Secret.
  \<^item> \<open>Event_Delivery\<close>: listener and reconciler together. Reconciles of different declarations do not disturb
    each other, and a change notification reaches the Secret of every declaration it concerns.
  \<^item> \<open>Azure_KeyVault\<close>: the vault reader with its cache of clients (\<open>keyvault.go\<close>, \<open>autherr.go\<close>). The locale
    \<open>secret_reader\<close> is the contract the engine relies on, interpreted on this reader; every failure is
    classified, the reason in the status follows for each kind of failure, and no text of a failed read leaks. (An error of
    the client's construction is wrapped as the SDK gave it, and the theorem says so.)
  \<^item> \<open>Azure_Queue\<close>: the queue source and URL redaction (\<open>queue.go\<close>, \<open>redact.go\<close>). Queries and user
    information do not survive redaction, nor transport errors.
  \<^item> \<open>Events_Parser\<close>: \<open>Parse\<close>. An event printed in either delivery schema parses back, whatever the order of its members and
    whatever other members it has, both samples of \<open>contracts/queue-message.md\<close> included; the schemas agree,
    errors are fixed texts.
  \<^item> \<open>Events_Listener\<close>, \<open>Listener_Rules\<close>: the listener, and the processing rules of a message as the
    inductive relation \<open>messageRules\<close> which each poll refines; exactly which messages are deleted, that every declaration
    is reached, the health record against the answers and clock readings of the run, the time limits and the pauses between polls as interpretations of the locale \<open>loop_invariant\<close>, and
    that \<open>Start\<close> returns once its context is cancelled.
  \<^item> \<open>Controller_Metrics\<close>: the scrape-time collector (\<open>internal/controller/metrics.go\<close>) tells the truth.
  \<^item> \<open>Operator_Main\<close>: \<open>cmd/main.go\<close> with \<open>SetupWithManager\<close>. No configuration keeps the operator from
    starting, the interval reported is the one used, and a SAS token in the queue URL reaches no output.
  \<^item> \<open>Scheme_Registration\<close>: the \<open>init\<close> functions; the API types are known to the scheme before \<open>main\<close> runs, and
    the metrics of controller and listener never collide in the registry.

  Bounds. There is no fuel. The loops over lists and strings are structural recursions or have a
  measure; the poll loop of the listener is a \<open>partial_function (option)\<close>, whose \<open>None\<close> is a run that never
  ends, and \<open>listener_returns\<close> shows when it ends. \<open>EqualFold\<close> follows a folding orbit for four steps, the
  longest orbit of Go's tables.

  Not modelled. The bodies of the libraries: client, cache and work queue of controller-runtime, the Azure SDK,
  Prometheus, the logger's rendering. The conversion of gauges to floating point. The listener's
  failure counter, an \<open>int64\<close> in the code, is an unbounded integer: it grows by one per failed poll. The call that makes the queue
  client is recorded without its URL, and the \<open>Scheme\<close> option of the manager is left to \<open>Scheme_Registration\<close>. IPv6 and zone literals of URLs
  are a parameter of \<open>url_Parse\<close>. What another worker or another client does to the cluster while a reconcile
  runs is an answer of the environment in the safety theorems, and explicit in \<open>Interleaving\<close>; the liveness theorems are
  about reconciles that run one after the other.
  Interface declarations (\<open>SecretReader\<close>, \<open>QueueSource\<close>), struct tags and the kubebuilder markers for columns
  and RBAC have no behaviour of their own.
\<close>

end
